(* ===== verification/Prelude.thy ===== *)
theory Prelude
  imports Main "HOL-Library.Word"
begin

text \<open>
  Shared foundations of the development: names for the C integer types, the result type of
  kernel code, the sequencing combinators in which the operations are written, and the generic
  facts on words, lists and results that the component theories use.

  A kernel operation is a function from a state to either a \<open>kfault\<close> or a value and the next
  state. A \<open>kfault\<close> ends the computation: a panic (\<^verbatim>\<open>_panic\<close> of \<^verbatim>\<open>kernel/assert.c\<close> never
  returns), a use of a null pointer, an access outside an object, a division by zero, a spin loop
  that the running processor cannot leave by itself, or any other loop without end.
\<close>

unbundle bit_operations_syntax

named_theorems kmonad \<open>unfolding rules of the sequencing combinators\<close>
named_theorems layout \<open>numeric values of the layout constants\<close>
named_theorems addr_simps \<open>address arithmetic of pages, directories and tables\<close>

section \<open>C integer types\<close>

type_synonym u8 = "8 word"
type_synonym u16 = "16 word"
type_synonym u32 = "32 word"
type_synonym u64 = "64 word"

section \<open>Results of kernel code\<close>

datatype kfault =
    Panic string
  | NullDeref
  | BadIndex
  | SpinForever
  | Hang
  | DivideError

type_synonym ('s, 'a) kfun = "'s \<Rightarrow> kfault + ('a \<times> 's)"

definition kreturn :: "'a \<Rightarrow> ('s, 'a) kfun" where
  "kreturn x = (\<lambda>s. Inr (x, s))"

definition kfail :: "kfault \<Rightarrow> ('s, 'a) kfun" where
  "kfail e = (\<lambda>s. Inl e)"

definition kbind :: "('s, 'a) kfun \<Rightarrow> ('a \<Rightarrow> ('s, 'b) kfun) \<Rightarrow> ('s, 'b) kfun" where
  "kbind m f = (\<lambda>s. case m s of Inl e \<Rightarrow> Inl e | Inr (x, s') \<Rightarrow> f x s')"

definition kgets :: "('s \<Rightarrow> 'a) \<Rightarrow> ('s, 'a) kfun" where
  "kgets f = (\<lambda>s. Inr (f s, s))"

definition kmodify :: "('s \<Rightarrow> 's) \<Rightarrow> ('s, unit) kfun" where
  "kmodify f = (\<lambda>s. Inr ((), f s))"

definition kwhen :: "bool \<Rightarrow> ('s, unit) kfun \<Rightarrow> ('s, unit) kfun" where
  "kwhen b m = (if b then m else kreturn ())"

definition kassert :: "bool \<Rightarrow> string \<Rightarrow> ('s, unit) kfun" where
  "kassert b msg = (if b then kreturn () else kfail (Panic msg))"

fun kfor :: "'b list \<Rightarrow> ('b \<Rightarrow> ('s, unit) kfun) \<Rightarrow> ('s, unit) kfun" where
  "kfor [] body = kreturn ()"
| "kfor (x # xs) body = kbind (body x) (\<lambda>_. kfor xs body)"

lemma kreturn_apply [simp, kmonad]: "kreturn x s = Inr (x, s)"
  by (simp add: kreturn_def)

lemma kfail_apply [simp, kmonad]: "kfail e s = Inl e"
  by (simp add: kfail_def)

lemma kbind_apply [kmonad]:
  "kbind m f s = (case m s of Inl e \<Rightarrow> Inl e | Inr (x, s') \<Rightarrow> f x s')"
  by (simp add: kbind_def)

lemma kgets_apply [simp, kmonad]: "kgets f s = Inr (f s, s)"
  by (simp add: kgets_def)

lemma kmodify_apply [simp, kmonad]: "kmodify f s = Inr ((), f s)"
  by (simp add: kmodify_def)

lemma kwhen_apply [kmonad]: "kwhen b m s = (if b then m s else Inr ((), s))"
  by (simp add: kwhen_def)

lemma kassert_apply [kmonad]:
  "kassert b msg s = (if b then Inr ((), s) else Inl (Panic msg))"
  by (simp add: kassert_def)

lemma kbind_Inr [simp]: "m s = Inr (x, s') \<Longrightarrow> kbind m f s = f x s'"
  by (simp add: kbind_def)

lemma kbind_Inl [simp]: "m s = Inl e \<Longrightarrow> kbind m f s = Inl e"
  by (simp add: kbind_def)

text \<open>A sequence returns normally iff both of its parts do.\<close>

lemma kbind_eq_Inr:
  "kbind m f s = Inr r \<longleftrightarrow> (\<exists>x s'. m s = Inr (x, s') \<and> f x s' = Inr r)"
  by (auto simp: kbind_def split: sum.splits)

lemma kbind_InrE:
  assumes "kbind m f s = Inr r"
  obtains x s' where "m s = Inr (x, s')" and "f x s' = Inr r"
  using assms by (auto simp: kbind_eq_Inr)

lemma kbind_assoc: "kbind (kbind m f) g = kbind m (\<lambda>x. kbind (f x) g)"
  by (rule ext) (auto simp: kbind_def split: sum.splits)

lemma kfor_append: "kfor (xs @ ys) body = kbind (kfor xs body) (\<lambda>_. kfor ys body)"
proof (induction xs)
  case Nil
  show ?case by (simp add: kbind_def kreturn_def)
next
  case (Cons x xs)
  then show ?case by (simp add: kbind_assoc)
qed

text \<open>
  The rule for counted loops: an invariant that every iteration keeps and under which every
  iteration returns holds at the end, and the loop returns.
\<close>

lemma kfor_invariant:
  assumes "I 0 s"
    and "\<And>k s. k < length xs \<Longrightarrow> I k s \<Longrightarrow> \<exists>s'. body (xs ! k) s = Inr ((), s') \<and> I (Suc k) s'"
  shows "\<exists>s'. kfor xs body s = Inr ((), s') \<and> I (length xs) s'"
  using assms
proof (induction xs arbitrary: I s)
  case Nil
  then show ?case by simp
next
  case (Cons x xs)
  from Cons.prems(2) [of 0 s] Cons.prems(1)
  obtain s1 where s1: "body x s = Inr ((), s1)" "I (Suc 0) s1" by auto
  have "\<exists>s'. kfor xs body s1 = Inr ((), s') \<and> (\<lambda>k. I (Suc k)) (length xs) s'"
  proof (rule Cons.IH [of "\<lambda>k. I (Suc k)"])
    show "I (Suc 0) s1" by (rule s1)
    show "\<exists>s'. body (xs ! k) s = Inr ((), s') \<and> I (Suc (Suc k)) s'"
      if "k < length xs" "I (Suc k) s" for k s
      using Cons.prems(2) [of "Suc k" s] that by simp
  qed
  with s1(1) show ?case by simp
qed

section \<open>Words\<close>

lemma and_mask_take_bit:
  fixes x :: "'a::len word"
  shows "x AND mask n = take_bit n x"
  by (simp add: take_bit_eq_mask)

lemma or_and_right:
  fixes x y m :: "'a::len word"
  shows "(x OR y) AND m = (x AND m) OR (y AND m)"
  by (rule bit.conj_disj_distrib2)

lemma unat_of_nat_small:
  assumes "n < 2 ^ LENGTH('a)"
  shows "unat (of_nat n :: 'a::len word) = n"
  using assms by (simp add: unat_of_nat take_bit_nat_eq_self)

section \<open>Lists\<close>

lemma list_update_other [simp]: "i \<noteq> j \<Longrightarrow> xs[i := v] ! j = xs ! j"
  by simp

lemma map_upt_eqI:
  assumes "length xs = n" and "\<And>i. i < n \<Longrightarrow> xs ! i = f i"
  shows "xs = map f [0..<n]"
  using assms by (auto intro: nth_equalityI)

end
