(* ===== verification/Layout.thy ===== *)
theory Layout
  imports Prelude
begin

text \<open>
  The address arithmetic of \<^verbatim>\<open>inc/mmu.h\<close>, \<^verbatim>\<open>inc/memlayout.h\<close> and \<^verbatim>\<open>inc/types.h\<close>: page size and
  page-table constants, the macros that take a linear address apart, the rounding macros, and
  the conversions between kernel virtual addresses, physical addresses and page frames of
  \<^verbatim>\<open>kernel/mem.h\<close>. Addresses are 32-bit words; an index (\<open>PGNUM\<close>, \<open>PDX\<close>, \<open>PTX\<close>) is the
  natural number of the word the macro computes.
\<close>

section \<open>Constants\<close>

definition NPDENTRIES :: nat where "NPDENTRIES = 1024"
definition NPTENTRIES :: nat where "NPTENTRIES = 1024"
definition PGSIZE :: u32 where "PGSIZE = 4096"
definition PGSHIFT :: nat where "PGSHIFT = 12"
definition PTSIZE :: u32 where "PTSIZE = PGSIZE * 1024"
definition PTXSHIFT :: nat where "PTXSHIFT = 12"
definition PDXSHIFT :: nat where "PDXSHIFT = 22"

definition PTE_P :: u32 where "PTE_P = 0x001"
definition PTE_W :: u32 where "PTE_W = 0x002"
definition PTE_U :: u32 where "PTE_U = 0x004"
definition PTE_PWT :: u32 where "PTE_PWT = 0x008"
definition PTE_PCD :: u32 where "PTE_PCD = 0x010"

definition KERNBASE :: u32 where "KERNBASE = 0xF0000000"
definition IOPHYSMEM :: u32 where "IOPHYSMEM = 0x0A0000"
definition EXTPHYSMEM :: u32 where "EXTPHYSMEM = 0x100000"
definition KSTACKTOP :: u32 where "KSTACKTOP = KERNBASE"
definition KSTKSIZE :: u32 where "KSTKSIZE = 8 * PGSIZE"
definition KSTKGAP :: u32 where "KSTKGAP = 8 * PGSIZE"
definition MMIOLIM :: u32 where "MMIOLIM = KSTACKTOP - PTSIZE"
definition MMIOBASE :: u32 where "MMIOBASE = MMIOLIM - PTSIZE"
definition ULIM :: u32 where "ULIM = MMIOBASE"
definition UVPT :: u32 where "UVPT = ULIM - PTSIZE"
definition UPAGES :: u32 where "UPAGES = UVPT - PTSIZE"
definition UENVS :: u32 where "UENVS = UPAGES - PTSIZE"
definition UTOP :: u32 where "UTOP = UENVS"
definition USTACKTOP :: u32 where "USTACKTOP = UTOP - 2 * PGSIZE"
definition MPENTRY_PADDR :: u32 where "MPENTRY_PADDR = 0x7000"

definition GD_KT :: u32 where "GD_KT = 0x08"
definition GD_KD :: u32 where "GD_KD = 0x10"
definition GD_UT :: u32 where "GD_UT = 0x18"
definition GD_UD :: u32 where "GD_UD = 0x20"
definition GD_TSS0 :: u32 where "GD_TSS0 = 0x28"

lemmas layout_defs [layout] =
  NPDENTRIES_def NPTENTRIES_def PGSIZE_def PGSHIFT_def PTSIZE_def PTXSHIFT_def PDXSHIFT_def
  PTE_P_def PTE_W_def PTE_U_def PTE_PWT_def PTE_PCD_def KERNBASE_def IOPHYSMEM_def
  EXTPHYSMEM_def KSTACKTOP_def KSTKSIZE_def KSTKGAP_def MMIOLIM_def MMIOBASE_def ULIM_def
  UVPT_def UPAGES_def UENVS_def UTOP_def USTACKTOP_def MPENTRY_PADDR_def
  GD_KT_def GD_KD_def GD_UT_def GD_UD_def GD_TSS0_def

section \<open>Taking linear addresses apart\<close>

definition PGNUM :: "u32 \<Rightarrow> nat" where
  "PGNUM la = unat (drop_bit PTXSHIFT la)"

definition PDX :: "u32 \<Rightarrow> nat" where
  "PDX la = unat (drop_bit PDXSHIFT la AND 0x3FF)"

definition PTX :: "u32 \<Rightarrow> nat" where
  "PTX la = unat (drop_bit PTXSHIFT la AND 0x3FF)"

definition PGOFF :: "u32 \<Rightarrow> u32" where
  "PGOFF la = la AND 0xFFF"

definition PGADDR :: "u32 \<Rightarrow> u32 \<Rightarrow> u32 \<Rightarrow> u32" where
  "PGADDR d t o' = push_bit PDXSHIFT d OR push_bit PTXSHIFT t OR o'"

definition PTE_ADDR :: "u32 \<Rightarrow> u32" where
  "PTE_ADDR pte = pte AND NOT 0xFFF"

section \<open>Rounding\<close>

definition ROUNDDOWN :: "u32 \<Rightarrow> u32 \<Rightarrow> u32" where
  "ROUNDDOWN a n = a - a mod n"

definition ROUNDUP :: "u32 \<Rightarrow> u32 \<Rightarrow> u32" where
  "ROUNDUP a n = ROUNDDOWN (a + n - 1) n"

section \<open>Physical, virtual and page-structure addresses\<close>

text \<open>
  The panics carry the message of the source. \<open>paddr\<close> and \<open>kaddr\<close> are \<^verbatim>\<open>_paddr\<close> and
  \<^verbatim>\<open>_kaddr\<close>; a \<^verbatim>\<open>struct PageInfo *\<close> is the index of the entry in the array \<^verbatim>\<open>pages\<close>.
\<close>

definition paddr :: "u32 \<Rightarrow> kfault + u32" where
  "paddr kva =
     (if kva < KERNBASE then Inl (Panic ''PADDR called with invalid kva'')
      else Inr (kva - KERNBASE))"

definition kaddr :: "nat \<Rightarrow> u32 \<Rightarrow> kfault + u32" where
  "kaddr npages pa =
     (if PGNUM pa \<ge> npages then Inl (Panic ''KADDR called with invalid pa'')
      else Inr (pa + KERNBASE))"

definition page2pa :: "nat \<Rightarrow> u32" where
  "page2pa pp = push_bit PGSHIFT (of_nat pp)"

definition pa2page :: "nat \<Rightarrow> u32 \<Rightarrow> kfault + nat" where
  "pa2page npages pa =
     (if PGNUM pa \<ge> npages then Inl (Panic ''pa2page called with invalid pa'')
      else Inr (PGNUM pa))"

section \<open>Address arithmetic\<close>


lemma mask_10: "(0x3FF :: u32) = mask 10"
  by (simp add: mask_eq_exp_minus_1)

lemma mask_12: "(0xFFF :: u32) = mask 12"
  by (simp add: mask_eq_exp_minus_1)

lemma unat_u32_less [simp]: "unat (a :: u32) < 4294967296"
  using unsigned_less [of a] by simp

lemma unat_drop [addr_simps]: "unat (drop_bit n (a::u32)) = unat a div 2 ^ n"
  by (simp add: unat_drop_bit_eq drop_bit_nat_def)

lemma unat_mask_and [addr_simps]: "unat ((a::u32) AND mask n) = unat a mod 2 ^ n"
  by (simp add: and_mask_take_bit unsigned_take_bit_eq take_bit_nat_def)

lemma PGNUM_div [addr_simps]: "PGNUM la = unat la div 4096"
  by (simp add: PGNUM_def PTXSHIFT_def unat_drop)

lemma PDX_div [addr_simps]: "PDX la = unat la div 4194304"
proof -
  have "unat la div 4194304 < 1024"
    using unat_u32_less [of la] by linarith
  then show ?thesis
    by (simp add: PDX_def PDXSHIFT_def mask_10 unat_mask_and unat_drop)
qed

lemma PTX_div [addr_simps]: "PTX la = unat la div 4096 mod 1024"
  by (simp add: PTX_def PTXSHIFT_def mask_10 unat_mask_and unat_drop)

lemma PGOFF_mod [addr_simps]: "unat (PGOFF la) = unat la mod 4096"
  by (simp add: PGOFF_def mask_12 unat_mask_and)

lemma PDX_less [simp]: "PDX la < 1024"
  unfolding PDX_div using unat_u32_less [of la] by linarith

lemma PTX_less [simp]: "PTX la < 1024"
  by (simp add: PTX_div)

lemma PGNUM_less [simp]: "PGNUM la < 1048576"
  unfolding PGNUM_div using unat_u32_less [of la] by linarith

lemma PDX_PGNUM: "PDX la = PGNUM la div 1024"
  by (simp add: PDX_div PGNUM_div div_mult2_eq [symmetric])

lemma PTX_PGNUM: "PTX la = PGNUM la mod 1024"
  by (simp add: PTX_div PGNUM_div)

lemma PGNUM_PDX_PTX: "PGNUM la = PDX la * 1024 + PTX la"
  by (simp add: PDX_PGNUM PTX_PGNUM)

lemma same_page_iff: "PDX a = PDX b \<and> PTX a = PTX b \<longleftrightarrow> PGNUM a = PGNUM b"
  by (metis PDX_PGNUM PTX_PGNUM PGNUM_PDX_PTX)

lemma PTE_ADDR_page2pa: "PTE_ADDR e = page2pa (PGNUM e)"
proof -
  have "e AND NOT (mask 12) = push_bit 12 (drop_bit 12 e)"
    by (rule bit_eqI) (auto simp: bit_simps)
  then show ?thesis
    by (simp add: PTE_ADDR_def page2pa_def PGNUM_def PTXSHIFT_def PGSHIFT_def mask_12)
qed

lemma unat_page2pa: "pp < 1048576 \<Longrightarrow> unat (page2pa pp) = pp * 4096"
  by (simp add: page2pa_def PGSHIFT_def push_bit_eq_mult unat_word_ariths unat_of_nat_small)

lemma PGNUM_page2pa [simp]: "pp < 1048576 \<Longrightarrow> PGNUM (page2pa pp) = pp"
  by (simp add: PGNUM_div unat_page2pa)

lemma PTX_page2pa_low: "pp < 1048576 \<Longrightarrow> unat (page2pa pp) mod 4096 = 0"
  by (simp add: unat_page2pa)

lemma PGNUM_or: "PGNUM y = 0 \<Longrightarrow> PGNUM (x OR y) = PGNUM x"
  by (simp add: PGNUM_def drop_bit_or unat_0_iff)

lemma PGNUM_or_perm [simp]: "unat perm < 4096 \<Longrightarrow> PGNUM (x OR perm) = PGNUM x"
  by (rule PGNUM_or) (simp add: PGNUM_div)

lemma PGNUM_0_iff: "PGNUM x = 0 \<longleftrightarrow> unat x < 4096"
  by (simp add: PGNUM_div div_eq_0_iff)

lemma PTE_ADDR_entry [simp]:
  "pp < 1048576 \<Longrightarrow> PGNUM perm = 0 \<Longrightarrow> PTE_ADDR (page2pa pp OR perm) = page2pa pp"
  by (simp add: PTE_ADDR_page2pa PGNUM_or)

lemma PGNUM_PTE_ADDR [simp]: "PGNUM (PTE_ADDR e) = PGNUM e"
  by (simp add: PTE_ADDR_page2pa)

lemma or_P_and_P [simp]: "(x OR PTE_P) AND PTE_P = PTE_P"
  unfolding PTE_P_def by (rule bit_eqI) (auto simp: bit_simps)

lemma PTE_P_neq_0 [simp]: "PTE_P \<noteq> 0"
  by (simp add: PTE_P_def)

lemma and_or_perm: "(page2pa pp OR perm) AND m = (page2pa pp AND m) OR (perm AND m)"
  by (rule or_and_right)

lemma page2pa_and_low [simp]: "PGNUM m = 0 \<Longrightarrow> page2pa pp AND m = 0"
proof -
  assume "PGNUM m = 0"
  then have m: "drop_bit 12 m = 0"
    by (simp add: PGNUM_def PTXSHIFT_def unat_0_iff)
  show ?thesis
  proof (rule bit_eqI)
    fix n
    assume n: "possible_bit TYPE(u32) n"
    show "bit (page2pa pp AND m) n \<longleftrightarrow> bit (0::u32) n"
    proof (cases "n < 12")
      case True
      then show ?thesis by (simp add: page2pa_def PGSHIFT_def bit_simps)
    next
      case False
      have "\<not> bit (drop_bit 12 m) (n - 12)" using m by simp
      with False have "\<not> bit m n" by (simp add: bit_drop_bit_eq)
      then show ?thesis by (simp add: bit_simps)
    qed
  qed
qed

lemma kaddr_page2pa:
  "pp < npages \<Longrightarrow> npages \<le> 65536 \<Longrightarrow> kaddr npages (page2pa pp) = Inr (page2pa pp + KERNBASE)"
  by (simp add: kaddr_def)

lemma paddr_kaddr:
  assumes "npages \<le> 65536" and "kaddr npages pa = Inr kva"
  shows "paddr kva = Inr pa"
proof -
  from assms have kva: "kva = pa + KERNBASE" and "PGNUM pa < 65536"
    by (auto simp: kaddr_def split: if_splits)
  then have "unat pa < 268435456" by (simp add: PGNUM_div)
  then have "\<not> kva < KERNBASE"
    by (simp add: kva KERNBASE_def word_less_nat_alt unat_word_ariths)
  then show ?thesis by (simp add: paddr_def kva)
qed

lemma ROUNDDOWN_unat: "unat (ROUNDDOWN a n) = unat a - unat a mod unat n"
  by (simp add: ROUNDDOWN_def unat_sub unat_mod word_le_nat_alt)

lemma ROUNDUP_unat:
  assumes "unat a + 4095 < 2 ^ 32"
  shows "unat (ROUNDUP a PGSIZE) = (unat a + 4095) div 4096 * 4096"
proof -
  have "unat (a + PGSIZE - 1) = unat a + 4095"
  proof -
    have "a + PGSIZE - 1 = a + 4095" by (simp add: PGSIZE_def)
    moreover from assms have "unat (a + 4095) = unat a + 4095" by (simp add: unat_word_ariths)
    ultimately show ?thesis by (simp only:)
  qed
  then have "unat (ROUNDUP a PGSIZE) = (unat a + 4095) - (unat a + 4095) mod 4096"
    by (simp add: ROUNDUP_def ROUNDDOWN_unat PGSIZE_def)
  then show ?thesis by (simp add: minus_mod_eq_div_mult)
qed

lemma PGADDR_split: "PGADDR (of_nat (PDX la)) (of_nat (PTX la)) (PGOFF la) = la"
  unfolding PGADDR_def PDX_def PTX_def PGOFF_def PDXSHIFT_def PTXSHIFT_def mask_10 mask_12
proof (rule bit_eqI)
  fix n
  assume "possible_bit TYPE(u32) n"
  then have "n < 32" by simp
  consider "n < 12" | "12 \<le> n" "n < 22" | "22 \<le> n" by linarith
  then show "bit (push_bit 22 (of_nat (unat (drop_bit 22 la AND mask 10))) OR
      push_bit 12 (of_nat (unat (drop_bit 12 la AND mask 10))) OR la AND mask 12) n = bit la n"
    using \<open>n < 32\<close> by cases (auto simp: bit_simps)
qed

end
