(* ===== verification/Spinlock.thy ===== *)
theory Spinlock
  imports Layout
begin

text \<open>
  \<^verbatim>\<open>kernel/spinlock.c\<close> with \<^verbatim>\<open>DEBUG_SPINLOCK\<close> defined, as \<^verbatim>\<open>kernel/spinlock.h\<close> has it. The first half
  models the three operations as one processor executes them. The second half is the
  interleaving model: every read, write and \<^verbatim>\<open>xchg\<close> of the lock is a step of its own, any
  processor may move at any time, and the lock word, the recorded owner and the debugging
  checks are shown to stay consistent in every reachable state.
\<close>

section \<open>State\<close>

text \<open>
  The context an operation runs in: the number of the running processor (\<^verbatim>\<open>cpunum()\<close>), its
  frame pointer and the words on its stack, which \<^verbatim>\<open>get_caller_pcs\<close> follows.
\<close>

record kctx =
  cur_cpu :: nat
  ebp :: u32
  stack_word :: "u32 \<Rightarrow> u32"

record spinlock =
  locked :: u32
  lk_name :: string
  lk_cpu :: "nat option"
  pcs :: "u32 list"

section \<open>Operations\<close>

text \<open>
  \<^verbatim>\<open>get_caller_pcs\<close>: at most ten frames; the loop stops at a frame pointer below \<^verbatim>\<open>ULIM\<close>
  (a null pointer is below it too) and the rest of the array is cleared.
\<close>

fun caller_pcs_loop :: "(u32 \<Rightarrow> u32) \<Rightarrow> u32 \<Rightarrow> nat \<Rightarrow> u32 list" where
  "caller_pcs_loop w bp 0 = []"
| "caller_pcs_loop w bp (Suc n) =
     (if bp = 0 \<or> bp < ULIM then []
      else w (bp + 4) # caller_pcs_loop w (w bp) n)"

definition get_caller_pcs :: "'a kctx_scheme \<Rightarrow> u32 list" where
  "get_caller_pcs c =
     (let ps = caller_pcs_loop (stack_word c) (ebp c) 10
      in ps @ replicate (10 - length ps) 0)"

text \<open>
  \<^verbatim>\<open>thiscpu\<close> is named by the processor's number. Before the local interrupt controller is mapped \<^verbatim>\<open>cpunum\<close> gives 0; then only the
  first processor runs, and no lock is held across that moment.
\<close>

definition holding :: "'a kctx_scheme \<Rightarrow> spinlock \<Rightarrow> bool" where
  "holding c lk \<longleftrightarrow> locked lk \<noteq> 0 \<and> lk_cpu lk = Some (cur_cpu c)"

definition spin_initlock :: "string \<Rightarrow> spinlock \<Rightarrow> spinlock" where
  "spin_initlock name lk = lk\<lparr>locked := 0, lk_name := name, lk_cpu := None\<rparr>"

text \<open>
  \<^verbatim>\<open>xchg\<close> returns the old word and stores the new one. A processor that finds the lock taken by
  another spins; on its own it never leaves that loop.
\<close>

definition xchg :: "u32 \<Rightarrow> spinlock \<Rightarrow> u32 \<times> spinlock" where
  "xchg v lk = (locked lk, lk\<lparr>locked := v\<rparr>)"

definition spin_lock :: "'a kctx_scheme \<Rightarrow> spinlock \<Rightarrow> kfault + spinlock" where
  "spin_lock c lk =
     (if holding c lk then Inl (Panic ''cannot acquire: already holding'')
      else case xchg 1 lk of (old, lk1) \<Rightarrow>
        if old \<noteq> 0 then Inl SpinForever
        else Inr (lk1\<lparr>lk_cpu := Some (cur_cpu c), pcs := get_caller_pcs c\<rparr>))"

text \<open>
  The release of a lock that is not held prints the processor that holds it before it panics,
  through \<^verbatim>\<open>lk->cpu\<close>, which is null when nobody does.
\<close>

definition spin_unlock :: "'a kctx_scheme \<Rightarrow> spinlock \<Rightarrow> kfault + spinlock" where
  "spin_unlock c lk =
     (if \<not> holding c lk then
        (case lk_cpu lk of None \<Rightarrow> Inl NullDeref | Some _ \<Rightarrow> Inl (Panic ''spin_unlock''))
      else case xchg 0 (lk\<lparr>pcs := (pcs lk)[0 := 0], lk_cpu := None\<rparr>) of (_, lk1) \<Rightarrow> Inr lk1)"

definition lock_free :: "spinlock \<Rightarrow> bool" where
  "lock_free lk \<longleftrightarrow> locked lk = 0 \<and> lk_cpu lk = None"

section \<open>The lock as one processor sees it\<close>

lemma get_caller_pcs_length: "length (get_caller_pcs c) = 10"
proof -
  have "length (caller_pcs_loop w bp n) \<le> n" for w bp n
    by (induction w bp n rule: caller_pcs_loop.induct) auto
  then show ?thesis by (simp add: get_caller_pcs_def Let_def)
qed

lemma spin_initlock_free [simp]: "lock_free (spin_initlock name lk)"
  by (simp add: lock_free_def spin_initlock_def)

lemma spin_lock_free:
  "lock_free lk \<Longrightarrow>
   spin_lock c lk = Inr (lk\<lparr>locked := 1, lk_cpu := Some (cur_cpu c), pcs := get_caller_pcs c\<rparr>)"
  by (simp add: lock_free_def spin_lock_def holding_def xchg_def)

lemma spin_lock_Inr_iff: "(\<exists>lk'. spin_lock c lk = Inr lk') \<longleftrightarrow> locked lk = 0"
  by (auto simp: spin_lock_def holding_def xchg_def)

lemma spin_lock_holding: "spin_lock c lk = Inr lk' \<Longrightarrow> holding c lk'"
  by (auto simp: spin_lock_def holding_def xchg_def split: if_splits)

lemma spin_unlock_holding:
  "holding c lk \<Longrightarrow> \<exists>lk'. spin_unlock c lk = Inr lk' \<and> lock_free lk'"
  by (auto simp: spin_unlock_def xchg_def lock_free_def)

lemma spin_lock_again: "holding c lk \<Longrightarrow> spin_lock c lk = Inl (Panic ''cannot acquire: already holding'')"
  by (simp add: spin_lock_def)

section \<open>Locks inside a larger state\<close>

text \<open>
  The kernel's locks are global variables. \<open>acquire\<close> and \<open>release\<close> run \<open>spin_lock\<close> and
  \<open>spin_unlock\<close> on the field of a state that a selector and an update function name.
\<close>

definition acquire ::
  "('a kctx_scheme \<Rightarrow> spinlock) \<Rightarrow> ((spinlock \<Rightarrow> spinlock) \<Rightarrow> 'a kctx_scheme \<Rightarrow> 'a kctx_scheme) \<Rightarrow>
   ('a kctx_scheme, unit) kfun" where
  "acquire get upd = (\<lambda>s. case spin_lock s (get s) of
     Inl e \<Rightarrow> Inl e | Inr lk \<Rightarrow> Inr ((), upd (\<lambda>_. lk) s))"

definition release ::
  "('a kctx_scheme \<Rightarrow> spinlock) \<Rightarrow> ((spinlock \<Rightarrow> spinlock) \<Rightarrow> 'a kctx_scheme \<Rightarrow> 'a kctx_scheme) \<Rightarrow>
   ('a kctx_scheme, unit) kfun" where
  "release get upd = (\<lambda>s. case spin_unlock s (get s) of
     Inl e \<Rightarrow> Inl e | Inr lk \<Rightarrow> Inr ((), upd (\<lambda>_. lk) s))"

text \<open>
  The interface a client of a lock relies on: writing the lock changes neither the running
  processor nor anything the selector does not see. From it follows the discipline of a
  critical section: taken from a free lock it is entered, and a body that leaves the lock alone
  can be left again with the lock free.
\<close>

locale lock_field =
  fixes get :: "'a kctx_scheme \<Rightarrow> spinlock"
    and upd :: "(spinlock \<Rightarrow> spinlock) \<Rightarrow> 'a kctx_scheme \<Rightarrow> 'a kctx_scheme"
  assumes get_upd: "get (upd f s) = f (get s)"
    and cpu_upd: "cur_cpu (upd f s) = cur_cpu s"
begin

lemma acquire_free:
  assumes "lock_free (get s)"
  shows "\<exists>lk. acquire get upd s = Inr ((), upd (\<lambda>_. lk) s) \<and> holding s lk"
proof -
  from assms obtain lk where lk: "spin_lock s (get s) = Inr lk"
    using spin_lock_free by blast
  then have "holding s lk" by (rule spin_lock_holding)
  with lk show ?thesis by (auto simp: acquire_def)
qed

lemma acquire_holds:
  assumes "acquire get upd s = Inr ((), s')"
  shows "holding s' (get s')"
  using assms spin_lock_holding [of s "get s"]
  by (auto simp: acquire_def holding_def get_upd cpu_upd split: sum.splits)

lemma release_held:
  assumes "holding s (get s)"
  shows "\<exists>lk. release get upd s = Inr ((), upd (\<lambda>_. lk) s) \<and> lock_free lk"
  using spin_unlock_holding [OF assms] by (auto simp: release_def)

lemma critical_section:
  assumes free: "lock_free (get s)"
    and body: "\<And>lk. holding s lk \<Longrightarrow>
      \<exists>x s'. body (upd (\<lambda>_. lk) s) = Inr (x, s') \<and> get s' = lk \<and> cur_cpu s' = cur_cpu s \<and> P x s'"
  shows "\<exists>x s' lk. kbind (acquire get upd) (\<lambda>_. kbind body
      (\<lambda>x. kbind (release get upd) (\<lambda>_. kreturn x))) s = Inr (x, upd (\<lambda>_. lk) s')
      \<and> lock_free lk \<and> P x s'"
proof -
  from acquire_free [OF free] obtain lk
    where acq: "acquire get upd s = Inr ((), upd (\<lambda>_. lk) s)" and held: "holding s lk" by blast
  from body [OF held] obtain x s' where s': "body (upd (\<lambda>_. lk) s) = Inr (x, s')"
    "get s' = lk" "cur_cpu s' = cur_cpu s" "P x s'" by blast
  from held s' have "holding s' (get s')" by (simp add: holding_def)
  from release_held [OF this] obtain lk' where
    "release get upd s' = Inr ((), upd (\<lambda>_. lk') s')" "lock_free lk'" by blast
  with acq s' show ?thesis by (auto simp: kbind_def)
qed

end

section \<open>Interleavings\<close>

text \<open>
  Where a processor is in its use of the lock. \<open>AcqLocked\<close> and \<open>AcqCpu\<close> are the two reads of
  \<^verbatim>\<open>holding\<close> in \<^verbatim>\<open>spin_lock\<close> (the second happens only when the first found the lock taken),
  \<open>AcqXchg\<close> the atomic exchange it spins on, \<open>SetCpu\<close> and \<open>SetPcs\<close> the two writes after it;
  \<open>RelLocked\<close> and \<open>RelCpu\<close> are the reads of \<^verbatim>\<open>holding\<close> in \<^verbatim>\<open>spin_unlock\<close>, followed by its three
  writes. A failed check ends in \<open>Panicked\<close>.
\<close>

datatype lpc =
    Outside | AcqLocked | AcqCpu | AcqXchg | SetCpu | SetPcs | Critical
  | RelLocked | RelCpu | ClearPcs | ClearCpu | RelXchg | Panicked

record lsys =
  lk :: spinlock
  pc :: "nat \<Rightarrow> lpc"

definition goto :: "nat \<Rightarrow> lpc \<Rightarrow> lsys \<Rightarrow> lsys" where
  "goto i l s = s\<lparr>pc := (pc s)(i := l)\<rparr>"

inductive lock_step :: "lsys \<Rightarrow> lsys \<Rightarrow> bool" where
  enter: "pc s i = Outside \<Longrightarrow> lock_step s (goto i AcqLocked s)"
| acq_locked: "pc s i = AcqLocked \<Longrightarrow>
     lock_step s (goto i (if locked (lk s) \<noteq> 0 then AcqCpu else AcqXchg) s)"
| acq_cpu: "pc s i = AcqCpu \<Longrightarrow>
     lock_step s (goto i (if lk_cpu (lk s) = Some i then Panicked else AcqXchg) s)"
| acq_xchg: "pc s i = AcqXchg \<Longrightarrow> xchg 1 (lk s) = (old, l) \<Longrightarrow>
     lock_step s (goto i (if old \<noteq> 0 then AcqXchg else SetCpu) (s\<lparr>lk := l\<rparr>))"
| set_cpu: "pc s i = SetCpu \<Longrightarrow>
     lock_step s (goto i SetPcs (s\<lparr>lk := (lk s)\<lparr>lk_cpu := Some i\<rparr>\<rparr>))"
| set_pcs: "pc s i = SetPcs \<Longrightarrow>
     lock_step s (goto i Critical (s\<lparr>lk := (lk s)\<lparr>pcs := ps\<rparr>\<rparr>))"
| leave: "pc s i = Critical \<Longrightarrow> lock_step s (goto i RelLocked s)"
| rel_locked: "pc s i = RelLocked \<Longrightarrow>
     lock_step s (goto i (if locked (lk s) \<noteq> 0 then RelCpu else Panicked) s)"
| rel_cpu: "pc s i = RelCpu \<Longrightarrow>
     lock_step s (goto i (if lk_cpu (lk s) = Some i then ClearPcs else Panicked) s)"
| clear_pcs: "pc s i = ClearPcs \<Longrightarrow>
     lock_step s (goto i ClearCpu (s\<lparr>lk := (lk s)\<lparr>pcs := (pcs (lk s))[0 := 0]\<rparr>\<rparr>))"
| clear_cpu: "pc s i = ClearCpu \<Longrightarrow>
     lock_step s (goto i RelXchg (s\<lparr>lk := (lk s)\<lparr>lk_cpu := None\<rparr>\<rparr>))"
| rel_xchg: "pc s i = RelXchg \<Longrightarrow> xchg 0 (lk s) = (old, l) \<Longrightarrow>
     lock_step s (goto i Outside (s\<lparr>lk := l\<rparr>))"

inductive lock_reachable :: "lsys \<Rightarrow> bool" where
  start: "lock_free (lk s) \<Longrightarrow> (\<forall>i. pc s i = Outside) \<Longrightarrow> lock_reachable s"
| step: "lock_reachable s \<Longrightarrow> lock_step s t \<Longrightarrow> lock_reachable t"

definition inside :: "lpc \<Rightarrow> bool" where
  "inside l \<longleftrightarrow> l \<in> {SetCpu, SetPcs, Critical, RelLocked, RelCpu, ClearPcs, ClearCpu, RelXchg}"

definition recorded :: "lpc \<Rightarrow> bool" where
  "recorded l \<longleftrightarrow> l \<in> {SetPcs, Critical, RelLocked, RelCpu, ClearPcs, ClearCpu}"

definition lock_inv :: "lsys \<Rightarrow> bool" where
  "lock_inv s \<longleftrightarrow>
     (\<forall>i j. inside (pc s i) \<longrightarrow> inside (pc s j) \<longrightarrow> i = j) \<and>
     (locked (lk s) \<noteq> 0 \<longleftrightarrow> (\<exists>i. inside (pc s i))) \<and>
     (\<forall>i. lk_cpu (lk s) = Some i \<longleftrightarrow> recorded (pc s i)) \<and>
     (\<forall>i. pc s i \<noteq> Panicked)"

text \<open>The abstract lock: nobody or one processor owns it.\<close>

inductive spec_step :: "nat option \<Rightarrow> nat option \<Rightarrow> bool" where
  spec_acquire: "spec_step None (Some i)"
| spec_release: "spec_step (Some i) None"
| spec_stutter: "spec_step h h"

definition owner_rel :: "lsys \<Rightarrow> nat option \<Rightarrow> bool" where
  "owner_rel s h \<longleftrightarrow> lock_inv s \<and> (\<forall>i. inside (pc s i) \<longleftrightarrow> h = Some i)"

lemmas lpc_sets = inside_def recorded_def

lemma recorded_inside: "recorded l \<Longrightarrow> inside l"
  by (auto simp: lpc_sets)

lemma lock_inv_start:
  "lock_free (lk s) \<Longrightarrow> (\<forall>i. pc s i = Outside) \<Longrightarrow> lock_inv s"
  by (simp add: lock_inv_def lpc_sets lock_free_def)

lemma lock_inv_move:
  assumes inv: "lock_inv s" and "inside l = inside (pc s i)" "recorded l = recorded (pc s i)"
    and "l \<noteq> Panicked" and "locked k = 0 \<longleftrightarrow> locked (lk s) = 0" "lk_cpu k = lk_cpu (lk s)"
  shows "lock_inv (goto i l (s\<lparr>lk := k\<rparr>))"
proof -
  have "inside (pc (goto i l (s\<lparr>lk := k\<rparr>)) j) = inside (pc s j)"
    "recorded (pc (goto i l (s\<lparr>lk := k\<rparr>)) j) = recorded (pc s j)" for j
    using assms by (auto simp: goto_def)
  with assms show ?thesis by (simp add: lock_inv_def) (simp add: goto_def)
qed

lemma lock_inv_move_pc:
  assumes "lock_inv s" and "inside l = inside (pc s i)" "recorded l = recorded (pc s i)"
    and "l \<noteq> Panicked"
  shows "lock_inv (goto i l s)"
  using lock_inv_move [OF assms, of "lk s"] by simp

lemma lock_inv_take:
  assumes "lock_inv s" and "\<not> inside (pc s i)" and "locked (lk s) = 0" and "inside l"
    and "\<not> recorded l" and "l \<noteq> Panicked"
  shows "lock_inv (goto i l (s\<lparr>lk := (lk s)\<lparr>locked := 1\<rparr>\<rparr>))"
proof -
  from assms have none: "\<not> inside (pc s j)" for j by (simp add: lock_inv_def)
  then have "\<not> recorded (pc s j)" for j using recorded_inside by blast
  with none assms show ?thesis by (auto simp: lock_inv_def goto_def)
qed

lemma lock_inv_record:
  assumes "lock_inv s" and "inside (pc s i)" and "inside l" and "recorded l" and "l \<noteq> Panicked"
  shows "lock_inv (goto i l (s\<lparr>lk := (lk s)\<lparr>lk_cpu := Some i\<rparr>\<rparr>))"
proof -
  from assms have "\<not> inside (pc s j)" if "j \<noteq> i" for j using that by (auto simp: lock_inv_def)
  moreover then have "\<not> recorded (pc s j)" if "j \<noteq> i" for j using that recorded_inside by blast
  ultimately show ?thesis using assms by (auto simp: lock_inv_def goto_def)
qed

lemma lock_inv_clear:
  assumes "lock_inv s" and "inside (pc s i)" and "inside l" and "\<not> recorded l" and "l \<noteq> Panicked"
  shows "lock_inv (goto i l (s\<lparr>lk := (lk s)\<lparr>lk_cpu := None\<rparr>\<rparr>))"
proof -
  from assms have "\<not> inside (pc s j)" if "j \<noteq> i" for j using that by (auto simp: lock_inv_def)
  moreover then have "\<not> recorded (pc s j)" if "j \<noteq> i" for j using that recorded_inside by blast
  ultimately show ?thesis using assms by (auto simp: lock_inv_def goto_def)
qed

lemma lock_inv_drop:
  assumes "lock_inv s" and "inside (pc s i)" and "\<not> recorded (pc s i)" and "\<not> inside l"
    and "l \<noteq> Panicked"
  shows "lock_inv (goto i l (s\<lparr>lk := (lk s)\<lparr>locked := 0\<rparr>\<rparr>))"
proof -
  from assms have other: "\<not> inside (pc s j)" if "j \<noteq> i" for j using that by (auto simp: lock_inv_def)
  moreover from assms other have "\<not> recorded (pc s j)" for j using recorded_inside by (cases "j = i") auto
  moreover from assms have "\<not> recorded l" using recorded_inside by blast
  ultimately show ?thesis using assms by (auto simp: lock_inv_def goto_def)
qed

lemma lock_inv_locked: "lock_inv s \<Longrightarrow> inside (pc s i) \<Longrightarrow> locked (lk s) \<noteq> 0"
  unfolding lock_inv_def by blast

lemma lock_inv_cpu: "lock_inv s \<Longrightarrow> lk_cpu (lk s) = Some i \<longleftrightarrow> recorded (pc s i)"
  unfolding lock_inv_def by blast

lemma lock_step_inv: "lock_step s t \<Longrightarrow> lock_inv s \<Longrightarrow> lock_inv t"
proof (induction rule: lock_step.induct)
  case (acq_cpu s i)
  then have "lk_cpu (lk s) \<noteq> Some i" by (simp add: lock_inv_cpu lpc_sets)
  with acq_cpu show ?case by (auto intro!: lock_inv_move_pc simp: lpc_sets)
next
  case (acq_xchg s i old l)
  then have l: "l = (lk s)\<lparr>locked := 1\<rparr>" "old = locked (lk s)" by (simp_all add: xchg_def)
  show ?case
  proof (cases "old = 0")
    case True
    with acq_xchg l have "lock_inv (goto i SetCpu (s\<lparr>lk := l\<rparr>))"
      by (simp add: lock_inv_take lpc_sets)
    with True show ?thesis by simp
  next
    case False
    with acq_xchg l have "lock_inv (goto i AcqXchg (s\<lparr>lk := l\<rparr>))"
      by (intro lock_inv_move) simp_all
    with False show ?thesis by simp
  qed
next
  case (rel_locked s i)
  then have "locked (lk s) \<noteq> 0" by (simp add: lock_inv_locked [of _ i] lpc_sets)
  with rel_locked show ?case by (auto intro!: lock_inv_move_pc simp: lpc_sets)
next
  case (rel_cpu s i)
  then have "lk_cpu (lk s) = Some i" by (simp add: lock_inv_cpu lpc_sets)
  with rel_cpu show ?case by (auto intro!: lock_inv_move_pc simp: lpc_sets)
next
  case (rel_xchg s i old l)
  then have l: "l = (lk s)\<lparr>locked := 0\<rparr>" by (simp add: xchg_def)
  with rel_xchg show ?case by (simp add: lock_inv_drop lpc_sets)
next
  case (set_cpu s i)
  then show ?case by (simp add: lock_inv_record lpc_sets)
next
  case (clear_cpu s i)
  then show ?case by (simp add: lock_inv_clear lpc_sets)
next
  case (set_pcs s i ps)
  then show ?case by (intro lock_inv_move) (simp_all add: lpc_sets)
next
  case (clear_pcs s i)
  then show ?case by (intro lock_inv_move) (simp_all add: lpc_sets)
qed (auto intro!: lock_inv_move_pc simp: lpc_sets)

text \<open>Every step of the interleaved code is a step of the abstract lock.\<close>

lemma owner_rel_exists: "lock_inv s \<Longrightarrow> \<exists>h. owner_rel s h"
proof -
  assume inv: "lock_inv s"
  show ?thesis
  proof (cases "\<exists>i. inside (pc s i)")
    case True
    then obtain i where "inside (pc s i)" ..
    with inv have "owner_rel s (Some i)" by (auto simp: owner_rel_def lock_inv_def)
    then show ?thesis ..
  next
    case False
    with inv have "owner_rel s None" by (auto simp: owner_rel_def)
    then show ?thesis ..
  qed
qed

lemma lock_step_one_cpu:
  "lock_step s t \<Longrightarrow> \<exists>i. \<forall>j. j \<noteq> i \<longrightarrow> pc t j = pc s j"
  by (erule lock_step.cases) (auto simp: goto_def)

lemma lock_step_simulation:
  assumes "lock_step s t" and "owner_rel s h"
  shows "\<exists>h'. owner_rel t h' \<and> spec_step h h'"
proof -
  from assms have inv: "lock_inv s" "lock_inv t"
    by (auto simp: owner_rel_def intro: lock_step_inv)
  from owner_rel_exists [OF inv(2)] obtain h' where h': "owner_rel t h'" ..
  from lock_step_one_cpu [OF assms(1)] obtain i where same: "\<forall>j. j \<noteq> i \<longrightarrow> pc t j = pc s j" ..
  have agree: "(h' = Some j) = (h = Some j)" if "j \<noteq> i" for j
    using same that assms(2) h' by (simp add: owner_rel_def) metis
  have "spec_step h h'"
  proof (cases h)
    case None
    with agree have "h' = None \<or> h' = Some i" by (cases h') auto
    with None show ?thesis by (auto intro: spec_step.intros)
  next
    case (Some k)
    with agree have "h' = h \<or> h' = None"
      by (cases h') (auto, metis option.inject)
    with Some show ?thesis by (auto intro: spec_step.intros)
  qed
  with h' show ?thesis by blast
qed

lemma lock_reachable_inv: "lock_reachable s \<Longrightarrow> lock_inv s"
  by (induction rule: lock_reachable.induct) (auto intro: lock_inv_start lock_step_inv)

section \<open>Properties\<close>

text \<open>
  C4. In every state that some interleaving of processors reaches, at most one processor is
  between its successful \<^verbatim>\<open>xchg\<close> in \<^verbatim>\<open>spin_lock\<close> and its \<^verbatim>\<open>xchg\<close> in \<^verbatim>\<open>spin_unlock\<close> (\<open>inside\<close>: the writes of
  \<^verbatim>\<open>spin_lock\<close>, the critical section, the checks and writes of \<^verbatim>\<open>spin_unlock\<close>), and the lock word is set exactly when
  there is one. A processor is the recorded owner exactly from its write of \<^verbatim>\<open>lk->cpu\<close> to the one that clears it
  (\<open>recorded\<close>), the whole critical section included, and none of the debugging checks (\<^verbatim>\<open>already holding\<close>,
  \<^verbatim>\<open>cannot release\<close>) has fired.
\<close>

theorem spinlock_mutual_exclusion:
  assumes "lock_reachable s"
  shows "(inside (pc s i) \<and> inside (pc s j) \<longrightarrow> i = j) \<and> (locked (lk s) \<noteq> 0 \<longleftrightarrow> (\<exists>k. inside (pc s k))) \<and>
    (lk_cpu (lk s) = Some i \<longleftrightarrow> recorded (pc s i)) \<and> pc s i \<noteq> Panicked"
  using lock_reachable_inv [OF assms] by (simp add: lock_inv_def)

definition idle_lsys :: lsys where
  "idle_lsys = \<lparr>lk = \<lparr>locked = 0, lk_name = ''l'', lk_cpu = None, pcs = replicate 10 0\<rparr>,
     pc = (\<lambda>_. Outside)\<rparr>"

text \<open>
  Processor 0 is about to take the free lock, and has just taken it; then it is in its critical section while
  processor 1 starts to wait for it.
\<close>

definition trying_lsys :: lsys where
  "trying_lsys = goto 0 AcqXchg (goto 0 AcqLocked idle_lsys)"

definition taken_lsys :: lsys where
  "taken_lsys = goto 0 SetCpu (trying_lsys\<lparr>lk := (lk trying_lsys)\<lparr>locked := 1\<rparr>\<rparr>)"

lemmas demo_lsys = goto_def idle_lsys_def trying_lsys_def taken_lsys_def

lemma trying_reachable: "lock_reachable trying_lsys"
proof -
  have s0: "lock_reachable idle_lsys"
    by (rule lock_reachable.start) (simp_all add: idle_lsys_def lock_free_def)
  have s1: "lock_reachable (goto 0 AcqLocked idle_lsys)"
    by (rule lock_reachable.step [OF s0 lock_step.enter]) (simp add: idle_lsys_def)
  show ?thesis
    using lock_reachable.step [OF s1 lock_step.acq_locked [of "goto 0 AcqLocked idle_lsys" 0]] by (simp add: demo_lsys)
qed

lemma trying_step: "lock_step trying_lsys taken_lsys"
  using lock_step.acq_xchg [of trying_lsys 0] by (simp add: demo_lsys xchg_def)

lemma contended_reachable:
  "\<exists>s. lock_reachable s \<and> pc s 0 = Critical \<and> pc s 1 = AcqCpu"
proof -
  let ?s4 = "goto 0 SetPcs (taken_lsys\<lparr>lk := (lk taken_lsys)\<lparr>lk_cpu := Some 0\<rparr>\<rparr>)"
  let ?s5 = "goto 0 Critical (?s4\<lparr>lk := (lk ?s4)\<lparr>pcs := []\<rparr>\<rparr>)"
  let ?s6 = "goto 1 AcqLocked ?s5"
  let ?s7 = "goto 1 AcqCpu ?s6"
  have s3: "lock_reachable taken_lsys" by (rule lock_reachable.step [OF trying_reachable trying_step])
  have s4: "lock_reachable ?s4"
    by (rule lock_reachable.step [OF s3 lock_step.set_cpu]) (simp add: demo_lsys)
  have s5: "lock_reachable ?s5"
    by (rule lock_reachable.step [OF s4 lock_step.set_pcs]) (simp add: demo_lsys)
  have s6: "lock_reachable ?s6"
    by (rule lock_reachable.step [OF s5 lock_step.enter]) (simp add: demo_lsys)
  have s7: "lock_reachable ?s7"
    using lock_reachable.step [OF s6 lock_step.acq_locked [of ?s6 1]] by (simp add: demo_lsys)
  show ?thesis
    by (rule exI [of _ ?s7], rule conjI, rule s7) (simp add: demo_lsys)
qed

theorem spinlock_mutual_exclusion_witness:
  "\<exists>s. lock_reachable s \<and> pc s 0 = Critical \<and> pc s 1 = AcqCpu \<and> (\<forall>j. inside (pc s j) \<longrightarrow> j = 0) \<and> lk_cpu (lk s) = Some 0"
proof -
  obtain s where s: "lock_reachable s" "pc s 0 = Critical" "pc s 1 = AcqCpu"
    using contended_reachable by blast
  have in0: "inside (pc s 0)" "recorded (pc s 0)" using s(2) by (simp_all add: lpc_sets)
  have "\<forall>j. inside (pc s j) \<longrightarrow> j = 0" using spinlock_mutual_exclusion [OF s(1), of _ 0] in0(1) by blast
  moreover have "lk_cpu (lk s) = Some 0" using spinlock_mutual_exclusion [OF s(1), of 0] in0(2) by blast
  ultimately show ?thesis using s by blast
qed

text \<open>
  C25. The interleaved lock implements the abstract lock with an optional owner: from a related
  pair of states, every step of every processor is matched by an acquisition of the free
  abstract lock, a release by its owner, or no change.
\<close>

theorem spinlock_refines_abstract_lock:
  assumes "lock_step s t" and "owner_rel s h"
  shows "\<exists>h'. owner_rel t h' \<and> spec_step h h'"
  using assms by (rule lock_step_simulation)

theorem spinlock_refines_abstract_lock_witness:
  "owner_rel taken_lsys (Some 0) \<and> spec_step None (Some 0)"
proof -
  have "owner_rel trying_lsys None"
    using lock_reachable_inv [OF trying_reachable] by (simp add: owner_rel_def) (simp add: demo_lsys lpc_sets)
  then obtain h where h: "owner_rel taken_lsys h" "spec_step None h"
    using spinlock_refines_abstract_lock [OF trying_step] by blast
  moreover have "inside (pc taken_lsys 0)" by (simp add: demo_lsys lpc_sets)
  ultimately show ?thesis by (simp add: owner_rel_def)
qed

end
