(* ===== verification/Ports.thy ===== *)
theory Ports
  imports Spinlock
begin

text \<open>
  Port output and the devices the kernel only writes to: the interrupt controllers
  (\<^verbatim>\<open>kernel/picirq.c\<close>), the interval timer (\<^verbatim>\<open>set_timer\<close> of \<^verbatim>\<open>kernel/timer.c\<close>) and the real-time
  clock's memory (\<^verbatim>\<open>kernel/kclock.c\<close>). The state records the sequence of port writes; a device
  that is read is a parameter (the clock's memory is a function from registers to bytes).
\<close>

record kio = kctx +
  port_log :: "(nat \<times> u8) list"
  irq_mask_8259A :: u16
  didinit :: bool

definition outb :: "nat \<Rightarrow> u8 \<Rightarrow> ('a kio_scheme, unit) kfun" where
  "outb port data = kmodify (\<lambda>s. s\<lparr>port_log := port_log s @ [(port, data)]\<rparr>)"

definition outb_seq :: "(nat \<times> u8) list \<Rightarrow> ('a kio_scheme, unit) kfun" where
  "outb_seq ws = kfor ws (\<lambda>(port, data). outb port data)"

section \<open>Real-time clock memory\<close>

definition IO_RTC :: nat where "IO_RTC = 0x70"

definition mc146818_read :: "(nat \<Rightarrow> u8) \<Rightarrow> nat \<Rightarrow> ('a kio_scheme, u32) kfun" where
  "mc146818_read cmos r = kbind (outb IO_RTC (of_nat r)) (\<lambda>_. kreturn (ucast (cmos r)))"

definition mc146818_write :: "nat \<Rightarrow> u32 \<Rightarrow> ('a kio_scheme, unit) kfun" where
  "mc146818_write r datum = kbind (outb IO_RTC (of_nat r)) (\<lambda>_. outb (IO_RTC + 1) (ucast datum))"

section \<open>Interrupt controllers\<close>

definition IO_PIC1 :: nat where "IO_PIC1 = 0x20"
definition IO_PIC2 :: nat where "IO_PIC2 = 0xA0"
definition IRQ_SLAVE :: nat where "IRQ_SLAVE = 2"
definition IRQ_OFFSET :: nat where "IRQ_OFFSET = 32"
definition IRQ_TIMER :: nat where "IRQ_TIMER = 0"
definition IRQ_KBD :: nat where "IRQ_KBD = 1"
definition IRQ_SPURIOUS :: nat where "IRQ_SPURIOUS = 7"
definition IRQ_ERROR :: nat where "IRQ_ERROR = 19"

definition irq_setmask_8259A :: "u16 \<Rightarrow> ('a kio_scheme, unit) kfun" where
  "irq_setmask_8259A m =
     kbind (kmodify (\<lambda>s. s\<lparr>irq_mask_8259A := m\<rparr>)) (\<lambda>_.
     kbind (kgets didinit) (\<lambda>d.
     if \<not> d then kreturn ()
     else kbind (outb (IO_PIC1 + 1) (ucast m)) (\<lambda>_. outb (IO_PIC2 + 1) (ucast (drop_bit 8 m)))))"

definition pic_init :: "('a kio_scheme, unit) kfun" where
  "pic_init =
     kbind (kmodify (\<lambda>s. s\<lparr>didinit := True\<rparr>)) (\<lambda>_.
     kbind (outb_seq
       [(IO_PIC1 + 1, 0xFF), (IO_PIC2 + 1, 0xFF),
        (IO_PIC1, 0x11), (IO_PIC1 + 1, of_nat IRQ_OFFSET), (IO_PIC1 + 1, push_bit IRQ_SLAVE 1),
        (IO_PIC1 + 1, 0x3),
        (IO_PIC2, 0x11), (IO_PIC2 + 1, of_nat IRQ_OFFSET + 8), (IO_PIC2 + 1, of_nat IRQ_SLAVE),
        (IO_PIC2 + 1, 0x01),
        (IO_PIC1, 0x68), (IO_PIC1, 0x0a), (IO_PIC2, 0x68), (IO_PIC2, 0x0a)]) (\<lambda>_.
     kbind (kgets irq_mask_8259A) (\<lambda>m.
     kwhen (m \<noteq> 0xFFFF) (irq_setmask_8259A m))))"

text \<open>Enabling one line, as \<^verbatim>\<open>kbd_init\<close> and \<^verbatim>\<open>timer_init\<close> do.\<close>

definition irq_enable :: "nat \<Rightarrow> ('a kio_scheme, unit) kfun" where
  "irq_enable irq =
     kbind (kgets irq_mask_8259A) (\<lambda>m. irq_setmask_8259A (m AND NOT (push_bit irq 1)))"

section \<open>Interval timer\<close>

definition TIME_HZ :: int where "TIME_HZ = 100"

definition timer_divisor :: "int \<Rightarrow> int" where
  "timer_divisor hz = (if 0 < hz then 1193180 div hz else - (1193180 div - hz))"

definition set_timer :: "int \<Rightarrow> ('a kio_scheme, unit) kfun" where
  "set_timer hz =
     (if hz = 0 then kfail DivideError
      else outb_seq [(0x43, 0x36), (0x40, of_int (timer_divisor hz AND 0xFF)),
                     (0x40, of_int (drop_bit 8 (timer_divisor hz)))])"

section \<open>Lemmas\<close>

lemma outb_apply [simp]: "outb p d s = Inr ((), s\<lparr>port_log := port_log s @ [(p, d)]\<rparr>)"
  by (simp add: outb_def)

lemma outb_seq_apply [simp]: "outb_seq ws s = Inr ((), s\<lparr>port_log := port_log s @ ws\<rparr>)"
  by (induction ws arbitrary: s) (auto simp: outb_seq_def kbind_apply)

text \<open>The last byte written to a port.\<close>

definition last_out :: "nat \<Rightarrow> 'a kio_scheme \<Rightarrow> u8 option" where
  "last_out p s = map_of (rev (port_log s)) p"

definition pic_synced :: "'a kio_scheme \<Rightarrow> bool" where
  "pic_synced s \<longleftrightarrow> didinit s \<longrightarrow>
     last_out (IO_PIC1 + 1) s = Some (ucast (irq_mask_8259A s)) \<and>
     last_out (IO_PIC2 + 1) s = Some (ucast (drop_bit 8 (irq_mask_8259A s)))"

lemma irq_setmask_synced:
  "\<exists>t. irq_setmask_8259A m s = Inr ((), t) \<and> pic_synced t \<and> irq_mask_8259A t = m \<and>
    didinit t = didinit s"
  by (cases "didinit s")
    (simp_all add: irq_setmask_8259A_def kbind_apply pic_synced_def last_out_def IO_PIC1_def IO_PIC2_def)

lemma pic_init_synced:
  assumes "irq_mask_8259A s \<noteq> 0xFFFF"
  shows "\<exists>t. pic_init s = Inr ((), t) \<and> pic_synced t \<and> didinit t \<and> irq_mask_8259A t = irq_mask_8259A s"
proof -
  let ?u = "s\<lparr>didinit := True, port_log := port_log s @
    [(IO_PIC1 + 1, 0xFF), (IO_PIC2 + 1, 0xFF),
     (IO_PIC1, 0x11), (IO_PIC1 + 1, of_nat IRQ_OFFSET), (IO_PIC1 + 1, push_bit IRQ_SLAVE 1),
     (IO_PIC1 + 1, 0x3),
     (IO_PIC2, 0x11), (IO_PIC2 + 1, of_nat IRQ_OFFSET + 8), (IO_PIC2 + 1, of_nat IRQ_SLAVE),
     (IO_PIC2 + 1, 0x01),
     (IO_PIC1, 0x68), (IO_PIC1, 0x0a), (IO_PIC2, 0x68), (IO_PIC2, 0x0a)]\<rparr>"
  have "pic_init s = irq_setmask_8259A (irq_mask_8259A s) ?u"
    using assms by (simp add: pic_init_def kbind_apply kwhen_apply)
  then show ?thesis using irq_setmask_synced [of "irq_mask_8259A s" ?u] by auto
qed

text \<open>The two bytes sent to the timer are its divisor when that fits in sixteen bits.\<close>

lemma set_timer_divisor:
  assumes "19 \<le> hz" and "hz \<le> 1193180"
  shows "\<exists>lo hi t. set_timer hz s = Inr ((), t) \<and>
    port_log t = port_log s @ [(0x43, 0x36), (0x40, lo), (0x40, hi)] \<and>
    int (unat lo + 256 * unat hi) = 1193180 div hz"
proof -
  let ?d = "1193180 div hz"
  have "?d \<le> 1193180 div 19" using assms by (intro zdiv_mono2) simp_all
  then have d: "0 \<le> ?d" "?d < 65536" using assms by (simp_all add: pos_imp_zdiv_nonneg_iff)
  have byte: "int (unat (of_int x :: u8)) = x mod 256" for x
    by (simp add: unsigned_of_int take_bit_eq_mod)
  have "?d AND 0xFF = ?d mod 256"
    using take_bit_eq_mask [of 8 ?d] by (simp add: take_bit_eq_mod mask_eq_exp_minus_1)
  then have lo: "int (unat (of_int (?d AND 0xFF) :: u8)) = ?d mod 256"
    unfolding byte by simp
  have "drop_bit 8 ?d = ?d div 256" by (simp add: drop_bit_eq_div)
  then have hi: "int (unat (of_int (drop_bit 8 ?d) :: u8)) = ?d div 256"
    unfolding byte using d by (simp add: div_int_pos_iff)
  have sum: "int (unat (of_int (?d AND 0xFF) :: u8) + 256 * unat (of_int (drop_bit 8 ?d) :: u8)) = ?d"
    unfolding of_nat_add of_nat_mult lo hi by simp
  have "set_timer hz s = Inr ((), s\<lparr>port_log := port_log s @ [(0x43, 0x36),
      (0x40, of_int (?d AND 0xFF)), (0x40, of_int (drop_bit 8 ?d))]\<rparr>)"
    using assms by (simp add: set_timer_def timer_divisor_def)
  then show ?thesis using sum by (intro exI conjI) (assumption, simp, assumption)
qed

end
