(* ===== verification/Strings.thy ===== *)
theory Strings
  imports Prelude
begin

text \<open>
  The string library (\<^verbatim>\<open>lib/string.c\<close>), linked into both the kernel and the user programs. Memory is
  a collection of objects: a pointer is the number of an object and an offset into it, and an
  access outside an object is the fault \<open>BadIndex\<close>. \<open>bbase\<close> gives every object its address, which
  \<^verbatim>\<open>memset\<close> and \<^verbatim>\<open>memmove\<close> look at to choose between word and byte instructions and between the two
  directions. Both versions of these two functions are modelled: the one that is compiled
  (\<^verbatim>\<open>ASM\<close> is 1) with its string instructions, and the portable one.
\<close>

section \<open>Byte-addressed objects\<close>

record bmem =
  blk :: "nat \<Rightarrow> u8 list"
  bbase :: "nat \<Rightarrow> u32"

type_synonym ptr = "nat \<times> nat"

definition set_byte :: "nat \<Rightarrow> nat \<Rightarrow> u8 \<Rightarrow> bmem \<Rightarrow> bmem" where
  "set_byte b i v m = m\<lparr>blk := (blk m)(b := (blk m b)[i := v])\<rparr>"

fun load :: "ptr \<Rightarrow> (bmem, u8) kfun" where
  "load (b, i) m = (if i < length (blk m b) then Inr (blk m b ! i, m) else Inl BadIndex)"

fun store :: "ptr \<Rightarrow> u8 \<Rightarrow> (bmem, unit) kfun" where
  "store (b, i) v m = (if i < length (blk m b) then Inr ((), set_byte b i v m) else Inl BadIndex)"

fun padd :: "ptr \<Rightarrow> nat \<Rightarrow> ptr" where
  "padd (b, i) n = (b, i + n)"

fun ptr_addr :: "bmem \<Rightarrow> ptr \<Rightarrow> u32" where
  "ptr_addr m (b, i) = bbase m b + of_nat i"

lemma blk_set_byte: "blk (set_byte b i v m) c = (if c = b then (blk m b)[i := v] else blk m c)"
  by (simp add: set_byte_def)

lemma length_blk_set_byte [simp]: "length (blk (set_byte b i v m) c) = length (blk m c)"
  by (simp add: blk_set_byte)

lemma bbase_set_byte [simp]: "bbase (set_byte b i v m) = bbase m"
  by (simp add: set_byte_def)

section \<open>Strings\<close>

function strlen_loop :: "ptr \<Rightarrow> int \<Rightarrow> (bmem, int) kfun" where
  "strlen_loop (b, i) n m =
     (if i < length (blk m b) then
        if blk m b ! i = 0 then Inr (n, m) else strlen_loop (b, Suc i) (n + 1) m
      else Inl BadIndex)"
  by pat_completeness auto
termination by (relation "measure (\<lambda>((b, i), n, m). length (blk m b) - i)") auto

definition strlen :: "ptr \<Rightarrow> (bmem, int) kfun" where
  "strlen s = strlen_loop s 0"

fun strnlen_loop :: "ptr \<Rightarrow> nat \<Rightarrow> int \<Rightarrow> (bmem, int) kfun" where
  "strnlen_loop p 0 n m = Inr (n, m)"
| "strnlen_loop (b, i) (Suc k) n m =
     (if i < length (blk m b) then
        if blk m b ! i = 0 then Inr (n, m) else strnlen_loop (b, Suc i) k (n + 1) m
      else Inl BadIndex)"

definition strnlen :: "ptr \<Rightarrow> u32 \<Rightarrow> (bmem, int) kfun" where
  "strnlen s sz = strnlen_loop s (unat sz) 0"

function strcpy_loop :: "ptr \<Rightarrow> ptr \<Rightarrow> (bmem, unit) kfun" where
  "strcpy_loop (db, di) (sb, si) m =
     (if si < length (blk m sb) \<and> di < length (blk m db) then
        (let c = blk m sb ! si; m' = set_byte db di c m in
         if c = 0 then Inr ((), m') else strcpy_loop (db, Suc di) (sb, Suc si) m')
      else Inl BadIndex)"
  by pat_completeness auto
termination by (relation "measure (\<lambda>(d, (sb, si), m). length (blk m sb) - si)") auto

definition strcpy :: "ptr \<Rightarrow> ptr \<Rightarrow> (bmem, ptr) kfun" where
  "strcpy dst src = kbind (strcpy_loop dst src) (\<lambda>_. kreturn dst)"

definition strcat :: "ptr \<Rightarrow> ptr \<Rightarrow> (bmem, ptr) kfun" where
  "strcat dst src =
     kbind (strlen dst) (\<lambda>len. kbind (strcpy (padd dst (nat len)) src) (\<lambda>_. kreturn dst))"

fun strncpy_loop :: "nat \<Rightarrow> ptr \<Rightarrow> ptr \<Rightarrow> (bmem, unit) kfun" where
  "strncpy_loop 0 dst src = kreturn ()"
| "strncpy_loop (Suc n) dst src =
     kbind (load src) (\<lambda>c.
     kbind (store dst c) (\<lambda>_.
     kbind (load src) (\<lambda>c.
     strncpy_loop n (padd dst 1) (if c \<noteq> 0 then padd src 1 else src))))"

definition strncpy :: "ptr \<Rightarrow> ptr \<Rightarrow> u32 \<Rightarrow> (bmem, ptr) kfun" where
  "strncpy dst src sz = kbind (strncpy_loop (unat sz) dst src) (\<lambda>_. kreturn dst)"

text \<open>The loop returns the final value of \<^verbatim>\<open>dst\<close>; its first argument is \<^verbatim>\<open>size\<close> after the decrement.\<close>

fun strlcpy_loop :: "nat \<Rightarrow> ptr \<Rightarrow> ptr \<Rightarrow> (bmem, ptr) kfun" where
  "strlcpy_loop 0 dst src = kreturn dst"
| "strlcpy_loop (Suc n) dst src =
     kbind (load src) (\<lambda>c.
     if c = 0 then kreturn dst
     else kbind (store dst c) (\<lambda>_. strlcpy_loop n (padd dst 1) (padd src 1)))"

definition strlcpy :: "ptr \<Rightarrow> ptr \<Rightarrow> u32 \<Rightarrow> (bmem, nat) kfun" where
  "strlcpy dst src sz =
     (if sz = 0 then kreturn 0
      else kbind (strlcpy_loop (unat sz - 1) dst src) (\<lambda>d.
           kbind (store d 0) (\<lambda>_. kreturn (snd d - snd dst))))"

function strcmp :: "ptr \<Rightarrow> ptr \<Rightarrow> (bmem, int) kfun" where
  "strcmp (b, i) (c, j) m =
     (if i < length (blk m b) \<and> j < length (blk m c) then
        (let x = blk m b ! i; y = blk m c ! j in
         if x \<noteq> 0 \<and> x = y then strcmp (b, Suc i) (c, Suc j) m
         else Inr (uint x - uint y, m))
      else Inl BadIndex)"
  by pat_completeness auto
termination by (relation "measure (\<lambda>((b, i), q, m). length (blk m b) - i)") auto

fun strncmp_loop :: "nat \<Rightarrow> ptr \<Rightarrow> ptr \<Rightarrow> (bmem, int) kfun" where
  "strncmp_loop 0 p q = kreturn 0"
| "strncmp_loop (Suc n) p q =
     kbind (load p) (\<lambda>x. kbind (load q) (\<lambda>y.
     if x \<noteq> 0 \<and> x = y then strncmp_loop n (padd p 1) (padd q 1)
     else kreturn (uint x - uint y)))"

definition strncmp :: "ptr \<Rightarrow> ptr \<Rightarrow> u32 \<Rightarrow> (bmem, int) kfun" where
  "strncmp p q n = strncmp_loop (unat n) p q"

function strchr :: "ptr \<Rightarrow> u8 \<Rightarrow> (bmem, ptr option) kfun" where
  "strchr (b, i) c m =
     (if i < length (blk m b) then
        (let x = blk m b ! i in
         if x = 0 then Inr (None, m) else if x = c then Inr (Some (b, i), m)
         else strchr (b, Suc i) c m)
      else Inl BadIndex)"
  by pat_completeness auto
termination by (relation "measure (\<lambda>((b, i), c, m). length (blk m b) - i)") auto

function strfind :: "ptr \<Rightarrow> u8 \<Rightarrow> (bmem, ptr) kfun" where
  "strfind (b, i) c m =
     (if i < length (blk m b) then
        (let x = blk m b ! i in
         if x = 0 \<or> x = c then Inr ((b, i), m) else strfind (b, Suc i) c m)
      else Inl BadIndex)"
  by pat_completeness auto
termination by (relation "measure (\<lambda>((b, i), c, m). length (blk m b) - i)") auto

section \<open>Memory\<close>

definition load32 :: "ptr \<Rightarrow> (bmem, u32) kfun" where
  "load32 p =
     kbind (load p) (\<lambda>b0. kbind (load (padd p 1)) (\<lambda>b1.
     kbind (load (padd p 2)) (\<lambda>b2. kbind (load (padd p 3)) (\<lambda>b3.
     kreturn (ucast b0 OR push_bit 8 (ucast b1) OR push_bit 16 (ucast b2) OR push_bit 24 (ucast b3))))))"

definition store32 :: "ptr \<Rightarrow> u32 \<Rightarrow> (bmem, unit) kfun" where
  "store32 p w =
     kbind (store p (ucast w)) (\<lambda>_. kbind (store (padd p 1) (ucast (drop_bit 8 w))) (\<lambda>_.
     kbind (store (padd p 2) (ucast (drop_bit 16 w))) (\<lambda>_.
     store (padd p 3) (ucast (drop_bit 24 w)))))"

text \<open>The string instructions: \<open>ks\<close> are the counts in the order the direction flag gives.\<close>

definition stosb :: "nat list \<Rightarrow> ptr \<Rightarrow> u8 \<Rightarrow> (bmem, unit) kfun" where
  "stosb ks d v = kfor ks (\<lambda>k. store (padd d k) v)"

definition stosl :: "nat list \<Rightarrow> ptr \<Rightarrow> u32 \<Rightarrow> (bmem, unit) kfun" where
  "stosl ks d v = kfor ks (\<lambda>k. store32 (padd d (4 * k)) v)"

definition movsb :: "nat list \<Rightarrow> ptr \<Rightarrow> ptr \<Rightarrow> (bmem, unit) kfun" where
  "movsb ks d s = kfor ks (\<lambda>k. kbind (load (padd s k)) (store (padd d k)))"

definition movsl :: "nat list \<Rightarrow> ptr \<Rightarrow> ptr \<Rightarrow> (bmem, unit) kfun" where
  "movsl ks d s = kfor ks (\<lambda>k. kbind (load32 (padd s (4 * k))) (store32 (padd d (4 * k))))"

text \<open>The byte of \<^verbatim>\<open>memset\<close> copied into the four bytes of a word.\<close>

definition memset_word :: "u32 \<Rightarrow> u32" where
  "memset_word c = (let b = c AND 0xFF
     in push_bit 24 b OR push_bit 16 b OR push_bit 8 b OR b)"

definition aligned4 :: "u32 \<Rightarrow> bool" where
  "aligned4 x \<longleftrightarrow> unat x mod 4 = 0"

definition memset :: "ptr \<Rightarrow> u32 \<Rightarrow> u32 \<Rightarrow> (bmem, ptr) kfun" where
  "memset v c n = (\<lambda>m.
     if n = 0 then Inr (v, m)
     else if aligned4 (ptr_addr m v) \<and> aligned4 n then
       kbind (stosl [0..<unat n div 4] v (memset_word c)) (\<lambda>_. kreturn v) m
     else kbind (stosb [0..<unat n] v (ucast c)) (\<lambda>_. kreturn v) m)"

definition memmove :: "ptr \<Rightarrow> ptr \<Rightarrow> u32 \<Rightarrow> (bmem, ptr) kfun" where
  "memmove dst src n = (\<lambda>m.
     let s = ptr_addr m src; d = ptr_addr m dst in
     if s < d \<and> s + n > d then
       if aligned4 (s + n) \<and> aligned4 (d + n) \<and> aligned4 n then
         kbind (movsl (rev [0..<unat n div 4]) dst src) (\<lambda>_. kreturn dst) m
       else kbind (movsb (rev [0..<unat n]) dst src) (\<lambda>_. kreturn dst) m
     else
       if aligned4 s \<and> aligned4 d \<and> aligned4 n then
         kbind (movsl [0..<unat n div 4] dst src) (\<lambda>_. kreturn dst) m
       else kbind (movsb [0..<unat n] dst src) (\<lambda>_. kreturn dst) m)"

text \<open>The portable versions, compiled when \<^verbatim>\<open>ASM\<close> is 0.\<close>

definition memset_c :: "ptr \<Rightarrow> u32 \<Rightarrow> u32 \<Rightarrow> (bmem, ptr) kfun" where
  "memset_c v c n =
     kbind (kfor [0..<nat (sint n)] (\<lambda>k. store (padd v k) (ucast c))) (\<lambda>_. kreturn v)"

definition memmove_c :: "ptr \<Rightarrow> ptr \<Rightarrow> u32 \<Rightarrow> (bmem, ptr) kfun" where
  "memmove_c dst src n = (\<lambda>m.
     let s = ptr_addr m src; d = ptr_addr m dst in
     if s < d \<and> s + n > d then
       kbind (kfor (rev [0..<unat n]) (\<lambda>k. kbind (load (padd src k)) (store (padd dst k))))
         (\<lambda>_. kreturn dst) m
     else
       kbind (kfor [0..<unat n] (\<lambda>k. kbind (load (padd src k)) (store (padd dst k))))
         (\<lambda>_. kreturn dst) m)"

definition memcpy :: "ptr \<Rightarrow> ptr \<Rightarrow> u32 \<Rightarrow> (bmem, ptr) kfun" where
  "memcpy dst src n = memmove dst src n"

fun memcmp_loop :: "nat \<Rightarrow> ptr \<Rightarrow> ptr \<Rightarrow> (bmem, int) kfun" where
  "memcmp_loop 0 p q = kreturn 0"
| "memcmp_loop (Suc n) p q =
     kbind (load p) (\<lambda>x. kbind (load q) (\<lambda>y.
     if x \<noteq> y then kreturn (uint x - uint y) else memcmp_loop n (padd p 1) (padd q 1)))"

definition memcmp :: "ptr \<Rightarrow> ptr \<Rightarrow> u32 \<Rightarrow> (bmem, int) kfun" where
  "memcmp v1 v2 n = memcmp_loop (unat n) v1 v2"

fun memfind_loop :: "nat \<Rightarrow> ptr \<Rightarrow> u8 \<Rightarrow> (bmem, ptr) kfun" where
  "memfind_loop 0 s c = kreturn s"
| "memfind_loop (Suc n) s c =
     kbind (load s) (\<lambda>x. if x = c then kreturn s else memfind_loop n (padd s 1) c)"

definition memfind :: "ptr \<Rightarrow> u32 \<Rightarrow> u32 \<Rightarrow> (bmem, ptr) kfun" where
  "memfind s c n = memfind_loop (unat n) s (ucast c)"

section \<open>Numbers\<close>

text \<open>
  A \<^verbatim>\<open>long\<close> is a signed number of 32 bits. C leaves its overflow undefined; \<open>clong\<close> wraps around, as the machine's
  instructions do.
\<close>

definition clong :: "int \<Rightarrow> int" where
  "clong x = signed_take_bit 31 x"

function skip_blanks :: "ptr \<Rightarrow> (bmem, ptr) kfun" where
  "skip_blanks (b, i) m =
     (if i < length (blk m b) then
        if blk m b ! i = 0x20 \<or> blk m b ! i = 9 then skip_blanks (b, Suc i) m else Inr ((b, i), m)
      else Inl BadIndex)"
  by pat_completeness auto
termination by (relation "measure (\<lambda>((b, i), m). length (blk m b) - i)") auto

definition digit_of :: "u8 \<Rightarrow> int option" where
  "digit_of c =
     (if 0x30 \<le> c \<and> c \<le> 0x39 then Some (uint c - 0x30)
      else if 0x61 \<le> c \<and> c \<le> 0x7A then Some (uint c - 0x61 + 10)
      else if 0x41 \<le> c \<and> c \<le> 0x5A then Some (uint c - 0x41 + 10)
      else None)"

function strtol_loop :: "ptr \<Rightarrow> int \<Rightarrow> int \<Rightarrow> (bmem, ptr \<times> int) kfun" where
  "strtol_loop (b, i) base val m =
     (if i < length (blk m b) then
        (case digit_of (blk m b ! i) of
           None \<Rightarrow> Inr (((b, i), val), m)
         | Some dig \<Rightarrow>
             if base \<le> dig then Inr (((b, i), val), m)
             else strtol_loop (b, Suc i) base (clong (val * base + dig)) m)
      else Inl BadIndex)"
  by pat_completeness auto
termination by (relation "measure (\<lambda>((b, i), base, val, m). length (blk m b) - i)") auto

definition strtol_sign :: "ptr \<Rightarrow> (bmem, ptr \<times> bool) kfun" where
  "strtol_sign s =
     kbind (load s) (\<lambda>c.
     if c = 0x2B then kreturn (padd s 1, False)
     else if c = 0x2D then kreturn (padd s 1, True)
     else kreturn (s, False))"

text \<open>The second character is read only behind a zero.\<close>

definition strtol_base :: "ptr \<Rightarrow> int \<Rightarrow> (bmem, ptr \<times> int) kfun" where
  "strtol_base s base =
     (if base = 0 \<or> base = 16 then
        kbind (load s) (\<lambda>c.
        if c \<noteq> 0x30 then kreturn (s, if base = 0 then 10 else base)
        else kbind (load (padd s 1)) (\<lambda>d.
          if d = 0x78 then kreturn (padd s 2, 16)
          else if base = 0 then kreturn (padd s 1, 8)
          else kreturn (s, base)))
      else kreturn (s, base))"

definition strtol :: "ptr \<Rightarrow> int \<Rightarrow> (bmem, ptr \<times> int) kfun" where
  "strtol s base =
     kbind (skip_blanks s) (\<lambda>s.
     kbind (strtol_sign s) (\<lambda>(s, neg).
     kbind (strtol_base s base) (\<lambda>(s, base).
     kbind (strtol_loop s base 0) (\<lambda>(endptr, val).
     kreturn (endptr, if neg then clong (- val) else val)))))"

section \<open>Copying\<close>

text \<open>
  \<open>copied m d s K\<close> is the memory after the bytes at the offsets \<open>K\<close> have been copied from \<open>s\<close> to
  \<open>d\<close>, each with the value it has in \<open>m\<close>.
\<close>

fun copied :: "bmem \<Rightarrow> ptr \<Rightarrow> ptr \<Rightarrow> nat set \<Rightarrow> bmem" where
  "copied m (db, di) (sb, si) K = m\<lparr>blk := (blk m)(db :=
     map (\<lambda>j. if di \<le> j \<and> j - di \<in> K then blk m sb ! (si + (j - di)) else blk m db ! j)
       [0..<length (blk m db)])\<rparr>"

fun in_object :: "bmem \<Rightarrow> ptr \<Rightarrow> nat \<Rightarrow> bool" where
  "in_object m (b, i) n \<longleftrightarrow> i + n \<le> length (blk m b)"

lemma length_copied [simp]: "length (blk (copied m d s K) b) = length (blk m b)"
  by (cases d; cases s) simp

lemma bbase_copied [simp]: "bbase (copied m d s K) = bbase m"
  by (cases d; cases s) simp

lemma copied_empty: "copied m d s {} = m"
  by (cases d; cases s) (simp add: map_nth)

lemma copied_insert:
  "k + di < length (blk m db) \<Longrightarrow>
   set_byte db (di + k) (blk m sb ! (si + k)) (copied m (db, di) (sb, si) K) =
     copied m (db, di) (sb, si) (insert k K)"
  by (auto simp: set_byte_def intro!: bmem.equality nth_equalityI ext)
    (auto simp: nth_list_update)

text \<open>The source byte of \<open>k\<close> is still the original one unless a copied byte lies over it.\<close>

definition no_hazard :: "ptr \<Rightarrow> ptr \<Rightarrow> nat set \<Rightarrow> nat \<Rightarrow> bool" where
  "no_hazard d s K k \<longleftrightarrow> fst d \<noteq> fst s \<or> snd s + k < snd d \<or> snd s + k - snd d \<notin> K"

lemma copied_source:
  assumes "no_hazard (db, di) (sb, si) K k" and "si + k < length (blk m sb)"
  shows "blk (copied m (db, di) (sb, si) K) sb ! (si + k) = blk m sb ! (si + k)"
  using assms by (auto simp: no_hazard_def)

lemma movsb_step:
  assumes "no_hazard d s K k" and "in_object m d (Suc k)" and "in_object m s (Suc k)"
  shows "kbind (load (padd s k)) (store (padd d k)) (copied m d s K) =
    Inr ((), copied m d s (insert k K))"
proof -
  obtain db di sb si where p: "d = (db, di)" "s = (sb, si)" by (cases d; cases s) auto
  have r: "si + k < length (blk m sb)" "di + k < length (blk m db)"
    using assms(2,3) unfolding p by simp_all
  have "load (padd s k) (copied m d s K) = Inr (blk m sb ! (si + k), copied m d s K)"
    using copied_source [OF assms(1) [unfolded p] r(1)] r(1)
    unfolding p by (simp del: copied.simps)
  moreover have "store (padd d k) (blk m sb ! (si + k)) (copied m d s K) =
      Inr ((), copied m d s (insert k K))"
    using r(2) copied_insert [of k di m db sb si K] unfolding p
    by (simp del: copied.simps add: add.commute)
  ultimately show ?thesis by simp
qed

lemma word_bytes:
  fixes b0 b1 b2 b3 :: u8
  defines "w \<equiv> ucast b0 OR push_bit 8 (ucast b1) OR push_bit 16 (ucast b2) OR push_bit 24 (ucast b3) :: u32"
  shows "ucast w = b0" and "ucast (drop_bit 8 w) = b1" and "ucast (drop_bit 16 w) = b2"
    and "ucast (drop_bit 24 w) = b3"
  unfolding w_def by (rule bit_word_eqI; auto simp: bit_simps dest: bit_imp_le_length)+

lemma load32_ok:
  assumes "\<And>k. k < 4 \<Longrightarrow> load (padd p k) m = Inr (f k, m)"
  shows "load32 p m = Inr (ucast (f 0) OR push_bit 8 (ucast (f 1)) OR push_bit 16 (ucast (f 2)) OR
    push_bit 24 (ucast (f 3)), m)"
proof -
  have "load p m = Inr (f 0, m)" using assms [of 0] by (cases p) simp
  then show ?thesis using assms [of 1] assms [of 2] assms [of 3]
    by (simp add: load32_def)
qed

lemma padd_padd [simp]: "padd (padd p i) j = padd p (i + j)"
  by (cases p) simp

lemma padd_0 [simp]: "padd p 0 = p"
  by (cases p) simp

lemma movsl_step:
  assumes "\<And>j. j < 4 \<Longrightarrow> no_hazard d s K (4 * k + j)"
    and "in_object m d (4 * Suc k)" and "in_object m s (4 * Suc k)"
  shows "kbind (load32 (padd s (4 * k))) (store32 (padd d (4 * k))) (copied m d s K) =
    Inr ((), copied m d s (K \<union> {4 * k..<4 * Suc k}))"
proof -
  obtain db di sb si where p: "d = (db, di)" "s = (sb, si)" by (cases d; cases s) auto
  let ?f = "\<lambda>j. blk m sb ! (si + (4 * k + j))"
  have ld: "load (padd (padd s (4 * k)) j) (copied m d s K) = Inr (?f j, copied m d s K)" if "j < 4" for j
    using copied_source [OF assms(1) [OF that, unfolded p], of m] assms(3) that
    unfolding p by (simp del: copied.simps add: add.assoc)
  have st: "store (padd d (4 * k + j)) (?f j) (copied m d s L) = Inr ((), copied m d s (insert (4 * k + j) L))"
    if "j < 4" for j L
    using copied_insert [of "4 * k + j" di m db sb si L] assms(2) that
    unfolding p by (simp del: copied.simps add: ac_simps)
  have set: "insert (4 * k + 3) (insert (4 * k + 2) (insert (4 * k + 1) (insert (4 * k + 0) K))) =
      K \<union> {4 * k..<4 * Suc k}" by auto
  define w :: u32 where "w = ucast (?f 0) OR push_bit 8 (ucast (?f 1)) OR push_bit 16 (ucast (?f 2)) OR
    push_bit 24 (ucast (?f 3))"
  have w: "load32 (padd s (4 * k)) (copied m d s K) = Inr (w, copied m d s K)"
    unfolding w_def by (rule load32_ok) (rule ld)
  have wb: "ucast w = ?f 0" "ucast (drop_bit 8 w) = ?f 1" "ucast (drop_bit 16 w) = ?f 2"
    "ucast (drop_bit 24 w) = ?f 3" unfolding w_def by (rule word_bytes)+
  have "store32 (padd d (4 * k)) w (copied m d s K) = Inr ((), copied m d s (K \<union> {4 * k..<4 * Suc k}))"
    unfolding store32_def wb padd_padd set [symmetric]
    using st [of 0 K] st [of 1 "insert (4 * k + 0) K"] st [of 2 "insert (4 * k + 1) (insert (4 * k + 0) K)"]
      st [of 3 "insert (4 * k + 2) (insert (4 * k + 1) (insert (4 * k + 0) K))"]
    by (simp del: copied.simps)
  with w show ?thesis by simp
qed


text \<open>A loop over offsets that never reads a byte it has already overwritten.\<close>

lemma kfor_copied:
  assumes step: "\<And>xs k ys. ks = xs @ k # ys \<Longrightarrow>
      body k (copied m d s (\<Union>(F ` set xs))) = Inr ((), copied m d s (\<Union>(F ` set xs) \<union> F k))"
  shows "kfor ks body m = Inr ((), copied m d s (\<Union>(F ` set ks)))"
proof -
  have "xs @ ys = ks \<Longrightarrow> kfor ys body (copied m d s (\<Union>(F ` set xs))) = Inr ((), copied m d s (\<Union>(F ` set ks)))" for xs ys
  proof (induction ys arbitrary: xs)
    case (Cons y ys)
    have "\<Union>(F ` set xs) \<union> F y = \<Union>(F ` set (xs @ [y]))" by auto
    with step [of xs y ys] Cons.prems Cons.IH [of "xs @ [y]"] show ?case by simp
  qed simp
  from this [of "[]" ks] show ?thesis by (simp add: copied_empty)
qed

lemma upt_split:
  assumes a: "[0..<n] = xs @ k # ys"
  shows "k < n \<and> set xs = {0..<k}"
proof -
  have "n = length (xs @ k # ys)" unfolding a [symmetric] by simp
  then have n: "length xs < n" by simp
  have "k = [0..<n] ! length xs" unfolding a by simp
  with n have k: "k = length xs" by simp
  have "take k [0..<n] = xs" unfolding a k by simp
  moreover have "take k [0..<n] = [0..<k]" using n k by (simp add: take_upt)
  ultimately have "set xs = set [0..<k]" by simp
  with n k show ?thesis by simp
qed

lemma rev_upt_split:
  assumes r: "rev [0..<n] = xs @ k # ys"
  shows "k < n \<and> set xs = {k<..<n}"
proof -
  have a: "[0..<n] = rev ys @ k # rev xs" using arg_cong [OF r, of rev] by simp
  from upt_split [OF this] have k: "k < n" "set ys = {0..<k}" by auto
  have "set ys \<union> {k} \<union> set xs = {0..<n}" using arg_cong [OF a, of set] by auto
  moreover have "distinct (rev ys @ k # rev xs)" unfolding a [symmetric] by simp
  ultimately have "set xs = {0..<n} - {k} - set ys" by auto
  with k show ?thesis by auto
qed

lemma movsb_ok:
  assumes "in_object m d n" and "in_object m s n"
    and "\<And>xs k ys. ks = xs @ k # ys \<Longrightarrow> k < n \<and> no_hazard d s (set xs) k"
  shows "movsb ks d s m = Inr ((), copied m d s (set ks))"
proof -
  have "movsb ks d s m = Inr ((), copied m d s (\<Union>((\<lambda>k. {k}) ` set ks)))"
    unfolding movsb_def
  proof (rule kfor_copied)
    fix xs k ys assume "ks = xs @ k # ys"
    with assms(3) have k: "k < n" "no_hazard d s (set xs) k" by auto
    have "in_object m d (Suc k)" "in_object m s (Suc k)" using assms(1,2) k(1)
      by (cases d; cases s; simp)+
    from movsb_step [OF k(2) this]
    show "kbind (load (padd s k)) (store (padd d k)) (copied m d s (\<Union>k\<in>set xs. {k})) =
      Inr ((), copied m d s ((\<Union>k\<in>set xs. {k}) \<union> {k}))" by (simp del: copied.simps)
  qed
  then show ?thesis by simp
qed

lemma movsl_ok:
  assumes "in_object m d (4 * n)" and "in_object m s (4 * n)"
    and "\<And>xs k ys j. ks = xs @ k # ys \<Longrightarrow> j < 4 \<Longrightarrow>
      k < n \<and> no_hazard d s (\<Union>k\<in>set xs. {4 * k..<4 * Suc k}) (4 * k + j)"
  shows "movsl ks d s m = Inr ((), copied m d s (\<Union>k\<in>set ks. {4 * k..<4 * Suc k}))"
  unfolding movsl_def
proof (rule kfor_copied)
  fix xs k ys assume ks: "ks = xs @ k # ys"
  have k: "k < n" using assms(3) [OF ks, of 0] by simp
  have "in_object m d (4 * Suc k)" "in_object m s (4 * Suc k)" using assms(1,2) k
    by (cases d; cases s; simp)+
  with movsl_step [of d s _ k m] assms(3) [OF ks]
  show "kbind (load32 (padd s (4 * k))) (store32 (padd d (4 * k)))
      (copied m d s (\<Union>k\<in>set xs. {4 * k..<4 * Suc k})) =
    Inr ((), copied m d s ((\<Union>k\<in>set xs. {4 * k..<4 * Suc k}) \<union> {4 * k..<4 * Suc k}))" by blast
qed

lemma words_of_bytes: "(\<Union>k\<in>{0..<n}. {4 * k..<4 * Suc k}) = {0..<4 * n}"
proof (intro set_eqI iffI)
  fix x assume "x \<in> {0..<4 * n}"
  then have "x div 4 < n" by auto
  moreover have "x \<in> {4 * (x div 4)..<4 * Suc (x div 4)}"
    using div_mult_mod_eq [of x 4] mod_less_divisor [of 4 x] by simp
  ultimately show "x \<in> (\<Union>k\<in>{0..<n}. {4 * k..<4 * Suc k})"
    by (intro UN_I [of "x div 4"]) simp_all
qed auto

text \<open>Loops whose body keeps the sizes of the objects and fails on an access outside.\<close>

definition same_sizes :: "bmem \<Rightarrow> bmem \<Rightarrow> bool" where
  "same_sizes m m' \<longleftrightarrow> (\<forall>b. length (blk m' b) = length (blk m b))"

lemma same_sizes_refl [simp]: "same_sizes m m"
  by (simp add: same_sizes_def)

lemma kfor_bad_index:
  assumes "\<And>k m'. same_sizes m m' \<Longrightarrow> body k m' = Inl BadIndex \<or>
      (\<exists>m''. body k m' = Inr ((), m'') \<and> same_sizes m m'')"
    and "k \<in> set ks" and "\<And>m'. same_sizes m m' \<Longrightarrow> body k m' = Inl BadIndex"
  shows "kfor ks body m = Inl BadIndex"
proof -
  have "same_sizes m m' \<Longrightarrow> kfor ks body m' = Inl BadIndex" for m'
    using assms(2)
  proof (induction ks arbitrary: m')
    case (Cons x xs)
    show ?case
    proof (cases "body x m'")
      case (Inl e)
      then have "e = BadIndex" using assms(1) [OF Cons.prems(1), of x] by auto
      with Inl show ?thesis by simp
    next
      case (Inr r)
      then obtain m'' where "body x m' = Inr ((), m'')" "same_sizes m m''"
        using assms(1) [OF Cons.prems(1), of x] by auto
      moreover from this have "k \<noteq> x" using assms(3) [OF Cons.prems(1)] by auto
      ultimately show ?thesis using Cons by simp
    qed
  qed simp
  then show ?thesis by simp
qed

lemma load_cases:
  "load p m = (if in_object m p 1 then Inr (blk m (fst p) ! snd p, m) else Inl BadIndex)"
  by (cases p) auto

lemma store_cases:
  "store p v m = (if in_object m p 1 then Inr ((), set_byte (fst p) (snd p) v m) else Inl BadIndex)"
  by (cases p) auto

lemma same_sizes_set_byte [simp]: "same_sizes m (set_byte b i v m') \<longleftrightarrow> same_sizes m m'"
  by (simp add: same_sizes_def)

lemma in_object_same: "same_sizes m m' \<Longrightarrow> in_object m' p n = in_object m p n"
  by (cases p) (simp add: same_sizes_def)

lemma in_object_padd: "in_object m (padd p k) n \<longleftrightarrow> in_object m p (k + n)"
  by (cases p) (simp add: add.assoc)

lemma in_object_mono: "in_object m p n \<Longrightarrow> k \<le> n \<Longrightarrow> in_object m p k"
  by (cases p) simp

lemma load32_bad: "\<not> in_object m p 4 \<Longrightarrow> load32 p m = Inl BadIndex"
  by (cases p) (auto simp: load32_def kbind_apply)

lemma store32_bad: "\<not> in_object m p 4 \<Longrightarrow> store32 p w m = Inl BadIndex"
  by (cases p) (auto simp: store32_def kbind_apply)

lemma load32_good: "in_object m p 4 \<Longrightarrow> \<exists>w. load32 p m = Inr (w, m)"
  by (cases p) (auto simp: load32_def kbind_apply)

lemma store32_good: "in_object m p 4 \<Longrightarrow> \<exists>m'. store32 p w m = Inr ((), m') \<and> same_sizes m m'"
  by (cases p) (auto simp: store32_def kbind_apply same_sizes_def)

lemma move32_bad:
  assumes "\<not> (in_object m s 4 \<and> in_object m d 4)"
  shows "kbind (load32 s) (store32 d) m = Inl BadIndex"
proof (cases "in_object m s 4")
  case True
  then obtain w where "load32 s m = Inr (w, m)" using load32_good by blast
  with True assms show ?thesis by (simp add: store32_bad)
qed (simp add: load32_bad)

lemma movsb_body_cases:
  assumes "same_sizes m m'"
  shows "kbind (load (padd s k)) (store (padd d k)) m' = Inl BadIndex \<or>
    (\<exists>m''. kbind (load (padd s k)) (store (padd d k)) m' = Inr ((), m'') \<and> same_sizes m m'')"
  using assms by (auto simp: kbind_apply load_cases store_cases)

lemma movsb_bad:
  assumes "\<not> (in_object m d n \<and> in_object m s n)" and "0 < n" and "set ks = {0..<n}"
  shows "movsb ks d s m = Inl BadIndex"
  unfolding movsb_def
proof (rule kfor_bad_index [of m _ "n - 1"])
  show "n - 1 \<in> set ks" using assms by simp
  show "kbind (load (padd s (n - 1))) (store (padd d (n - 1))) m' = Inl BadIndex"
    if "same_sizes m m'" for m'
    using assms(1,2) by (auto simp: kbind_apply load_cases store_cases in_object_padd in_object_same [OF that])
qed (rule movsb_body_cases)

lemma movsl_bad:
  assumes "\<not> (in_object m d (4 * n) \<and> in_object m s (4 * n))" and "0 < n" and "set ks = {0..<n}"
  shows "movsl ks d s m = Inl BadIndex"
  unfolding movsl_def
proof (rule kfor_bad_index [of m _ "n - 1"])
  show "n - 1 \<in> set ks" using assms by simp
  let ?body = "\<lambda>k. kbind (load32 (padd s (4 * k))) (store32 (padd d (4 * k)))"
  show "?body k m' = Inl BadIndex \<or> (\<exists>m''. ?body k m' = Inr ((), m'') \<and> same_sizes m m'')"
    if "same_sizes m m'" for k m'
  proof (cases "in_object m' (padd s (4 * k)) 4 \<and> in_object m' (padd d (4 * k)) 4")
    case True
    then obtain w m'' where "load32 (padd s (4 * k)) m' = Inr (w, m')"
      "store32 (padd d (4 * k)) w m' = Inr ((), m'')" "same_sizes m' m''"
      using load32_good store32_good by blast
    with that show ?thesis by (auto simp: same_sizes_def)
  next
    case False
    then show ?thesis using move32_bad by blast
  qed
  have "4 * (n - 1) + 4 = 4 * n" using assms(2) by simp
  then show "?body (n - 1) m' = Inl BadIndex" if "same_sizes m m'" for m'
    using assms(1) by (intro move32_bad) (auto simp: in_object_padd in_object_same [OF that])
qed

lemma no_hazard_up:
  "K \<subseteq> {..<p} \<Longrightarrow> p < n \<Longrightarrow> fst d \<noteq> fst s \<or> snd d \<le> snd s \<or> snd s + n \<le> snd d \<Longrightarrow> no_hazard d s K p"
  by (auto simp: no_hazard_def)

lemma no_hazard_down:
  "K \<subseteq> {p<..} \<Longrightarrow> fst d \<noteq> fst s \<or> snd s < snd d \<Longrightarrow> no_hazard d s K p"
  by (auto simp: no_hazard_def)


text \<open>Every object, with the address just behind it, lies inside the address space.\<close>

definition objects_ok :: "bmem \<Rightarrow> bool" where
  "objects_ok m \<longleftrightarrow> (\<forall>b. unat (bbase m b) + length (blk m b) < 2 ^ 32)"

lemma ptr_addr_unat:
  assumes "objects_ok m" and "i < length (blk m b)"
  shows "unat (ptr_addr m (b, i)) = unat (bbase m b) + i"
proof -
  have "unat (bbase m b) + length (blk m b) < 2 ^ 32" using assms(1) by (simp add: objects_ok_def)
  with assms(2) have "unat (bbase m b) + i < 2 ^ 32" by simp
  then show ?thesis by (simp add: unat_word_ariths unat_of_nat take_bit_eq_mod)
qed

lemma move_direction:
  assumes ok: "objects_ok m" and "n \<noteq> 0" and d: "in_object m d (unat n)" and s: "in_object m s (unat n)"
  defines "down \<equiv> ptr_addr m s < ptr_addr m d \<and> ptr_addr m s + n > ptr_addr m d"
  shows "if down then fst d \<noteq> fst s \<or> snd s < snd d
    else fst d \<noteq> fst s \<or> snd d \<le> snd s \<or> snd s + unat n \<le> snd d"
proof (cases "fst d = fst s")
  case True
  obtain b i j where p: "d = (b, i)" "s = (b, j)" using True by (cases d; cases s) auto
  have n: "0 < unat n" using \<open>n \<noteq> 0\<close> by (simp add: unat_gt_0)
  have i: "i < length (blk m b)" and j: "j < length (blk m b)" using d s n unfolding p by auto
  note ai = ptr_addr_unat [OF ok i] and aj = ptr_addr_unat [OF ok j]
  have lim: "unat (bbase m b) + length (blk m b) < 2 ^ 32" using ok by (simp add: objects_ok_def)
  have lt: "ptr_addr m s < ptr_addr m d \<longleftrightarrow> j < i"
    unfolding p word_less_nat_alt ai aj by simp
  have "unat (bbase m b) + j + unat n < 2 ^ 32" using lim s unfolding p by simp
  then have "unat (ptr_addr m s + n) = unat (bbase m b) + j + unat n"
    unfolding p by (subst unat_add_lem [THEN iffD1]) (simp_all add: aj del: ptr_addr.simps)
  then have "ptr_addr m s + n > ptr_addr m d \<longleftrightarrow> j + unat n > i"
    unfolding p word_less_nat_alt ai by simp
  with lt show ?thesis unfolding down_def p by auto
qed auto


lemma move_loops:
  assumes "in_object m d n" and "in_object m s n"
  shows "fst d \<noteq> fst s \<or> snd d \<le> snd s \<or> snd s + n \<le> snd d \<Longrightarrow>
      movsb [0..<n] d s m = Inr ((), copied m d s {0..<n})"
    and "fst d \<noteq> fst s \<or> snd s < snd d \<Longrightarrow>
      movsb (rev [0..<n]) d s m = Inr ((), copied m d s {0..<n})"
    and "n = 4 * q \<Longrightarrow> fst d \<noteq> fst s \<or> snd d \<le> snd s \<or> snd s + n \<le> snd d \<Longrightarrow>
      movsl [0..<q] d s m = Inr ((), copied m d s {0..<n})"
    and "n = 4 * q \<Longrightarrow> fst d \<noteq> fst s \<or> snd s < snd d \<Longrightarrow>
      movsl (rev [0..<q]) d s m = Inr ((), copied m d s {0..<n})"
proof -
  show "movsb [0..<n] d s m = Inr ((), copied m d s {0..<n})"
    if "fst d \<noteq> fst s \<or> snd d \<le> snd s \<or> snd s + n \<le> snd d"
  proof -
    have "movsb [0..<n] d s m = Inr ((), copied m d s (set [0..<n]))"
      by (rule movsb_ok [OF assms]) (auto dest!: upt_split intro!: no_hazard_up [OF _ _ that])
    then show ?thesis by simp
  qed
  show "movsb (rev [0..<n]) d s m = Inr ((), copied m d s {0..<n})" if "fst d \<noteq> fst s \<or> snd s < snd d"
  proof -
    have "movsb (rev [0..<n]) d s m = Inr ((), copied m d s (set (rev [0..<n])))"
      by (rule movsb_ok [OF assms]) (auto dest!: rev_upt_split intro!: no_hazard_down [OF _ that])
    then show ?thesis by simp
  qed
  show "movsl [0..<q] d s m = Inr ((), copied m d s {0..<n})"
    if n: "n = 4 * q" and "fst d \<noteq> fst s \<or> snd d \<le> snd s \<or> snd s + n \<le> snd d"
  proof -
    have "movsl [0..<q] d s m = Inr ((), copied m d s (\<Union>k\<in>set [0..<q]. {4 * k..<4 * Suc k}))"
      using n by (intro movsl_ok [OF assms [unfolded n]])
        (auto dest!: upt_split intro!: no_hazard_up [OF _ _ that(2)])
    then show ?thesis using words_of_bytes [of q] n by (simp del: copied.simps)
  qed
  show "movsl (rev [0..<q]) d s m = Inr ((), copied m d s {0..<n})"
    if n: "n = 4 * q" and "fst d \<noteq> fst s \<or> snd s < snd d"
  proof -
    have "movsl (rev [0..<q]) d s m = Inr ((), copied m d s (\<Union>k\<in>set (rev [0..<q]). {4 * k..<4 * Suc k}))"
      using n by (intro movsl_ok [OF assms [unfolded n]])
        (auto dest!: rev_upt_split intro!: no_hazard_down [OF _ that(2)])
    then show ?thesis using words_of_bytes [of q] n by (simp del: copied.simps)
  qed
qed

text \<open>What \<^verbatim>\<open>memmove\<close> is to do: copy all bytes at once, or fail on a range outside an object.\<close>

definition move_spec :: "ptr \<Rightarrow> ptr \<Rightarrow> nat \<Rightarrow> (bmem, ptr) kfun" where
  "move_spec d s n m =
     (if n = 0 then Inr (d, m)
      else if in_object m d n \<and> in_object m s n then Inr (d, copied m d s {0..<n})
      else Inl BadIndex)"

lemma move_bytes_spec:
  assumes "objects_ok m" and "down \<longleftrightarrow> ptr_addr m s < ptr_addr m d \<and> ptr_addr m s + n > ptr_addr m d"
  shows "kbind (movsb (if down then rev [0..<unat n] else [0..<unat n]) d s) (\<lambda>_. kreturn d) m =
    move_spec d s (unat n) m"
proof (cases "n = 0")
  case False
  then have n: "0 < unat n" by (simp add: unat_gt_0)
  show ?thesis
  proof (cases "in_object m d (unat n) \<and> in_object m s (unat n)")
    case True
    with move_direction [OF assms(1) False, of d s] move_loops(1,2) [of m d "unat n" s] assms(2) n
    show ?thesis by (auto simp: move_spec_def simp del: copied.simps split: if_splits)
  next
    case bad: False
    with movsb_bad [OF bad n, of "rev [0..<unat n]"] movsb_bad [OF bad n, of "[0..<unat n]"] n
    show ?thesis by (auto simp: move_spec_def)
  qed
qed (simp add: move_spec_def movsb_def)

lemma move_words_spec:
  assumes "objects_ok m" and "down \<longleftrightarrow> ptr_addr m s < ptr_addr m d \<and> ptr_addr m s + n > ptr_addr m d"
    and "aligned4 n"
  shows "kbind (movsl (if down then rev [0..<unat n div 4] else [0..<unat n div 4]) d s) (\<lambda>_. kreturn d) m =
    move_spec d s (unat n) m"
proof (cases "n = 0")
  case False
  then have n: "0 < unat n" by (simp add: unat_gt_0)
  have q: "unat n = 4 * (unat n div 4)" using assms(3) by (auto simp: aligned4_def)
  with n have q0: "0 < unat n div 4" by simp
  show ?thesis
  proof (cases "in_object m d (unat n) \<and> in_object m s (unat n)")
    case True
    with move_direction [OF assms(1) False, of d s] move_loops(3,4) [of m d "unat n" s, OF _ _ q] assms(2) n
    show ?thesis by (auto simp: move_spec_def simp del: copied.simps split: if_splits)
  next
    case bad: False
    then have "\<not> (in_object m d (4 * (unat n div 4)) \<and> in_object m s (4 * (unat n div 4)))"
      using q by simp
    with movsl_bad [of m d "unat n div 4" s, OF this q0, of "rev [0..<unat n div 4]"]
      movsl_bad [of m d "unat n div 4" s, OF this q0, of "[0..<unat n div 4]"] n bad
    show ?thesis by (auto simp: move_spec_def)
  qed
qed (simp add: move_spec_def movsl_def)

lemma memmove_spec: "objects_ok m \<Longrightarrow> memmove d s n m = move_spec d s (unat n) m"
  using move_bytes_spec [of m "ptr_addr m s < ptr_addr m d \<and> ptr_addr m s + n > ptr_addr m d" s d n]
    move_words_spec [of m "ptr_addr m s < ptr_addr m d \<and> ptr_addr m s + n > ptr_addr m d" s d n]
  by (auto simp: memmove_def Let_def split: if_splits)

lemma memmove_c_spec: "objects_ok m \<Longrightarrow> memmove_c d s n m = move_spec d s (unat n) m"
  using move_bytes_spec [of m "ptr_addr m s < ptr_addr m d \<and> ptr_addr m s + n > ptr_addr m d" s d n]
  by (auto simp: memmove_c_def movsb_def Let_def split: if_splits)

section \<open>Filling\<close>

fun filled :: "bmem \<Rightarrow> ptr \<Rightarrow> u8 \<Rightarrow> nat set \<Rightarrow> bmem" where
  "filled m (b, i) v K = m\<lparr>blk := (blk m)(b :=
     map (\<lambda>j. if i \<le> j \<and> j - i \<in> K then v else blk m b ! j) [0..<length (blk m b)])\<rparr>"

lemma length_filled [simp]: "length (blk (filled m p v K) b) = length (blk m b)"
  by (cases p) simp

lemma filled_empty: "filled m p v {} = m"
  by (cases p) (simp add: map_nth)

lemma filled_insert:
  "i + k < length (blk m b) \<Longrightarrow> set_byte b (i + k) v (filled m (b, i) v K) = filled m (b, i) v (insert k K)"
  by (auto simp: set_byte_def intro!: bmem.equality nth_equalityI ext)
    (auto simp: nth_list_update)

lemma store_filled:
  assumes "in_object m p (Suc k)"
  shows "store (padd p k) v (filled m p v K) = Inr ((), filled m p v (insert k K))"
  using assms filled_insert [of "snd p" k m "fst p" v K]
  by (cases p) (simp del: filled.simps)

lemma kfor_filled:
  assumes "\<And>k K. k \<in> set ks \<Longrightarrow> body k (filled m p v K) = Inr ((), filled m p v (K \<union> F k))"
  shows "kfor ks body m = Inr ((), filled m p v (\<Union>(F ` set ks)))"
proof -
  have "kfor ks body (filled m p v K) = Inr ((), filled m p v (K \<union> \<Union>(F ` set ks)))" for K
    using assms
  proof (induction ks arbitrary: K)
    case (Cons k ks)
    then show ?case by (simp del: filled.simps add: Un_assoc)
  qed simp
  from this [of "{}"] show ?thesis by (simp add: filled_empty del: filled.simps)
qed

lemma memset_word_bytes:
  "ucast (memset_word c) = (ucast c :: u8)" "ucast (drop_bit 8 (memset_word c)) = (ucast c :: u8)"
  "ucast (drop_bit 16 (memset_word c)) = (ucast c :: u8)" "ucast (drop_bit 24 (memset_word c)) = (ucast c :: u8)"
proof -
  have "(0xFF :: u32) = mask 8" by (simp add: mask_eq_exp_minus_1)
  then have "memset_word c = push_bit 24 (take_bit 8 c) OR push_bit 16 (take_bit 8 c) OR push_bit 8 (take_bit 8 c) OR take_bit 8 c"
    unfolding memset_word_def Let_def by (simp only: and_mask_take_bit)
  then show "ucast (memset_word c) = (ucast c :: u8)" "ucast (drop_bit 8 (memset_word c)) = (ucast c :: u8)"
    "ucast (drop_bit 16 (memset_word c)) = (ucast c :: u8)" "ucast (drop_bit 24 (memset_word c)) = (ucast c :: u8)"
    by (auto intro!: bit_word_eqI simp: bit_simps)
qed

lemma stosb_ok: "in_object m p n \<Longrightarrow> stosb [0..<n] p v m = Inr ((), filled m p v {0..<n})"
proof -
  assume a: "in_object m p n"
  have "stosb [0..<n] p v m = Inr ((), filled m p v (\<Union>((\<lambda>k. {k}) ` set [0..<n])))"
    unfolding stosb_def
    by (rule kfor_filled) (simp add: store_filled in_object_mono [OF a] del: filled.simps)
  then show ?thesis by simp
qed

lemma stosl_ok:
  assumes "in_object m p (4 * n)"
  shows "stosl [0..<n] p (memset_word c) m = Inr ((), filled m p (ucast c) {0..<4 * n})"
proof -
  have "stosl [0..<n] p (memset_word c) m =
      Inr ((), filled m p (ucast c) (\<Union>((\<lambda>k. {4 * k..<4 * Suc k}) ` set [0..<n])))"
    unfolding stosl_def
  proof (rule kfor_filled)
    fix k K assume "k \<in> set [0..<n]"
    then have r: "in_object m p (Suc (4 * k + j))" if "j < 4" for j
      using that by (intro in_object_mono [OF assms]) simp
    have set: "insert (4 * k + 3) (insert (4 * k + 2) (insert (4 * k + 1) (insert (4 * k) K))) =
      K \<union> {4 * k..<4 * Suc k}" by auto
    show "store32 (padd p (4 * k)) (memset_word c) (filled m p (ucast c) K) =
      Inr ((), filled m p (ucast c) (K \<union> {4 * k..<4 * Suc k}))"
      unfolding store32_def memset_word_bytes padd_padd set [symmetric]
      using store_filled [OF r, of 0] store_filled [OF r, of 1] store_filled [OF r, of 2] store_filled [OF r, of 3]
      by (simp del: filled.simps)
  qed
  then show ?thesis using words_of_bytes [of n] by (simp del: filled.simps)
qed

lemma memset_ok:
  assumes "in_object m p (unat n)"
  shows "memset p c n m = Inr (p, filled m p (ucast c) {0..<unat n})"
proof (cases "n = 0")
  case False
  show ?thesis
  proof (cases "aligned4 (ptr_addr m p) \<and> aligned4 n")
    case True
    then have q: "4 * (unat n div 4) = unat n" by (auto simp: aligned4_def)
    with stosl_ok [of m p "unat n div 4" c] assms have
      "stosl [0..<unat n div 4] p (memset_word c) m = Inr ((), filled m p (ucast c) {0..<unat n})" by simp
    with True False show ?thesis by (simp add: memset_def del: filled.simps)
  qed (use False stosb_ok [OF assms, of "ucast c"] in \<open>auto simp: memset_def simp del: filled.simps\<close>)
qed (simp add: memset_def filled_empty del: filled.simps)

section \<open>C strings\<close>

text \<open>\<open>cstring m p cs\<close>: the bytes \<open>cs\<close>, none of them zero, and a zero byte stand at \<open>p\<close>.\<close>

fun cstring :: "bmem \<Rightarrow> ptr \<Rightarrow> u8 list \<Rightarrow> bool" where
  "cstring m (b, i) [] \<longleftrightarrow> i < length (blk m b) \<and> blk m b ! i = 0"
| "cstring m (b, i) (c # cs) \<longleftrightarrow>
     i < length (blk m b) \<and> blk m b ! i = c \<and> c \<noteq> 0 \<and> cstring m (b, Suc i) cs"

declare strlen_loop.simps [simp del] strcpy_loop.simps [simp del] strcmp.simps [simp del]
  strchr.simps [simp del] strfind.simps [simp del] skip_blanks.simps [simp del]
  strtol_loop.simps [simp del]

lemma strlen_loop_ok: "cstring m (b, i) cs \<Longrightarrow> strlen_loop (b, i) n m = Inr (n + int (length cs), m)"
  by (induction cs arbitrary: i n) (simp_all add: strlen_loop.simps)

lemma strlen_ok: "cstring m p cs \<Longrightarrow> strlen p m = Inr (int (length cs), m)"
  by (cases p) (simp add: strlen_def strlen_loop_ok)

text \<open>The order of strings: the difference of the first bytes that differ, the end being a zero.\<close>

fun str_order :: "u8 list \<Rightarrow> u8 list \<Rightarrow> int" where
  "str_order [] [] = 0"
| "str_order [] (y # ys) = - uint y"
| "str_order (x # xs) [] = uint x"
| "str_order (x # xs) (y # ys) = (if x = y then str_order xs ys else uint x - uint y)"

lemma strcmp_ok:
  "cstring m (b, i) xs \<Longrightarrow> cstring m (c, j) ys \<Longrightarrow> strcmp (b, i) (c, j) m = Inr (str_order xs ys, m)"
proof (induction xs ys arbitrary: i j rule: str_order.induct)
  case (4 x xs y ys)
  then show ?case by (simp add: strcmp.simps [of b i] Let_def)
qed (simp_all add: strcmp.simps Let_def)

lemma str_order_0: "0 \<notin> set xs \<Longrightarrow> 0 \<notin> set ys \<Longrightarrow> str_order xs ys = 0 \<longleftrightarrow> xs = ys"
proof (induction xs ys rule: str_order.induct)
  case (2 y ys) then show ?case by (simp add: unsigned_eq_0_iff) 
next
  case (3 x xs) then show ?case by (simp add: unsigned_eq_0_iff)
next
  case (4 x xs y ys) then show ?case by (auto simp: uint_word_of_int_eq word_uint_eq_iff)
qed simp_all

lemma cstring_nonzero: "cstring m p cs \<Longrightarrow> 0 \<notin> set cs"
  by (induction m p cs rule: cstring.induct) auto

lemma strchr_ok:
  "cstring m (b, i) cs \<Longrightarrow> strchr (b, i) c m =
     Inr (if c \<in> set cs then Some (b, i + length (takeWhile (\<lambda>x. x \<noteq> c) cs)) else None, m)"
  by (induction cs arbitrary: i) (auto simp: strchr.simps Let_def)


text \<open>Copying into another object writes exactly the string and its end.\<close>

fun set_bytes :: "nat \<Rightarrow> nat \<Rightarrow> u8 list \<Rightarrow> bmem \<Rightarrow> bmem" where
  "set_bytes b i [] m = m"
| "set_bytes b i (c # cs) m = set_bytes b (Suc i) cs (set_byte b i c m)"

lemma set_bytes_snoc: "set_bytes b i (cs @ [c]) m = set_byte b (i + length cs) c (set_bytes b i cs m)"
  by (induction cs arbitrary: i m) auto

lemma length_set_bytes [simp]: "length (blk (set_bytes b i cs m) c) = length (blk m c)"
  by (induction cs arbitrary: i m) auto

lemma blk_set_bytes_other [simp]: "c \<noteq> b \<Longrightarrow> blk (set_bytes b i cs m) c = blk m c"
  by (induction cs arbitrary: i m) (auto simp: blk_set_byte)

lemma bbase_set_bytes [simp]: "bbase (set_bytes b i cs m) = bbase m"
  by (induction cs arbitrary: i m) auto

lemma nth_set_bytes:
  "i + length cs \<le> length (blk m b) \<Longrightarrow> j < length (blk m b) \<Longrightarrow>
   blk (set_bytes b i cs m) b ! j = (if i \<le> j \<and> j < i + length cs then cs ! (j - i) else blk m b ! j)"
proof (induction cs arbitrary: i m)
  case (Cons c cs)
  then show ?case
    by (auto simp: blk_set_byte nth_list_update nth_Cons' intro: arg_cong2 [where f = nth])
qed auto

lemma cstring_other:
  "cstring m (b, i) cs \<Longrightarrow> b \<noteq> c \<Longrightarrow> cstring (set_byte c j v m) (b, i) cs"
  by (induction cs arbitrary: i) (auto simp: blk_set_byte)

lemma strcpy_loop_ok:
  "cstring m (sb, si) cs \<Longrightarrow> sb \<noteq> db \<Longrightarrow> di + length cs < length (blk m db) \<Longrightarrow>
   strcpy_loop (db, di) (sb, si) m = Inr ((), set_bytes db di (cs @ [0]) m)"
proof (induction cs arbitrary: si di m)
  case (Cons c cs)
  from Cons.prems have "cstring (set_byte db di c m) (sb, Suc si) cs" by (simp add: cstring_other)
  with Cons.IH [of "set_byte db di c m" "Suc si" "Suc di"] Cons.prems show ?case
    by (simp add: strcpy_loop.simps [of db di] Let_def)
qed (simp add: strcpy_loop.simps Let_def)

lemma strcpy_ok:
  "cstring m (sb, si) cs \<Longrightarrow> sb \<noteq> db \<Longrightarrow> di + length cs < length (blk m db) \<Longrightarrow>
   strcpy (db, di) (sb, si) m = Inr ((db, di), set_bytes db di (cs @ [0]) m)"
  by (simp add: strcpy_def strcpy_loop_ok)

lemma cstring_set_bytes:
  assumes "0 \<notin> set cs" and "i + length cs < length (blk m b)"
  shows "cstring (set_bytes b i (cs @ [0]) m) (b, i) cs"
proof -
  let ?m = "set_bytes b i (cs @ [0]) m"
  have at: "blk ?m b ! (i + k) = (cs @ [0]) ! k" if "k \<le> length cs" for k
    using that assms(2) nth_set_bytes [of i "cs @ [0]" m b "i + k"] by simp
  have "k \<le> length cs \<Longrightarrow> cstring ?m (b, i + k) (drop k cs)" for k
  proof (induction "length cs - k" arbitrary: k)
    case 0
    then have "k = length cs" by simp
    with at [of "length cs"] assms(2) show ?case by (simp add: nth_append)
  next
    case (Suc n)
    then have k: "k < length cs" by simp
    then have d: "drop k cs = cs ! k # drop (Suc k) cs" by (simp add: Cons_nth_drop_Suc)
    from Suc have "cstring ?m (b, Suc (i + k)) (drop (Suc k) cs)" by (simp flip: add_Suc_right)
    moreover have "cs ! k \<noteq> 0" using assms(1) k by (metis nth_mem)
    ultimately show ?case unfolding d using at [of k] k assms(2) by (simp add: nth_append)
  qed
  from this [of 0] show ?thesis by simp
qed

text \<open>\<^verbatim>\<open>strlcpy\<close> writes at most \<open>size\<close> bytes, always ends the string and returns its length.\<close>

lemma strlcpy_loop_ok:
  "cstring m (sb, si) cs \<Longrightarrow> sb \<noteq> db \<Longrightarrow> di + min n (length cs) \<le> length (blk m db) \<Longrightarrow>
   strlcpy_loop n (db, di) (sb, si) m =
     Inr ((db, di + min n (length cs)), set_bytes db di (take n cs) m)"
proof (induction n arbitrary: di si cs m)
  case (Suc n)
  show ?case
  proof (cases cs)
    case (Cons c cs')
    with Suc.prems have "cstring (set_byte db di c m) (sb, Suc si) cs'" by (simp add: cstring_other)
    with Suc.IH [of "set_byte db di c m" "Suc si" cs' "Suc di"] Suc.prems Cons
    show ?thesis by (simp add: kbind_apply)
  qed (use Suc in \<open>simp add: kbind_apply\<close>)
qed simp

lemma strlcpy_ok:
  assumes "cstring m (sb, si) cs" and "sb \<noteq> db" and "sz \<noteq> 0"
    and "di + unat sz \<le> length (blk m db)"
  shows "strlcpy (db, di) (sb, si) sz m =
    Inr (min (unat sz - 1) (length cs), set_bytes db di (take (unat sz - 1) cs @ [0]) m)"
proof -
  let ?n = "unat sz - 1" and ?k = "min (unat sz - 1) (length cs)"
  have "0 < unat sz" using assms(3) by (simp add: unat_gt_0)
  then have "di + ?k < length (blk m db)" using assms(4) by simp
  moreover from this have "strlcpy_loop ?n (db, di) (sb, si) m = Inr ((db, di + ?k), set_bytes db di (take ?n cs) m)"
    by (intro strlcpy_loop_ok [OF assms(1,2)]) simp
  ultimately show ?thesis using assms(3) by (simp add: strlcpy_def set_bytes_snoc min.commute)
qed

section \<open>Properties\<close>

definition demo_mem :: bmem where
  "demo_mem = \<lparr>blk = (\<lambda>b. if b = 0 then [10, 11, 12, 13, 14, 15, 16, 17] else if b = 5 then [65, 66, 67, 0] else []),
     bbase = (\<lambda>b. 0x1000)\<rparr>"

text \<open>
  C31. \<^verbatim>\<open>memmove\<close> (\<^verbatim>\<open>lib/string.c\<close>), whichever of its four instruction sequences it chooses, copies the
  source range as it was before the call, also when the ranges overlap, and agrees with the
  portable version; a range that leaves its object is a fault.
\<close>
theorem memmove_correct:
  assumes "objects_ok m"
  shows "memmove dst src n m =
      (if n = 0 then Inr (dst, m)
       else if in_object m dst (unat n) \<and> in_object m src (unat n)
       then Inr (dst, copied m dst src {0..<unat n})
       else Inl BadIndex) \<and>
    memmove_c dst src n m = memmove dst src n m"
proof -
  have "unat n = 0 \<longleftrightarrow> n = 0" by (simp add: unat_eq_0)
  then show ?thesis
    using memmove_spec [OF assms, of dst src n] memmove_c_spec [OF assms, of dst src n]
    by (simp add: move_spec_def del: copied.simps)
qed

theorem memmove_correct_witness:
  "objects_ok demo_mem \<and>
   memmove (0, 2) (0, 0) 4 demo_mem =
     Inr ((0, 2), demo_mem\<lparr>blk := (blk demo_mem)(0 := [10, 11, 10, 11, 12, 13, 16, 17])\<rparr>) \<and>
   memmove_c (0, 2) (0, 0) 4 demo_mem = memmove (0, 2) (0, 0) 4 demo_mem"
proof -
  have ok: "objects_ok demo_mem" by (simp add: objects_ok_def demo_mem_def)
  show ?thesis
    using ok memmove_correct [OF ok, of "(0, 2)" "(0, 0)" 4]
    by (simp add: demo_mem_def upt_rec)
qed

text \<open>
  C32. \<^verbatim>\<open>strlcpy\<close> (\<^verbatim>\<open>lib/string.c\<close>) with a positive size copies the longest part of the source string
  that fits, ends it with a zero byte, returns its length and changes no byte outside the \<open>size\<close>
  bytes at the destination.
\<close>
theorem strlcpy_correct:
  assumes "cstring m (sb, si) cs" and "sb \<noteq> db" and "sz \<noteq> 0"
    and "di + unat sz \<le> length (blk m db)"
  shows "\<exists>m'. strlcpy (db, di) (sb, si) sz m = Inr (length (take (unat sz - 1) cs), m') \<and>
    cstring m' (db, di) (take (unat sz - 1) cs) \<and>
    (\<forall>b. length (blk m' b) = length (blk m b)) \<and>
    (\<forall>b j. j < length (blk m b) \<and> \<not> (b = db \<and> di \<le> j \<and> j < di + unat sz) \<longrightarrow> blk m' b ! j = blk m b ! j)"
proof -
  let ?cs = "take (unat sz - 1) cs"
  let ?m = "set_bytes db di (?cs @ [0]) m"
  have sz: "0 < unat sz" using assms(3) by (simp add: unat_gt_0)
  then have len: "length ?cs < unat sz" by simp
  have "0 \<notin> set ?cs" using cstring_nonzero [OF assms(1)] by (auto dest: in_set_takeD)
  then have "cstring ?m (db, di) ?cs" using len assms(4) by (intro cstring_set_bytes) simp_all
  moreover have "blk ?m b ! j = blk m b ! j"
    if "j < length (blk m b)" "\<not> (b = db \<and> di \<le> j \<and> j < di + unat sz)" for b j
    using that nth_set_bytes [of di "?cs @ [0]" m db j] len assms(4) by (cases "b = db") auto
  ultimately show ?thesis
    using strlcpy_ok [OF assms] by (intro exI [of _ ?m]) (simp add: min.commute)
qed

theorem strlcpy_correct_witness:
  "\<exists>m'. strlcpy (0, 1) (5, 0) 3 demo_mem = Inr (2, m') \<and> cstring m' (0, 1) [65, 66]"
proof -
  have two: "unat (3 :: u32) - 1 = 2" by simp
  have c: "cstring demo_mem (5, 0) [65, 66, 67]" by (simp add: demo_mem_def)
  have n: "(3 :: u32) \<noteq> 0" "1 + unat (3 :: u32) \<le> length (blk demo_mem 0)" by (simp_all add: demo_mem_def)
  have t: "take 2 [65, 66, 67 :: u8] = [65, 66]" by simp
  show ?thesis using strlcpy_correct [OF c _ n] unfolding two t by auto
qed

end
