(* ===== verification/Screen.thy ===== *)
theory Screen
  imports Ports Strings
begin

text \<open>
  The text-mode screen (\<^verbatim>\<open>kernel/screen.c\<close>). The text memory at \<^verbatim>\<open>0xB8000\<close> is object 0 of the byte
  memory \<open>vga\<close>; the pointer \<^verbatim>\<open>textmemptr\<close> is null until \<^verbatim>\<open>init_video\<close> has run. The second half shows
  that the routines implement a terminal of 25 rows and 80 columns.
\<close>

section \<open>State\<close>

record kscreen = kio +
  vga :: bmem
  textmemptr :: "ptr option"
  attrib :: int
  csr_x :: int
  csr_y :: int
  screen_lock :: spinlock

definition on_vga :: "(bmem, 'b) kfun \<Rightarrow> ('a kscreen_scheme, 'b) kfun" where
  "on_vga f = (\<lambda>s. case f (vga s) of Inl e \<Rightarrow> Inl e | Inr (x, m) \<Rightarrow> Inr (x, s\<lparr>vga := m\<rparr>))"

text \<open>\<^verbatim>\<open>textmemptr + i\<close>, an address of a 16-bit cell.\<close>

definition text_at :: "int \<Rightarrow> ('a kscreen_scheme, ptr) kfun" where
  "text_at i =
     kbind (kgets textmemptr) (\<lambda>p.
     case p of
       None \<Rightarrow> kfail NullDeref
     | Some p \<Rightarrow> if i < 0 then kfail BadIndex else kreturn (padd p (2 * nat i)))"

definition put_cell :: "int \<Rightarrow> u16 \<Rightarrow> ('a kscreen_scheme, unit) kfun" where
  "put_cell i v =
     kbind (text_at i) (\<lambda>p.
     on_vga (kbind (store p (ucast v)) (\<lambda>_. store (padd p 1) (ucast (drop_bit 8 v)))))"

section \<open>Operations\<close>

definition scroll :: "('a kscreen_scheme, unit) kfun" where
  "scroll =
     kbind (kgets attrib) (\<lambda>att.
     let blank = of_int (push_bit 8 att) :: u16 in
     kbind (kgets csr_y) (\<lambda>y.
     if y \<ge> 25 then
       let temp = of_int (y - 25 + 1) :: u16 in
       kbind (text_at 0) (\<lambda>dst.
       kbind (text_at (uint temp * 80)) (\<lambda>src.
       kbind (on_vga (memcpy dst src (of_int ((25 - uint temp) * 80 * 2)))) (\<lambda>_.
       kbind (text_at ((25 - uint temp) * 80)) (\<lambda>last.
       kbind (on_vga (memset last (ucast blank) (80 * 2))) (\<lambda>_.
       kmodify (\<lambda>s. s\<lparr>csr_y := 25 - 1\<rparr>))))))
     else kreturn ()))"

definition move_csr :: "('a kscreen_scheme, unit) kfun" where
  "move_csr =
     kbind (kgets csr_x) (\<lambda>x. kbind (kgets csr_y) (\<lambda>y.
     let temp = of_int (y * 80 + x) :: u16 in
     outb_seq [(0x3D4, 14), (0x3D5, ucast (drop_bit 8 temp)), (0x3D4, 15), (0x3D5, ucast temp)]))"

definition cls_row :: "u16 \<Rightarrow> nat \<Rightarrow> ('a kscreen_scheme, unit) kfun" where
  "cls_row blank i =
     kbind (text_at (int i * 80)) (\<lambda>p.
     kbind (on_vga (memset p (ucast blank) (80 * 2))) (\<lambda>_. kreturn ()))"

definition sys_cls :: "('a kscreen_scheme, unit) kfun" where
  "sys_cls =
     kbind (kgets attrib) (\<lambda>att.
     let blank = of_int (push_bit 8 att) :: u16 in
     kbind (kfor [0..<25] (cls_row blank)) (\<lambda>_.
     kbind (kmodify (\<lambda>s. s\<lparr>csr_x := 0, csr_y := 0\<rparr>)) (\<lambda>_.
     move_csr)))"

text \<open>The effect of one character, before the cursor is brought back onto the screen.\<close>

definition putch_char :: "u8 \<Rightarrow> ('a kscreen_scheme, unit) kfun" where
  "putch_char c =
     kbind (kgets attrib) (\<lambda>a.
     let att = of_int (push_bit 8 a) :: u16 in
     kbind (kgets csr_x) (\<lambda>x. kbind (kgets csr_y) (\<lambda>y.
     if c = 0x08 then
       kwhen (x \<noteq> 0)
         (kbind (put_cell (y * 80 + x - 1) (0 OR att)) (\<lambda>_. kmodify (\<lambda>s. s\<lparr>csr_x := x - 1\<rparr>)))
     else if c = 0x09 then kmodify (\<lambda>s. s\<lparr>csr_x := (x + 8) AND NOT (8 - 1)\<rparr>)
     else if c = 13 then kmodify (\<lambda>s. s\<lparr>csr_x := 0\<rparr>)
     else if c = 10 then kmodify (\<lambda>s. s\<lparr>csr_x := 0, csr_y := y + 1\<rparr>)
     else if c \<ge> 0x20 then
       kbind (put_cell (y * 80 + x) (ucast c OR att)) (\<lambda>_. kmodify (\<lambda>s. s\<lparr>csr_x := x + 1\<rparr>))
     else kreturn ())))"

definition k_putch :: "u8 \<Rightarrow> ('a kscreen_scheme, unit) kfun" where
  "k_putch c =
     kbind (acquire screen_lock screen_lock_update) (\<lambda>_.
     kbind (putch_char c) (\<lambda>_.
     kbind (kmodify (\<lambda>s. if csr_x s \<ge> 80 then s\<lparr>csr_x := 0, csr_y := csr_y s + 1\<rparr> else s)) (\<lambda>_.
     kbind scroll (\<lambda>_.
     kbind move_csr (\<lambda>_.
     release screen_lock screen_lock_update)))))"

text \<open>The argument of \<^verbatim>\<open>k_puts\<close> is the text in front of its zero byte.\<close>

definition k_puts :: "u8 list \<Rightarrow> ('a kscreen_scheme, unit) kfun" where
  "k_puts txt = kfor txt k_putch"

definition sys_settextcolor :: "u8 \<Rightarrow> u8 \<Rightarrow> ('a kscreen_scheme, unit) kfun" where
  "sys_settextcolor forecolor backcolor =
     kmodify (\<lambda>s. s\<lparr>attrib := push_bit 4 (uint backcolor) OR (uint forecolor AND 0x0F)\<rparr>)"

definition init_video :: "('a kscreen_scheme, unit) kfun" where
  "init_video =
     kbind (kmodify (\<lambda>s. s\<lparr>textmemptr := Some (0, 0)\<rparr>)) (\<lambda>_.
     kbind sys_cls (\<lambda>_.
     kmodify (\<lambda>s. s\<lparr>screen_lock := spin_initlock ''&screen_lock'' (screen_lock s)\<rparr>)))"

section \<open>What the screen routines leave alone\<close>

named_theorems screen_frames \<open>operations that change nothing but the screen and the port log\<close>

definition screen_frame :: "'a kscreen_scheme \<Rightarrow> 'a kscreen_scheme \<Rightarrow> bool" where
  "screen_frame s t \<longleftrightarrow> (\<exists>pl m p x y lk. t =
     s\<lparr>port_log := pl, vga := m, textmemptr := p, csr_x := x, csr_y := y, screen_lock := lk\<rparr>)"

definition on_screen :: "('a kscreen_scheme, 'b) kfun \<Rightarrow> bool" where
  "on_screen f \<longleftrightarrow> (\<forall>s x t. f s = Inr (x, t) \<longrightarrow> screen_frame s t)"

lemma screen_frameI:
  "t = s\<lparr>port_log := port_log t, vga := vga t, textmemptr := textmemptr t, csr_x := csr_x t,
     csr_y := csr_y t, screen_lock := screen_lock t\<rparr> \<Longrightarrow> screen_frame s t"
  unfolding screen_frame_def by blast

lemma screen_frame_refl [simp]: "screen_frame s s"
  by (rule screen_frameI) simp

lemma screen_frame_trans: "screen_frame s t \<Longrightarrow> screen_frame t u \<Longrightarrow> screen_frame s u"
  unfolding screen_frame_def by (elim exE) (simp, blast)

lemma on_screen_kbind [screen_frames]:
  "on_screen m \<Longrightarrow> (\<And>x. on_screen (f x)) \<Longrightarrow> on_screen (kbind m f)"
  unfolding on_screen_def by (blast elim: kbind_InrE intro: screen_frame_trans)

lemma on_screen_simple [screen_frames]:
  "on_screen (kreturn x)" "on_screen (kfail e)" "on_screen (kgets g)"
  by (simp_all add: on_screen_def)

lemma on_screen_if [screen_frames]: "on_screen m \<Longrightarrow> on_screen n \<Longrightarrow> on_screen (if b then m else n)"
  by simp

lemma on_screen_kwhen [screen_frames]: "on_screen m \<Longrightarrow> on_screen (kwhen b m)"
  by (simp add: kwhen_def on_screen_simple)

lemma on_screen_kfor [screen_frames]: "(\<And>x. on_screen (f x)) \<Longrightarrow> on_screen (kfor xs f)"
  by (induction xs) (auto intro: screen_frames)

lemma screen_frame_upd [simp]:
  "screen_frame s (port_log_update f s)" "screen_frame s (vga_update g s)"
  "screen_frame s (textmemptr_update h s)"
  "screen_frame s (csr_x_update i s)" "screen_frame s (csr_y_update i s)"
  "screen_frame s (screen_lock_update j s)"
  by (rule screen_frameI, cases s, simp)+

lemma on_screen_kmodify [screen_frames]: "(\<And>s. screen_frame s (g s)) \<Longrightarrow> on_screen (kmodify g)"
  by (simp add: on_screen_def)

lemma screen_frame_upd2:
  "screen_frame s (s\<lparr>csr_x := x, csr_y := y\<rparr>)"
  by (rule screen_frameI, cases s, simp)

lemma on_screen_on_vga [screen_frames]: "on_screen (on_vga f)"
  by (auto simp: on_screen_def on_vga_def split: sum.splits)

lemma on_screen_outb_seq [screen_frames]: "on_screen (outb_seq ws)"
  by (simp add: on_screen_def)

lemma on_screen_outb [screen_frames]: "on_screen (outb p d)"
  by (simp add: on_screen_def)

lemma on_screen_lock [screen_frames]:
  "on_screen (acquire screen_lock screen_lock_update)" "on_screen (release screen_lock screen_lock_update)"
  by (auto simp: on_screen_def acquire_def release_def split: sum.splits)

lemma on_screen_text_at [screen_frames]: "on_screen (text_at i)"
  by (auto simp: on_screen_def text_at_def kbind_apply split: option.splits if_splits)

lemma on_screen_put_cell [screen_frames]: "on_screen (put_cell i v)"
  by (auto simp: put_cell_def intro!: screen_frames)

lemma on_screen_scroll [screen_frames]: "on_screen scroll"
  by (auto simp: scroll_def Let_def intro!: screen_frames)

lemma on_screen_move_csr [screen_frames]: "on_screen move_csr"
  by (auto simp: move_csr_def Let_def intro!: screen_frames)

lemma on_screen_sys_cls [screen_frames]: "on_screen sys_cls"
  by (auto simp: sys_cls_def cls_row_def Let_def intro!: screen_frames screen_frame_upd2)

lemma on_screen_putch_char [screen_frames]: "on_screen (putch_char c)"
  by (auto simp: putch_char_def Let_def intro!: screen_frames screen_frame_upd2)

lemma on_screen_k_putch [screen_frames]: "on_screen (k_putch c)"
  by (auto simp: k_putch_def intro!: screen_frames screen_frame_upd2)

lemma on_screen_init_video [screen_frames]: "on_screen init_video"
  by (auto simp: init_video_def intro!: screen_frames)

section \<open>The terminal the screen implements\<close>

record terminal =
  tcell :: "nat \<Rightarrow> u16"
  tx :: nat
  ty :: nat
  tatt :: u16

definition term_char :: "u8 \<Rightarrow> terminal \<Rightarrow> terminal" where
  "term_char c t =
     (if c = 0x08 then
        if tx t = 0 then t
        else t\<lparr>tcell := (tcell t)(ty t * 80 + tx t - 1 := tatt t), tx := tx t - 1\<rparr>
      else if c = 0x09 then t\<lparr>tx := 8 * (tx t div 8 + 1)\<rparr>
      else if c = 13 then t\<lparr>tx := 0\<rparr>
      else if c = 10 then t\<lparr>tx := 0, ty := ty t + 1\<rparr>
      else if c \<ge> 0x20 then
        t\<lparr>tcell := (tcell t)(ty t * 80 + tx t := ucast c OR tatt t), tx := tx t + 1\<rparr>
      else t)"

definition term_wrap :: "terminal \<Rightarrow> terminal" where
  "term_wrap t = (if 80 \<le> tx t then t\<lparr>tx := 0, ty := ty t + 1\<rparr> else t)"

definition term_scroll :: "terminal \<Rightarrow> terminal" where
  "term_scroll t =
     (if 25 \<le> ty t then
        t\<lparr>tcell := (\<lambda>i. if i < 24 * 80 then tcell t (i + 80) else 0), ty := 24\<rparr>
      else t)"

definition term_putc :: "u8 \<Rightarrow> terminal \<Rightarrow> terminal" where
  "term_putc c t = term_scroll (term_wrap (term_char c t))"

definition cells :: "bmem \<Rightarrow> nat \<Rightarrow> u16" where
  "cells m i =
     (if i < 2000 then ucast (blk m 0 ! (2 * i)) OR push_bit 8 (ucast (blk m 0 ! (2 * i + 1))) else 0)"

definition screen_term :: "'a kscreen_scheme \<Rightarrow> terminal" where
  "screen_term s = \<lparr>tcell = cells (vga s), tx = nat (csr_x s), ty = nat (csr_y s),
     tatt = of_int (push_bit 8 (attrib s))\<rparr>"

definition vga_ok :: "bmem \<Rightarrow> bool" where
  "vga_ok m \<longleftrightarrow> objects_ok m \<and> 4000 \<le> length (blk m 0)"

definition screen_ok :: "'a kscreen_scheme \<Rightarrow> bool" where
  "screen_ok s \<longleftrightarrow> textmemptr s = Some (0, 0) \<and> vga_ok (vga s) \<and>
     0 \<le> csr_x s \<and> csr_x s < 80 \<and> 0 \<le> csr_y s \<and> csr_y s < 25 \<and> lock_free (screen_lock s)"

lemma cell_bytes: "ucast (ucast v :: u8) OR push_bit 8 (ucast (ucast (drop_bit 8 v) :: u8)) = (v :: u16)"
  by (rule bit_word_eqI) (auto simp: bit_simps)

lemma cells_set:
  assumes "vga_ok m" and "i < 2000"
  shows "cells (set_byte 0 (2 * i + 1) (ucast (drop_bit 8 v)) (set_byte 0 (2 * i) (ucast v) m)) =
    (cells m)(i := v)"
proof
  fix j
  have odd: "2 * j \<noteq> 2 * i + 1" "2 * j + 1 \<noteq> 2 * i" by presburger+
  show "cells (set_byte 0 (2 * i + 1) (ucast (drop_bit 8 v)) (set_byte 0 (2 * i) (ucast v) m)) j =
    ((cells m)(i := v)) j"
    using assms odd cell_bytes [of v]
    by (simp add: cells_def blk_set_byte vga_ok_def nth_list_update)
qed

lemma vga_ok_set_byte [simp]: "vga_ok (set_byte b i v m) = vga_ok m"
  by (simp add: vga_ok_def objects_ok_def)

lemma put_cell_ok:
  assumes "textmemptr s = Some (0, 0)" and "vga_ok (vga s)" and "i < 2000"
  shows "\<exists>m. put_cell (int i) v s = Inr ((), s\<lparr>vga := m\<rparr>) \<and> vga_ok m \<and> cells m = (cells (vga s))(i := v)"
proof -
  let ?m = "set_byte 0 (2 * i + 1) (ucast (drop_bit 8 v)) (set_byte 0 (2 * i) (ucast v) (vga s))"
  have "2 * i + 1 < length (blk (vga s) 0)" using assms by (simp add: vga_ok_def)
  then have "put_cell (int i) v s = Inr ((), s\<lparr>vga := ?m\<rparr>)"
    using assms(1) by (simp add: put_cell_def text_at_def on_vga_def kbind_apply)
  with cells_set [OF assms(2,3)] assms(2) show ?thesis by (intro exI [of _ ?m]) simp
qed

text \<open>One line up: \<^verbatim>\<open>memcpy\<close> of 24 lines, \<^verbatim>\<open>memset\<close> of the last.\<close>

lemma cells_scrolled:
  assumes "vga_ok m"
  defines "m1 \<equiv> copied m (0, 0) (0, 160) {0..<3840}"
  defines "m2 \<equiv> filled m1 (0, 3840) 0 {0..<160}"
  shows "cells m2 = (\<lambda>i. if i < 1920 then cells m (i + 80) else 0)" and "vga_ok m2"
proof -
  have len: "4000 \<le> length (blk m 0)" using assms(1) by (simp add: vga_ok_def)
  have b1: "blk m1 0 ! j = (if j < 3840 then blk m 0 ! (160 + j) else blk m 0 ! j)" if "j < 4000" for j
    using that len unfolding m1_def by simp
  have b2: "blk m2 0 ! j = (if j < 3840 then blk m 0 ! (160 + j) else 0)" if "j < 4000" for j
    using that len b1 [OF that] unfolding m2_def by (auto simp: m1_def simp del: copied.simps)
  show "cells m2 = (\<lambda>i. if i < 1920 then cells m (i + 80) else 0)"
    by (auto simp: cells_def b2 fun_eq_iff add.commute)
  show "vga_ok m2" using assms(1) unfolding vga_ok_def m2_def m1_def by (simp add: objects_ok_def)
qed

lemma scroll_ok:
  assumes "textmemptr s = Some (0, 0)" and "vga_ok (vga s)" and "0 \<le> csr_y s" and "csr_y s \<le> 25"
  shows "\<exists>m. scroll s = Inr ((), if csr_y s = 25 then s\<lparr>vga := m, csr_y := 24\<rparr> else s) \<and>
    vga_ok m \<and> cells m = (\<lambda>i. if i < 1920 then cells (vga s) (i + 80) else 0)"
proof -
  let ?m = "vga s"
  let ?m1 = "copied ?m (0, 0) (0, 160) {0..<3840}"
  let ?m2 = "filled ?m1 (0, 3840) 0 {0..<160}"
  have len: "4000 \<le> length (blk ?m 0)" and obj: "objects_ok ?m" using assms(2) by (simp_all add: vga_ok_def)
  have cpy: "memcpy (0, 0) (0, 160) 3840 ?m = Inr ((0, 0), ?m1)"
    using len memmove_spec [OF obj, of "(0, 0)" "(0, 160)" 3840]
    by (simp add: memcpy_def move_spec_def del: copied.simps)
  have set: "memset (0, 3840) (ucast (of_int (push_bit 8 (attrib s)) :: u16)) 160 ?m1 = Inr ((0, 3840), ?m2)"
  proof -
    have "ucast (ucast (of_int (push_bit 8 (attrib s)) :: u16) :: u32) = (0 :: u8)"
      by (rule bit_word_eqI) (simp add: bit_simps)
    with memset_ok [of ?m1 "(0, 3840)" 160 "ucast (of_int (push_bit 8 (attrib s)) :: u16)"] len
    show ?thesis by (simp del: copied.simps filled.simps)
  qed
  show ?thesis
  proof (cases "csr_y s = 25")
    case True
    then have "scroll s = Inr ((), s\<lparr>vga := ?m2, csr_y := 24\<rparr>)"
      using assms(1) cpy set
      by (simp add: scroll_def kbind_apply text_at_def on_vga_def Let_def del: copied.simps filled.simps)
    with True cells_scrolled [OF assms(2)] show ?thesis
      by (intro exI [of _ ?m2]) (simp del: copied.simps filled.simps)
  next
    case False
    then have "scroll s = Inr ((), s)" using assms(4) by (simp add: scroll_def kbind_apply Let_def)
    with False cells_scrolled [OF assms(2)] show ?thesis
      by (intro exI [of _ ?m2]) (simp del: copied.simps filled.simps)
  qed
qed

definition screen_mid :: "'a kscreen_scheme \<Rightarrow> bool" where
  "screen_mid s \<longleftrightarrow> textmemptr s = Some (0, 0) \<and> vga_ok (vga s) \<and> 0 \<le> csr_x s \<and> csr_x s \<le> 80 \<and>
     0 \<le> csr_y s \<and> csr_y s \<le> 25 \<and> (csr_x s = 80 \<longrightarrow> csr_y s < 25)"

lemma tab_stop:
  fixes x :: int
  assumes "0 \<le> x" and "x < 80"
  shows "(x + 8) AND NOT 7 = 8 * (x div 8 + 1)"
proof -
  have "(x + 8) AND 7 = (x + 8) mod 8"
    using take_bit_eq_mask [of 3 "x + 8"] by (simp add: take_bit_eq_mod mask_eq_exp_minus_1)
  moreover have "(x + 8) = ((x + 8) AND NOT 7) + ((x + 8) AND 7)"
    by (subst disjunctive_add) (auto simp: bit_simps bit.conj_disj_distrib [symmetric])
  ultimately have "(x + 8) AND NOT 7 = x + 8 - x mod 8" by simp
  also have "\<dots> = 8 * (x div 8 + 1)" by (simp add: minus_mod_eq_mult_div [symmetric])
  finally show ?thesis .
qed

lemma putch_char_ok:
  assumes ok: "textmemptr s = Some (0, 0)" "vga_ok (vga s)" "0 \<le> csr_x s" "csr_x s < 80" "0 \<le> csr_y s" "csr_y s < 25"
  shows "\<exists>t. putch_char c s = Inr ((), t) \<and> screen_mid t \<and> screen_term t = term_char c (screen_term s) \<and>
    screen_lock t = screen_lock s \<and> cur_cpu t = cur_cpu s"
proof -
  let ?x = "nat (csr_x s)" and ?y = "nat (csr_y s)"
  have xy: "csr_y s * 80 + csr_x s = int (?y * 80 + ?x)" "?y * 80 + ?x < 2000" using ok by simp_all
  note defs = putch_char_def kbind_apply kwhen_apply Let_def term_char_def screen_term_def screen_mid_def
  consider (bs) "c = 8" "csr_x s \<noteq> 0" | (stay) "c = 8" "csr_x s = 0" | (tab) "c = 9"
    | (ret) "c = 13" | (nl) "c = 10" | (char) "c \<ge> 0x20" "c \<noteq> 8" "c \<noteq> 9" "c \<noteq> 10" "c \<noteq> 13"
    | (none) "\<not> c \<ge> 0x20" "c \<noteq> 8" "c \<noteq> 9" "c \<noteq> 10" "c \<noteq> 13" by blast
  then show ?thesis
  proof cases
    case bs
    then have i: "csr_y s * 80 + csr_x s - 1 = int (?y * 80 + ?x - 1)" "?y * 80 + ?x - 1 < 2000" using ok by auto
    from put_cell_ok [OF ok(1,2) i(2), of "of_int (push_bit 8 (attrib s))"] obtain m where
      "put_cell (csr_y s * 80 + csr_x s - 1) (of_int (push_bit 8 (attrib s))) s = Inr ((), s\<lparr>vga := m\<rparr>)"
      "vga_ok m" "cells m = (cells (vga s))(?y * 80 + ?x - 1 := of_int (push_bit 8 (attrib s)))"
      unfolding i(1) by blast
    then show ?thesis using ok bs by (auto simp: defs nat_diff_distrib)
  next
    case char
    from put_cell_ok [OF ok(1,2) xy(2), of "ucast c OR of_int (push_bit 8 (attrib s))"] obtain m where
      "put_cell (csr_y s * 80 + csr_x s) (ucast c OR of_int (push_bit 8 (attrib s))) s = Inr ((), s\<lparr>vga := m\<rparr>)"
      "vga_ok m" "cells m = (cells (vga s))(?y * 80 + ?x := ucast c OR of_int (push_bit 8 (attrib s)))"
      unfolding xy(1) by blast
    then show ?thesis using ok char by (auto simp: defs nat_add_distrib)
  next
    case tab
    have "csr_x s div 8 \<le> 9" using ok by simp
    moreover have "0 \<le> csr_x s div 8" using ok by simp
    moreover from this have "nat (8 * (csr_x s div 8 + 1)) = 8 * (?x div 8 + 1)" using ok
      by (simp add: nat_mult_distrib nat_add_distrib nat_div_distrib)
    ultimately show ?thesis using ok tab tab_stop [OF ok(3,4)] by (simp add: defs)
  qed (use ok in \<open>auto simp: defs nat_add_distrib\<close>)
qed


lemma screen_term_lock [simp]: "screen_term (s\<lparr>screen_lock := l\<rparr>) = screen_term s"
  "screen_term (s\<lparr>port_log := pl\<rparr>) = screen_term s"
  by (simp_all add: screen_term_def)

text \<open>Wrapping, scrolling and the hardware cursor.\<close>

definition putch_rest :: "('a kscreen_scheme, unit) kfun" where
  "putch_rest =
     kbind (kmodify (\<lambda>s. if csr_x s \<ge> 80 then s\<lparr>csr_x := 0, csr_y := csr_y s + 1\<rparr> else s)) (\<lambda>_.
     kbind scroll (\<lambda>_. move_csr))"

lemma putch_rest_ok:
  assumes "screen_mid s"
  shows "\<exists>t. putch_rest s = Inr ((), t) \<and> textmemptr t = Some (0, 0) \<and> vga_ok (vga t) \<and> 0 \<le> csr_x t \<and>
    csr_x t < 80 \<and> 0 \<le> csr_y t \<and> csr_y t < 25 \<and> screen_term t = term_scroll (term_wrap (screen_term s)) \<and>
    screen_lock t = screen_lock s \<and> cur_cpu t = cur_cpu s"
proof -
  define s1 where "s1 = (if csr_x s \<ge> 80 then s\<lparr>csr_x := 0, csr_y := csr_y s + 1\<rparr> else s)"
  have i1: "textmemptr s1 = Some (0, 0)" "vga_ok (vga s1)" "0 \<le> csr_y s1" "csr_y s1 \<le> 25"
    "0 \<le> csr_x s1" "csr_x s1 < 80" "screen_lock s1 = screen_lock s" "cur_cpu s1 = cur_cpu s"
    using assms by (auto simp: screen_mid_def s1_def)
  have w: "screen_term s1 = term_wrap (screen_term s)"
    using assms by (auto simp: screen_term_def term_wrap_def screen_mid_def s1_def nat_add_distrib nat_le_iff)
  from scroll_ok [OF i1(1-4)] obtain m where
    m: "scroll s1 = Inr ((), if csr_y s1 = 25 then s1\<lparr>vga := m, csr_y := 24\<rparr> else s1)" "vga_ok m"
      "cells m = (\<lambda>i. if i < 1920 then cells (vga s1) (i + 80) else 0)" by blast
  define s2 where "s2 = (if csr_y s1 = 25 then s1\<lparr>vga := m, csr_y := 24\<rparr> else s1)"
  have i2: "textmemptr s2 = Some (0, 0) \<and> vga_ok (vga s2) \<and> 0 \<le> csr_x s2 \<and> csr_x s2 < 80 \<and>
      0 \<le> csr_y s2 \<and> csr_y s2 < 25 \<and> screen_lock s2 = screen_lock s \<and> cur_cpu s2 = cur_cpu s"
    using i1 m(2) by (auto simp: s2_def)
  have sc: "screen_term s2 = term_scroll (screen_term s1)"
    using i1(3,4) m(3) by (auto simp: screen_term_def term_scroll_def nat_le_iff s2_def)
  have "putch_rest s = move_csr s2"
    using m(1) by (simp add: putch_rest_def kbind_apply s1_def [symmetric] s2_def [symmetric] split del: if_split)
  then obtain pl where "putch_rest s = Inr ((), s2\<lparr>port_log := pl\<rparr>)"
    by (simp add: move_csr_def kbind_apply Let_def)
  with i2 sc w show ?thesis by (intro exI [of _ "s2\<lparr>port_log := pl\<rparr>"]) simp
qed

lemma k_putch_rest:
  "k_putch c = kbind (acquire screen_lock screen_lock_update) (\<lambda>_. kbind (kbind (putch_char c) (\<lambda>_. putch_rest))
     (\<lambda>x. kbind (release screen_lock screen_lock_update) (\<lambda>_. kreturn x)))"
  by (rule ext) (auto simp: k_putch_def putch_rest_def kbind_def kreturn_def split: sum.splits)

interpretation screen_lk: lock_field screen_lock screen_lock_update
  by unfold_locales simp_all

lemma k_putch_ok:
  assumes "screen_ok s"
  shows "\<exists>t. k_putch c s = Inr ((), t) \<and> screen_ok t \<and> screen_term t = term_putc c (screen_term s)"
proof -
  note ok = assms [unfolded screen_ok_def]
  let ?P = "\<lambda>_ t. textmemptr t = Some (0, 0) \<and> vga_ok (vga t) \<and> 0 \<le> csr_x t \<and> csr_x t < 80 \<and>
    0 \<le> csr_y t \<and> csr_y t < 25 \<and> screen_term t = term_putc c (screen_term s)"
  have "\<exists>x s' lk. k_putch c s = Inr (x, s'\<lparr>screen_lock := lk\<rparr>) \<and> lock_free lk \<and> ?P x s'"
    unfolding k_putch_rest
  proof (rule screen_lk.critical_section [where P = ?P])
    show "lock_free (screen_lock s)" using ok by blast
  next
    fix lk
    let ?s = "s\<lparr>screen_lock := lk\<rparr>"
    from putch_char_ok [of ?s c] ok obtain t where
      t: "putch_char c ?s = Inr ((), t)" "screen_mid t" "screen_term t = term_char c (screen_term s)"
        "screen_lock t = lk" "cur_cpu t = cur_cpu s" by auto
    from putch_rest_ok [OF t(2)] obtain u where u: "putch_rest t = Inr ((), u)" "?P () u" "screen_lock u = lk"
      "cur_cpu u = cur_cpu s" using t by (auto simp: term_putc_def)
    from t(1) u(1) have "kbind (putch_char c) (\<lambda>_. putch_rest) ?s = Inr ((), u)" by simp
    with u show "\<exists>x s'. kbind (putch_char c) (\<lambda>_. putch_rest) (screen_lock_update (\<lambda>_. lk) s) = Inr (x, s') \<and>
      screen_lock s' = lk \<and> cur_cpu s' = cur_cpu s \<and> ?P x s'" by blast
  qed
  then show ?thesis by (auto simp: screen_ok_def)
qed

lemma putch_all_ok:
  "screen_ok s \<Longrightarrow> \<exists>t. kfor cs k_putch s = Inr ((), t) \<and> screen_ok t \<and>
    screen_term t = fold term_putc cs (screen_term s)"
proof (induction cs arbitrary: s)
  case (Cons c cs)
  from k_putch_ok [OF Cons.prems, of c] obtain t where
    t: "k_putch c s = Inr ((), t)" "screen_ok t" "screen_term t = term_putc c (screen_term s)" by blast
  from Cons.IH [OF t(2)] t(1,3) show ?case by simp
qed simp

text \<open>Clearing the screen.\<close>

lemma cls_rows:
  assumes "textmemptr s = Some (0, 0)" and "vga_ok (vga s)" and "n \<le> 25"
  shows "\<exists>m. kfor [0..<n] (cls_row (of_int (push_bit 8 a))) s = Inr ((), s\<lparr>vga := m\<rparr>) \<and> vga_ok m \<and> (\<forall>j < 160 * n. blk m 0 ! j = 0)"
  using assms(3)
proof (induction n)
  case 0
  then show ?case using assms by (intro exI [of _ "vga s"]) simp
next
  case (Suc n)
  let ?body = "cls_row (of_int (push_bit 8 a))"
  from Suc.prems have "n \<le> 25" by simp
  from Suc.IH [OF this] obtain m where m: "kfor [0..<n] ?body s = Inr ((), s\<lparr>vga := m\<rparr>)" "vga_ok m"
    "\<forall>j < 160 * n. blk m 0 ! j = 0" by blast
  let ?m = "filled m (0, 160 * n) 0 {0..<160}"
  have len: "160 * n + 160 \<le> length (blk m 0)" using m(2) Suc.prems by (simp add: vga_ok_def)
  have "ucast (ucast (of_int (push_bit 8 a) :: u16) :: u32) = (0 :: u8)"
    by (rule bit_word_eqI) (simp add: bit_simps)
  with memset_ok [of m "(0, 160 * n)" 160 "ucast (of_int (push_bit 8 a) :: u16)"] len
  have set: "memset (0, 160 * n) (ucast (of_int (push_bit 8 a) :: u16)) 160 m = Inr ((0, 160 * n), ?m)"
    by (simp del: filled.simps)
  have "2 * (nat (int n * 80)) = 160 * n" by simp
  then have "?body n (s\<lparr>vga := m\<rparr>) = Inr ((), s\<lparr>vga := ?m\<rparr>)"
    using assms(1) set by (simp add: cls_row_def kbind_apply text_at_def on_vga_def del: filled.simps)
  moreover have "vga_ok ?m" using m(2) by (simp add: vga_ok_def objects_ok_def)
  moreover have "blk ?m 0 ! j = 0" if "j < 160 * Suc n" for j
    using that m(3) len by (cases "j < 160 * n") auto
  ultimately show ?case using m(1)
    by (intro exI [of _ ?m]) (simp add: kfor_append del: filled.simps)
qed

lemma sys_cls_ok:
  assumes "textmemptr s = Some (0, 0)" and "vga_ok (vga s)"
  shows "\<exists>m pl. sys_cls s = Inr ((), s\<lparr>vga := m, csr_x := 0, csr_y := 0, port_log := pl\<rparr>) \<and> vga_ok m \<and>
    cells m = (\<lambda>_. 0)"
proof -
  from cls_rows [OF assms, of 25 "attrib s"] obtain m where
    m: "kfor [0..<25] (cls_row (of_int (push_bit 8 (attrib s)))) s = Inr ((), s\<lparr>vga := m\<rparr>)" "vga_ok m" "\<forall>j < 4000. blk m 0 ! j = 0" by auto
  have "cells m = (\<lambda>_. 0)" using m(3) by (auto simp: cells_def)
  with m(1,2) show ?thesis
    by (intro exI [of _ m]) (simp add: sys_cls_def kbind_apply move_csr_def Let_def del: upt_rec_numeral, blast)
qed

lemma init_video_ok:
  assumes "vga_ok (vga s)"
  shows "\<exists>t. init_video s = Inr ((), t) \<and> screen_ok t \<and> screen_frame s t \<and>
    screen_term t = \<lparr>tcell = (\<lambda>_. 0), tx = 0, ty = 0, tatt = of_int (push_bit 8 (attrib s))\<rparr>"
proof -
  from sys_cls_ok [of "s\<lparr>textmemptr := Some (0, 0)\<rparr>"] assms obtain m pl where
    m: "sys_cls (s\<lparr>textmemptr := Some (0, 0)\<rparr>) = Inr ((), s\<lparr>textmemptr := Some (0, 0), vga := m, csr_x := 0,
      csr_y := 0, port_log := pl\<rparr>)" "vga_ok m" "cells m = (\<lambda>_. 0)" by auto
  then have run: "init_video s = Inr ((), s\<lparr>textmemptr := Some (0, 0), vga := m, csr_x := 0,
      csr_y := 0, port_log := pl, screen_lock := spin_initlock ''&screen_lock'' (screen_lock s)\<rparr>)" (is "_ = Inr ((), ?t)")
    by (simp add: init_video_def)
  moreover have "screen_frame s ?t" using run on_screen_init_video unfolding on_screen_def by blast
  ultimately show ?thesis using m by (auto simp: screen_ok_def screen_term_def)
qed

section \<open>Properties\<close>

definition demo_screen :: kscreen where
  "demo_screen = \<lparr>cur_cpu = 0, ebp = 0, stack_word = (\<lambda>_. 0), port_log = [], irq_mask_8259A = 0xFFFB,
     didinit = False, vga = \<lparr>blk = (\<lambda>b. if b = 0 then replicate 4000 7 else []), bbase = (\<lambda>_. 0xB8000)\<rparr>,
     textmemptr = Some (0, 0), attrib = 0x0F, csr_x = 79, csr_y = 24,
     screen_lock = \<lparr>locked = 0, lk_name = '''', lk_cpu = None, pcs = replicate 10 0\<rparr>\<rparr>"

text \<open>
  C33. Writing any text with \<^verbatim>\<open>k_putch\<close> (\<^verbatim>\<open>kernel/screen.c\<close>) returns, leaves the lock free and the
  cursor on the screen, and shows exactly what a terminal of 25 rows and 80 columns shows: wrapping
  at the right margin, tab stops every eight columns, and scrolling by one line at the bottom.
\<close>
theorem k_putch_terminal:
  assumes "screen_ok s"
  shows "\<exists>t. kfor cs k_putch s = Inr ((), t) \<and> screen_ok t \<and> screen_frame s t \<and>
    screen_term t = fold term_putc cs (screen_term s)"
proof -
  have "on_screen (kfor cs k_putch)" by (intro screen_frames)
  then show ?thesis using putch_all_ok [OF assms, of cs] unfolding on_screen_def by blast
qed

theorem k_putch_terminal_witness:
  "screen_ok demo_screen \<and> tcell (screen_term demo_screen) 1999 = 0x0707 \<and>
   (\<exists>t. kfor [65, 66] k_putch demo_screen = Inr ((), t) \<and> screen_ok t \<and> csr_x t = 1 \<and> csr_y t = 24 \<and>
     tcell (screen_term t) 1919 = 0x0F41 \<and> tcell (screen_term t) 1920 = 0x0F42 \<and> tcell (screen_term t) 1921 = 0)"
proof -
  have ok: "screen_ok demo_screen"
    by (simp add: screen_ok_def demo_screen_def vga_ok_def objects_ok_def lock_free_def)
  have c: "cells (vga demo_screen) i = (if i < 2000 then 0x0707 else 0)" for i
    by (simp add: cells_def demo_screen_def)
  have t0: "screen_term demo_screen = \<lparr>tcell = (\<lambda>i. if i < 2000 then 0x0707 else 0), tx = 79, ty = 24, tatt = 0x0F00\<rparr>"
    using c by (simp add: screen_term_def fun_eq_iff) (simp add: demo_screen_def)
  from k_putch_terminal [OF ok, of "[65, 66]"] obtain t where
    t: "kfor [65, 66] k_putch demo_screen = Inr ((), t)" "screen_ok t"
      "screen_term t = fold term_putc [65, 66] (screen_term demo_screen)" by blast
  have f: "fold term_putc [65, 66] (screen_term demo_screen) = \<lparr>tcell = (\<lambda>i. if i < 1920 then
      (if i + 80 = 1999 then 0x0F41 else if i + 80 < 2000 then 0x0707 else 0) else 0)(1920 := 0x0F42), tx = 1, ty = 24, tatt = 0x0F00\<rparr>"
    unfolding t0 by (simp add: term_putc_def term_char_def term_wrap_def term_scroll_def fun_eq_iff)
  have "nat (csr_x t) = 1" "nat (csr_y t) = 24"
    using t(3) unfolding f by (simp_all add: screen_term_def)
  then have "csr_x t = 1" "csr_y t = 24" by simp_all
  with ok t t0 f show ?thesis by auto
qed

end
