(* ===== verification/Printfmt.thy ===== *)
theory Printfmt
  imports Screen
begin

text \<open>
  Formatted output: the formatter (\<^verbatim>\<open>lib/printfmt.c\<close>), the kernel's \<^verbatim>\<open>printk\<close> (\<^verbatim>\<open>kernel/printf.c\<close>) and the
  buffered user-mode \<^verbatim>\<open>cprintf\<close> (\<^verbatim>\<open>lib/printf.c\<close>). A format string is the list of its bytes in front of
  the terminating zero. A variable argument is a 32-bit word of the stack or a pointer to a string;
  a \<^verbatim>\<open>long long\<close> takes two words. Fetching an argument that is not there, or not of the kind asked
  for, is the fault \<open>BadIndex\<close>.
\<close>

section \<open>Arguments\<close>

datatype va = VW u32 | VS "u8 list option"

definition ksum :: "kfault + 'b \<Rightarrow> ('s, 'b) kfun" where
  "ksum r = (\<lambda>s. case r of Inl e \<Rightarrow> Inl e | Inr x \<Rightarrow> Inr (x, s))"

fun va_word :: "va list \<Rightarrow> kfault + (u32 \<times> va list)" where
  "va_word (VW w # ap) = Inr (w, ap)"
| "va_word _ = Inl BadIndex"

fun va_string :: "va list \<Rightarrow> kfault + (u8 list option \<times> va list)" where
  "va_string (VS p # ap) = Inr (p, ap)"
| "va_string _ = Inl BadIndex"

fun va_long_long :: "va list \<Rightarrow> kfault + (u64 \<times> va list)" where
  "va_long_long (VW lo # VW hi # ap) = Inr (ucast lo OR push_bit 32 (ucast hi), ap)"
| "va_long_long _ = Inl BadIndex"

definition getuint :: "va list \<Rightarrow> int \<Rightarrow> kfault + (u64 \<times> va list)" where
  "getuint ap lflag =
     (if lflag \<ge> 2 then va_long_long ap
      else case va_word ap of Inl e \<Rightarrow> Inl e | Inr (w, ap) \<Rightarrow> Inr (ucast w, ap))"

definition getint :: "va list \<Rightarrow> int \<Rightarrow> kfault + (u64 \<times> va list)" where
  "getint ap lflag =
     (if lflag \<ge> 2 then va_long_long ap
      else case va_word ap of Inl e \<Rightarrow> Inl e | Inr (w, ap) \<Rightarrow> Inr (scast w, ap))"

section \<open>Numbers\<close>

definition digits16 :: string where
  "digits16 = ''0123456789abcdef''"

text \<open>
  The recursion prints the more significant digits first. A base of zero divides by zero and a
  base of one recurs without end.
\<close>

function printnum :: "(int \<Rightarrow> ('s, unit) kfun) \<Rightarrow> nat \<Rightarrow> nat \<Rightarrow> int \<Rightarrow> int \<Rightarrow> ('s, unit) kfun" where
  "printnum putch num base width padc =
     (if base = 0 then kfail DivideError
      else if base = 1 \<and> 1 \<le> num then kfail Hang
      else
        kbind (if base \<le> num then printnum putch (num div base) base (width - 1) padc
               else kfor (replicate (nat (width - 1)) padc) putch) (\<lambda>_.
        if num mod base < length digits16 then putch (of_char (digits16 ! (num mod base)))
        else kfail BadIndex))"
  by pat_completeness auto
termination by (relation "measure (\<lambda>(putch, num, base, width, padc). num)") auto

section \<open>Escape sequences\<close>

record fflags =
  padc :: u8
  width :: int
  precision :: int
  lflag :: int
  altflag :: bool

definition fflags_init :: fflags where
  "fflags_init = \<lparr>padc = 0x20, width = - 1, precision = - 1, lflag = 0, altflag = False\<rparr>"

fun fmt_digits :: "int \<Rightarrow> u8 list \<Rightarrow> int \<times> u8 list" where
  "fmt_digits p [] = (p, [])"
| "fmt_digits p (c # cs) =
     (if 0x30 \<le> c \<and> c \<le> 0x39 then fmt_digits (p * 10 + uint c - 0x30) cs else (p, c # cs))"

definition process_precision :: "fflags \<Rightarrow> fflags" where
  "process_precision f = (if width f < 0 then f\<lparr>width := precision f, precision := - 1\<rparr> else f)"

lemma fmt_digits_length: "length (snd (fmt_digits p cs)) \<le> length cs"
  by (induction p cs rule: fmt_digits.induct) (auto simp: le_SucI)

text \<open>
  \<^verbatim>\<open>reswitch\<close>: the flags up to the character that says what to convert, that character (zero at the
  end of the string), the rest of the string and the remaining arguments.
\<close>

function reswitch :: "fflags \<Rightarrow> u8 list \<Rightarrow> va list \<Rightarrow> kfault + (fflags \<times> u8 \<times> u8 list \<times> va list)" where
  "reswitch f [] ap = Inr (f, 0, [], ap)"
| "reswitch f (c # cs) ap =
     (if c = 0x2D then reswitch (f\<lparr>padc := 0x2D\<rparr>) cs ap
      else if c = 0x30 then reswitch (f\<lparr>padc := 0x30\<rparr>) cs ap
      else if 0x31 \<le> c \<and> c \<le> 0x39 then
        reswitch (process_precision (f\<lparr>precision := fst (fmt_digits (uint c - 0x30) cs)\<rparr>))
          (snd (fmt_digits (uint c - 0x30) cs)) ap
      else if c = 0x2A then
        (case va_word ap of Inl e \<Rightarrow> Inl e
         | Inr (w, ap') \<Rightarrow> reswitch (process_precision (f\<lparr>precision := sint w\<rparr>)) cs ap')
      else if c = 0x2E then reswitch (if width f < 0 then f\<lparr>width := 0\<rparr> else f) cs ap
      else if c = 0x23 then reswitch (f\<lparr>altflag := True\<rparr>) cs ap
      else if c = 0x6C then reswitch (f\<lparr>lflag := lflag f + 1\<rparr>) cs ap
      else Inr (f, c, cs, ap))"
  by pat_completeness auto
termination
  by (relation "measure (\<lambda>(f, cs, ap). length cs)") (auto simp: le_imp_less_Suc fmt_digits_length)

lemma reswitch_length: "reswitch f cs ap = Inr (f', c, rest, ap') \<Longrightarrow> length rest \<le> length cs"
proof (induction f cs ap rule: reswitch.induct)
  case (2 f c cs ap)
  have *: "length (snd (fmt_digits p cs)) \<le> length cs" for p by (rule fmt_digits_length)
  show ?case using 2
    by (auto split: if_splits sum.splits intro: le_SucI order_trans [OF _ *])
qed simp

section \<open>Conversions\<close>

definition str :: "string \<Rightarrow> u8 list" where
  "str = map of_char"

definition MAXERROR :: int where "MAXERROR = 9"

definition error_string :: "string option list" where
  "error_string =
     [None, Some ''unspecified error'', Some ''bad environment'', Some ''invalid parameter'',
      Some ''out of memory'', Some ''out of environments'', Some ''segmentation fault'',
      Some ''env is not recving'', Some ''unexpected end of file'']"

text \<open>The loop over the characters of a string; it returns the width that is left.\<close>

fun fmt_str_loop :: "(int \<Rightarrow> ('s, unit) kfun) \<Rightarrow> bool \<Rightarrow> u8 list \<Rightarrow> int \<Rightarrow> int \<Rightarrow> ('s, int) kfun" where
  "fmt_str_loop putch alt [] prec w = kreturn w"
| "fmt_str_loop putch alt (c # cs) prec w =
     (if prec < 0 \<or> prec - 1 \<ge> 0 then
        kbind (if alt \<and> (sint c < 0x20 \<or> sint c > 0x7E) then putch 0x3F else putch (sint c)) (\<lambda>_.
        fmt_str_loop putch alt cs (if prec < 0 then prec else prec - 1) (w - 1))
      else kreturn w)"

definition fmt_strnlen :: "u8 list \<Rightarrow> int \<Rightarrow> int" where
  "fmt_strnlen p prec = int (min (unat (of_int prec :: u32)) (length p))"

definition fmt_string :: "(int \<Rightarrow> ('s, unit) kfun) \<Rightarrow> fflags \<Rightarrow> u8 list \<Rightarrow> ('s, unit) kfun" where
  "fmt_string putch f p =
     (let pad = width f > 0 \<and> padc f \<noteq> 0x2D;
          w = (if pad then width f - fmt_strnlen p (precision f) else width f) in
      kbind (kwhen pad (kfor (replicate (nat w) (uint (padc f))) putch)) (\<lambda>_.
      kbind (fmt_str_loop putch (altflag f) p (precision f) (if pad then min w 0 else w)) (\<lambda>w.
      kfor (replicate (nat w) 0x20) putch)))"

text \<open>
  One conversion. \<open>pf\<close> stands for the nested call of \<^verbatim>\<open>printfmt\<close> in the case of an error number. The
  result is the remaining arguments, or nothing for a character that is no conversion: then a
  percent sign has been printed and the text behind it is to be printed literally.
\<close>

definition fmt_number ::
  "(int \<Rightarrow> ('s, unit) kfun) \<Rightarrow> fflags \<Rightarrow> u64 \<Rightarrow> nat \<Rightarrow> va list \<Rightarrow> ('s, va list option) kfun" where
  "fmt_number putch f num base ap =
     kbind (printnum putch (unat num) base (width f) (uint (padc f))) (\<lambda>_. kreturn (Some ap))"

definition fmt_error ::
  "(u8 list \<Rightarrow> va list \<Rightarrow> ('s, unit) kfun) \<Rightarrow> u32 \<Rightarrow> ('s, unit) kfun" where
  "fmt_error pf e =
     (let err = sint (if sint e < 0 then - e else e) in
      if err \<ge> MAXERROR then pf (str ''error %d'') [VW (of_int err)]
      else if err < 0 then kfail BadIndex
      else case error_string ! nat err of
             None \<Rightarrow> pf (str ''error %d'') [VW (of_int err)]
           | Some p \<Rightarrow> pf (str ''%s'') [VS (Some (str p))])"

definition convert ::
  "(u8 list \<Rightarrow> va list \<Rightarrow> ('s, unit) kfun) \<Rightarrow> (int \<Rightarrow> ('s, unit) kfun) \<Rightarrow> fflags \<Rightarrow> u8 \<Rightarrow> va list \<Rightarrow>
   ('s, va list option) kfun" where
  "convert pf putch f ch ap =
     (if ch = 0x63 then
        kbind (ksum (va_word ap)) (\<lambda>(w, ap). kbind (putch (sint w)) (\<lambda>_. kreturn (Some ap)))
      else if ch = 0x65 then
        kbind (ksum (va_word ap)) (\<lambda>(w, ap). kbind (fmt_error pf w) (\<lambda>_. kreturn (Some ap)))
      else if ch = 0x73 then
        kbind (ksum (va_string ap)) (\<lambda>(p, ap).
        kbind (fmt_string putch f (case p of None \<Rightarrow> str ''(null)'' | Some p \<Rightarrow> p)) (\<lambda>_.
        kreturn (Some ap)))
      else if ch = 0x64 then
        kbind (ksum (getint ap (lflag f))) (\<lambda>(num, ap).
        kbind (kwhen (sint num < 0) (putch 0x2D)) (\<lambda>_.
        fmt_number putch f (if sint num < 0 then - num else num) 10 ap))
      else if ch = 0x75 then
        kbind (ksum (getuint ap (lflag f))) (\<lambda>(num, ap). fmt_number putch f num 10 ap)
      else if ch = 0x6F then
        kbind (kfor [0x58, 0x58, 0x58] putch) (\<lambda>_. kreturn (Some ap))
      else if ch = 0x70 then
        kbind (kfor [0x30, 0x78] putch) (\<lambda>_.
        kbind (ksum (va_word ap)) (\<lambda>(w, ap). fmt_number putch f (ucast w) 16 ap))
      else if ch = 0x78 then
        kbind (ksum (getuint ap (lflag f))) (\<lambda>(num, ap). fmt_number putch f num 16 ap)
      else if ch = 0x25 then kbind (putch (uint ch)) (\<lambda>_. kreturn (Some ap))
      else kbind (putch 0x25) (\<lambda>_. kreturn None))"

text \<open>
  The main loop. The first argument bounds the nesting of \<^verbatim>\<open>printfmt\<close> calls, which are made for
  error numbers only and whose formats contain none, so that one level is enough.
\<close>

function vprintfmt_loop ::
  "nat \<Rightarrow> (int \<Rightarrow> ('s, unit) kfun) \<Rightarrow> u8 list \<Rightarrow> va list \<Rightarrow> ('s, unit) kfun" where
  "vprintfmt_loop d putch [] ap = kreturn ()"
| "vprintfmt_loop d putch (c # cs) ap =
     (if c \<noteq> 0x25 then kbind (putch (uint c)) (\<lambda>_. vprintfmt_loop d putch cs ap)
      else case reswitch fflags_init cs ap of
        Inl e \<Rightarrow> kfail e
      | Inr (f, ch, rest, ap') \<Rightarrow>
          kbind (convert (case d of 0 \<Rightarrow> (\<lambda>_ _. kfail Hang) | Suc d' \<Rightarrow> vprintfmt_loop d' putch) putch f ch ap')
            (\<lambda>r. case r of Some ap'' \<Rightarrow> vprintfmt_loop d putch rest ap''
                  | None \<Rightarrow> vprintfmt_loop d putch cs ap'))"
  by pat_completeness auto
termination
  by (relation "measures [\<lambda>(d, putch, cs, ap). d, \<lambda>(d, putch, cs, ap). length cs]")
    (auto dest: reswitch_length)

definition vprintfmt :: "(int \<Rightarrow> ('s, unit) kfun) \<Rightarrow> u8 list \<Rightarrow> va list \<Rightarrow> ('s, unit) kfun" where
  "vprintfmt = vprintfmt_loop 1"

definition printfmt :: "(int \<Rightarrow> ('s, unit) kfun) \<Rightarrow> u8 list \<Rightarrow> va list \<Rightarrow> ('s, unit) kfun" where
  "printfmt putch fmt ap = vprintfmt putch fmt ap"

section \<open>Printing into a buffer\<close>

definition E_INVAL :: int where "E_INVAL = 3"

record sprintbuf =
  sb_buf :: ptr
  sb_ebuf :: ptr
  sb_cnt :: int

definition sprintputch :: "int \<Rightarrow> (bmem \<times> sprintbuf, unit) kfun" where
  "sprintputch ch = (\<lambda>(m, b).
     let b = b\<lparr>sb_cnt := sb_cnt b + 1\<rparr> in
     if ptr_addr m (sb_buf b) < ptr_addr m (sb_ebuf b) then
       case store (sb_buf b) (of_int ch) m of
         Inl e \<Rightarrow> Inl e
       | Inr (_, m') \<Rightarrow> Inr ((), m', b\<lparr>sb_buf := padd (sb_buf b) 1\<rparr>)
     else Inr ((), m, b))"

definition vsnprintf :: "ptr option \<Rightarrow> int \<Rightarrow> u8 list \<Rightarrow> va list \<Rightarrow> (bmem, int) kfun" where
  "vsnprintf buf n fmt ap = (\<lambda>m.
     case buf of
       None \<Rightarrow> Inr (- E_INVAL, m)
     | Some p \<Rightarrow>
         if n < 1 then Inr (- E_INVAL, m)
         else
           case vprintfmt sprintputch fmt ap
                  (m, \<lparr>sb_buf = p, sb_ebuf = padd p (nat (n - 1)), sb_cnt = 0\<rparr>) of
             Inl e \<Rightarrow> Inl e
           | Inr (_, m', b) \<Rightarrow> kbind (store (sb_buf b) 0) (\<lambda>_. kreturn (sb_cnt b)) m')"

definition snprintf :: "ptr option \<Rightarrow> int \<Rightarrow> u8 list \<Rightarrow> va list \<Rightarrow> (bmem, int) kfun" where
  "snprintf buf n fmt ap = vsnprintf buf n fmt ap"

section \<open>Printing on the console\<close>

definition kputch :: "int \<Rightarrow> ('a kscreen_scheme \<times> int, unit) kfun" where
  "kputch ch = (\<lambda>(s, cnt).
     case k_putch (of_int ch) s of Inl e \<Rightarrow> Inl e | Inr (_, s') \<Rightarrow> Inr ((), s', cnt + 1))"

definition vprintk :: "u8 list \<Rightarrow> va list \<Rightarrow> ('a kscreen_scheme, int) kfun" where
  "vprintk fmt ap = (\<lambda>s.
     case vprintfmt kputch fmt ap (s, 0) of Inl e \<Rightarrow> Inl e | Inr (_, s', cnt) \<Rightarrow> Inr (cnt, s'))"

definition printk :: "string \<Rightarrow> va list \<Rightarrow> ('a kscreen_scheme, int) kfun" where
  "printk fmt ap = vprintk (str fmt) ap"

definition nl :: string where "nl = [CHR 0x0A]"

definition warn :: "string \<Rightarrow> u32 \<Rightarrow> string \<Rightarrow> va list \<Rightarrow> ('a kscreen_scheme, unit) kfun" where
  "warn file line fmt ap =
     kbind (printk ''kernel warning at %s:%d: '' [VS (Some (str file)), VW line]) (\<lambda>_.
     kbind (vprintk (str fmt) ap) (\<lambda>_.
     kbind (printk nl []) (\<lambda>_. kreturn ())))"

section \<open>Printing from a user program\<close>

text \<open>\<open>puts\<close> is the system call that writes the bytes it is given.\<close>

record printbuf =
  pb_idx :: nat
  pb_cnt :: int
  pb_buf :: "u8 list"

definition uputch :: "(u8 list \<Rightarrow> ('u, unit) kfun) \<Rightarrow> int \<Rightarrow> ('u \<times> printbuf, unit) kfun" where
  "uputch puts ch = (\<lambda>(u, b).
     if pb_idx b < length (pb_buf b) then
       let b1 = b\<lparr>pb_buf := (pb_buf b)[pb_idx b := of_int ch], pb_idx := pb_idx b + 1\<rparr> in
       if pb_idx b1 = 256 - 1 then
         case puts (take (pb_idx b1) (pb_buf b1)) u of
           Inl e \<Rightarrow> Inl e
         | Inr (_, u') \<Rightarrow> Inr ((), u', b1\<lparr>pb_idx := 0, pb_cnt := pb_cnt b1 + 1\<rparr>)
       else Inr ((), u, b1\<lparr>pb_cnt := pb_cnt b1 + 1\<rparr>)
     else Inl BadIndex)"

text \<open>\<open>junk\<close> is what the local buffer holds before it is written.\<close>

definition vcprintf ::
  "(u8 list \<Rightarrow> ('u, unit) kfun) \<Rightarrow> u8 list \<Rightarrow> u8 list \<Rightarrow> va list \<Rightarrow> ('u, int) kfun" where
  "vcprintf puts junk fmt ap = (\<lambda>u.
     case vprintfmt (uputch puts) fmt ap (u, \<lparr>pb_idx = 0, pb_cnt = 0, pb_buf = junk\<rparr>) of
       Inl e \<Rightarrow> Inl e
     | Inr (_, u', b) \<Rightarrow>
         kbind (puts (take (pb_idx b) (pb_buf b))) (\<lambda>_. kreturn (pb_cnt b)) u')"

definition cprintf :: "(u8 list \<Rightarrow> ('u, unit) kfun) \<Rightarrow> string \<Rightarrow> va list \<Rightarrow> ('u, int) kfun" where
  "cprintf puts fmt ap = vcprintf puts (replicate 256 0) (str fmt) ap"

section \<open>The formatter only calls its output function\<close>

text \<open>
  \<open>logch\<close> collects the characters in a list. \<open>emits m\<^sub>1 m\<^sub>2\<close> says that the two runs of the same code, with
  \<open>logch\<close> and with \<open>putch\<close>, agree: both give the same value, and the second outputs exactly the
  characters the first collects; or both end in the same fault after some output.
\<close>

definition logch :: "int \<Rightarrow> (int list, unit) kfun" where
  "logch c = (\<lambda>l. Inr ((), l @ [c]))"

definition emits :: "(int \<Rightarrow> ('s, unit) kfun) \<Rightarrow> (int list, 'b) kfun \<Rightarrow> ('s, 'b) kfun \<Rightarrow> bool" where
  "emits putch m1 m2 \<longleftrightarrow>
     (\<exists>x cs. (\<forall>l. m1 l = Inr (x, l @ cs)) \<and> m2 = kbind (kfor cs putch) (\<lambda>_. kreturn x)) \<or>
     (\<exists>e cs. (\<forall>l. m1 l = Inl e) \<and> m2 = kbind (kfor cs putch) (\<lambda>_. kfail e))"

named_theorems emit_rules \<open>code that is parametric in its output function\<close>

lemma kbind_kreturn_unit: "kbind (kreturn x) f = f x"
  by (rule ext) simp

lemma emits_return [emit_rules]: "emits p (kreturn x) (kreturn x)"
  unfolding emits_def by (rule disjI1, rule exI [of _ x], rule exI [of _ "[]"]) (simp add: fun_eq_iff kbind_apply)

lemma emits_fail [emit_rules]: "emits p (kfail e) (kfail e)"
  unfolding emits_def by (rule disjI2, rule exI [of _ e], rule exI [of _ "[]"]) (simp add: fun_eq_iff kbind_apply)

lemma emits_cases:
  assumes "emits p m1 m2"
  obtains x cs where "\<And>l. m1 l = Inr (x, l @ cs)" "m2 = kbind (kfor cs p) (\<lambda>_. kreturn x)"
    | e cs where "\<And>l. m1 l = Inl e" "m2 = kbind (kfor cs p) (\<lambda>_. kfail e)"
  using assms unfolding emits_def by blast

lemma kbind_kfail: "kbind (kfail e) f = kfail e"
  by (rule ext) simp

lemma emits_putch [emit_rules]: "emits p (logch c) (p c)"
  unfolding emits_def
  by (rule disjI1, rule exI [of _ "()"], rule exI [of _ "[c]"])
    (auto simp: logch_def fun_eq_iff kbind_apply split: sum.splits)

lemma emits_bind [emit_rules]:
  assumes "emits p m1 m2" and "\<And>x. emits p (f1 x) (f2 x)"
  shows "emits p (kbind m1 f1) (kbind m2 f2)"
  using assms(1)
proof (cases rule: emits_cases)
  case m: (1 x cs)
  show ?thesis using assms(2) [of x]
  proof (cases rule: emits_cases)
    case f: (1 y ds)
    have "kbind m2 f2 = kbind (kfor (cs @ ds) p) (\<lambda>_. kreturn y)"
      unfolding m(2) kfor_append kbind_assoc kbind_kreturn_unit f(2) by simp
    then show ?thesis unfolding emits_def using m(1) f(1)
      by (intro disjI1 exI [of _ y] exI [of _ "cs @ ds"]) simp
  next
    case f: (2 e ds)
    have "kbind m2 f2 = kbind (kfor (cs @ ds) p) (\<lambda>_. kfail e)"
      unfolding m(2) kfor_append kbind_assoc kbind_kreturn_unit f(2) by simp
    then show ?thesis unfolding emits_def using m(1) f(1)
      by (intro disjI2 exI [of _ e] exI [of _ "cs @ ds"]) simp
  qed
next
  case m: (2 e cs)
  have "kbind m2 f2 = kbind (kfor cs p) (\<lambda>_. kfail e)"
    unfolding m(2) kbind_assoc kbind_kfail by simp
  then show ?thesis unfolding emits_def using m(1) by (intro disjI2 exI [of _ e] exI [of _ cs]) simp
qed

lemma emits_if [emit_rules]:
  "(b \<Longrightarrow> emits p m1 m2) \<Longrightarrow> (\<not> b \<Longrightarrow> emits p n1 n2) \<Longrightarrow> emits p (if b then m1 else n1) (if b then m2 else n2)"
  by simp

lemma emits_kwhen [emit_rules]: "emits p m1 m2 \<Longrightarrow> emits p (kwhen b m1) (kwhen b m2)"
  by (simp add: kwhen_def emits_return)

lemma emits_kfor [emit_rules]:
  "(\<And>x. emits p (f1 x) (f2 x)) \<Longrightarrow> emits p (kfor xs f1) (kfor xs f2)"
  by (induction xs) (auto intro: emit_rules)

lemma emits_ksum [emit_rules]: "emits p (ksum r) (ksum r)"
proof (cases r)
  case (Inr x)
  then show ?thesis unfolding emits_def
    by (intro disjI1 exI [of _ x] exI [of _ "[]"]) (simp add: ksum_def fun_eq_iff kbind_apply)
next
  case (Inl e)
  then show ?thesis unfolding emits_def
    by (intro disjI2 exI [of _ e] exI [of _ "[]"]) (simp add: ksum_def fun_eq_iff kbind_apply)
qed

lemma emits_case_prod [emit_rules]:
  "(\<And>x y. emits p (f1 x y) (f2 x y)) \<Longrightarrow> emits p (case z of (x, y) \<Rightarrow> f1 x y) (case z of (x, y) \<Rightarrow> f2 x y)"
  by (cases z) simp

lemma emits_case_option [emit_rules]:
  "emits p m1 m2 \<Longrightarrow> (\<And>x. emits p (f1 x) (f2 x)) \<Longrightarrow>
   emits p (case z of None \<Rightarrow> m1 | Some x \<Rightarrow> f1 x) (case z of None \<Rightarrow> m2 | Some x \<Rightarrow> f2 x)"
  by (cases z) simp_all

declare printnum.simps [simp del]

lemma emits_printnum [emit_rules]:
  "emits p (printnum logch num base w pad) (printnum p num base w pad)"
proof (induction num arbitrary: w rule: less_induct)
  case (less num)
  have "emits p (printnum logch (num div base) base (w - 1) pad) (printnum p (num div base) base (w - 1) pad)"
    if "base \<noteq> 0" "\<not> (base = 1 \<and> 1 \<le> num)" "base \<le> num"
    using that by (intro less) simp
  then show ?case
    unfolding printnum.simps [of _ num] by (intro emit_rules) auto
qed

lemma emits_str_loop [emit_rules]:
  "emits p (fmt_str_loop logch alt cs prec w) (fmt_str_loop p alt cs prec w)"
proof (induction cs arbitrary: prec w)
  case (Cons c cs)
  then show ?case unfolding fmt_str_loop.simps by (intro emit_rules) auto
qed (simp add: emits_return)

lemma emits_string [emit_rules]: "emits p (fmt_string logch f cs) (fmt_string p f cs)"
  unfolding fmt_string_def Let_def by (intro emit_rules)

lemma emits_number [emit_rules]: "emits p (fmt_number logch f num base ap) (fmt_number p f num base ap)"
  unfolding fmt_number_def by (intro emit_rules)

lemma emits_error [emit_rules]:
  "(\<And>fmt ap. emits p (pf1 fmt ap) (pf2 fmt ap)) \<Longrightarrow> emits p (fmt_error pf1 e) (fmt_error pf2 e)"
  unfolding fmt_error_def Let_def by (intro emit_rules)

lemma emits_convert:
  "(\<And>fmt ap. emits p (pf1 fmt ap) (pf2 fmt ap)) \<Longrightarrow> emits p (convert pf1 logch f ch ap) (convert pf2 p f ch ap)"
  unfolding convert_def by (intro emit_rules)

lemma emits_vprintfmt_loop: "emits p (vprintfmt_loop d logch fmt ap) (vprintfmt_loop d p fmt ap)"
proof (induction d arbitrary: fmt ap)
  have step: "emits p (vprintfmt_loop d logch fmt ap) (vprintfmt_loop d p fmt ap)"
    if pf: "\<And>fmt ap. emits p ((case d of 0 \<Rightarrow> (\<lambda>_ _. kfail Hang) | Suc d' \<Rightarrow> vprintfmt_loop d' logch) fmt ap)
      ((case d of 0 \<Rightarrow> (\<lambda>_ _. kfail Hang) | Suc d' \<Rightarrow> vprintfmt_loop d' p) fmt ap)" for d fmt ap
  proof (induction fmt arbitrary: ap rule: length_induct)
    case (1 fmt)
    show ?case
    proof (cases fmt)
      case (Cons c cs)
      have short: "emits p (vprintfmt_loop d logch r ap') (vprintfmt_loop d p r ap')" if "length r \<le> length cs" for r ap'
        using 1 that Cons by simp
      show ?thesis unfolding Cons vprintfmt_loop.simps
      proof (rule emits_if)
        show "emits p (kbind (logch (uint c)) (\<lambda>_. vprintfmt_loop d logch cs ap))
          (kbind (p (uint c)) (\<lambda>_. vprintfmt_loop d p cs ap))" by (intro emit_rules short) simp
      next
        show "emits p
         (case reswitch fflags_init cs ap of Inl e \<Rightarrow> kfail e
          | Inr (f, ch, rest, ap') \<Rightarrow>
              kbind (convert (case d of 0 \<Rightarrow> (\<lambda>_ _. kfail Hang) | Suc d' \<Rightarrow> vprintfmt_loop d' logch) logch f ch ap')
                (\<lambda>r. case r of None \<Rightarrow> vprintfmt_loop d logch cs ap' | Some ap'' \<Rightarrow> vprintfmt_loop d logch rest ap''))
         (case reswitch fflags_init cs ap of Inl e \<Rightarrow> kfail e
          | Inr (f, ch, rest, ap') \<Rightarrow>
              kbind (convert (case d of 0 \<Rightarrow> (\<lambda>_ _. kfail Hang) | Suc d' \<Rightarrow> vprintfmt_loop d' p) p f ch ap')
                (\<lambda>r. case r of None \<Rightarrow> vprintfmt_loop d p cs ap' | Some ap'' \<Rightarrow> vprintfmt_loop d p rest ap''))"
        proof (cases "reswitch fflags_init cs ap")
          case (Inr r)
          obtain f ch rest ap' where r: "r = (f, ch, rest, ap')" by (cases r)
          have "length rest \<le> length cs" using Inr r reswitch_length by blast
          then show ?thesis unfolding Inr r sum.case prod.case
            by (intro emits_bind emits_convert emits_case_option short pf) simp_all
        qed (simp add: emits_fail)
      qed
    next
      case Nil
      show ?thesis unfolding Nil vprintfmt_loop.simps by (rule emits_return)
    qed
  qed
  show "emits p (vprintfmt_loop 0 logch fmt ap) (vprintfmt_loop 0 p fmt ap)" for fmt ap
    by (rule step) (simp add: emits_fail)
  show "emits p (vprintfmt_loop (Suc d) logch fmt ap) (vprintfmt_loop (Suc d) p fmt ap)"
    if "\<And>fmt ap. emits p (vprintfmt_loop d logch fmt ap) (vprintfmt_loop d p fmt ap)" for d fmt ap
    by (rule step) (simp add: that)
qed

text \<open>The characters a format and its arguments stand for.\<close>

definition format :: "u8 list \<Rightarrow> va list \<Rightarrow> kfault + int list" where
  "format fmt ap =
     (case vprintfmt logch fmt ap [] of Inl e \<Rightarrow> Inl e | Inr (_, cs) \<Rightarrow> Inr cs)"

lemma emits_vprintfmt: "emits putch (vprintfmt logch fmt ap) (vprintfmt putch fmt ap)"
  unfolding vprintfmt_def by (rule emits_vprintfmt_loop)

lemma vprintfmt_format:
  assumes "format fmt ap = Inr cs"
  shows "vprintfmt putch fmt ap = kfor cs putch"
  using emits_vprintfmt [of putch fmt ap]
proof (cases rule: emits_cases)
  case (1 x ds)
  then have "ds = cs" using assms by (simp add: format_def)
  with 1(2) show ?thesis by (auto simp: fun_eq_iff kbind_apply split: sum.splits)
qed (use assms in \<open>simp add: format_def\<close>)

lemma vprintfmt_fault:
  assumes "format fmt ap = Inl e"
  shows "\<exists>cs. vprintfmt putch fmt ap = kbind (kfor cs putch) (\<lambda>_. kfail e)"
  using emits_vprintfmt [of putch fmt ap]
proof (cases rule: emits_cases)
  case (2 e' ds)
  then have "e' = e" using assms by (simp add: format_def)
  with 2(2) show ?thesis by blast
qed (use assms in \<open>simp add: format_def\<close>)

section \<open>Kernel messages\<close>

lemma kfor_kputch:
  "kfor cs kputch (s, n) = (case kfor (map of_int cs) k_putch s of
     Inl e \<Rightarrow> Inl e | Inr (_, t) \<Rightarrow> Inr ((), t, n + int (length cs)))"
proof (induction cs arbitrary: s n)
  case (Cons c cs)
  then show ?case by (cases "k_putch (of_int c) s") (auto simp: kputch_def kbind_apply split: sum.splits)
qed simp

lemma vprintk_format:
  "format fmt ap = Inr cs \<Longrightarrow> vprintk fmt ap s =
     kbind (kfor (map of_int cs) k_putch) (\<lambda>_. kreturn (int (length cs))) s"
  by (auto simp: vprintk_def vprintfmt_format kfor_kputch kbind_apply split: sum.splits)

lemma on_screen_vprintk [screen_frames]: "on_screen (vprintk fmt ap :: ('a kscreen_scheme, int) kfun)"
proof (cases "format fmt ap")
  case (Inl e)
  from vprintfmt_fault [OF this, of kputch] obtain cs where
    cs: "vprintfmt (kputch :: int \<Rightarrow> ('a kscreen_scheme \<times> int, unit) kfun) fmt ap = kbind (kfor cs kputch) (\<lambda>_. kfail e)" by blast
  have "vprintk fmt ap s \<noteq> Inr r" for s :: "'a kscreen_scheme" and r
    unfolding vprintk_def cs by (auto simp: kfor_kputch kbind_apply split: sum.splits)
  then show ?thesis by (simp add: on_screen_def)
next
  case (Inr cs)
  have "(vprintk fmt ap :: ('a kscreen_scheme, int) kfun) =
      kbind (kfor (map of_int cs) k_putch) (\<lambda>_. kreturn (int (length cs)))"
    using vprintk_format [OF Inr] by (rule ext)
  then show ?thesis by (auto intro!: screen_frames)
qed

lemma on_screen_printk [screen_frames]: "on_screen (printk fmt ap)"
  unfolding printk_def by (rule on_screen_vprintk)

lemma vprintk_ok:
  assumes "screen_ok s" and "format fmt ap = Inr cs"
  shows "\<exists>t. vprintk fmt ap s = Inr (int (length cs), t) \<and> screen_ok t \<and> screen_frame s t \<and>
    screen_term t = fold term_putc (map of_int cs) (screen_term s)"
proof -
  from putch_all_ok [OF assms(1), of "map of_int cs"] obtain t where
    t: "kfor (map of_int cs) k_putch s = Inr ((), t)" "screen_ok t"
      "screen_term t = fold term_putc (map of_int cs) (screen_term s)" by blast
  then have r: "vprintk fmt ap s = Inr (int (length cs), t)" by (simp add: vprintk_format [OF assms(2)])
  moreover have "screen_frame s t" using r on_screen_vprintk unfolding on_screen_def by blast
  ultimately show ?thesis using t by blast
qed

lemma printk_ok:
  assumes "screen_ok s" and "format (str fmt) ap = Inr cs"
  shows "\<exists>t. printk fmt ap s = Inr (int (length cs), t) \<and> screen_ok t \<and> screen_frame s t \<and>
    screen_term t = fold term_putc (map of_int cs) (screen_term s)"
  unfolding printk_def by (rule vprintk_ok [OF assms])

section \<open>Numbers and back\<close>

function digs :: "nat \<Rightarrow> nat \<Rightarrow> nat list" where
  "digs base num = (if 2 \<le> base \<and> base \<le> num then digs base (num div base) @ [num mod base] else [num])"
  by pat_completeness auto
termination by (relation "measure snd") auto

declare digs.simps [simp del]

definition digit_char :: "nat \<Rightarrow> int" where
  "digit_char d = of_char (digits16 ! d)"

lemma digs_less: "2 \<le> base \<Longrightarrow> d \<in> set (digs base num) \<Longrightarrow> d < base"
proof (induction base num rule: digs.induct)
  case (1 base num)
  from 1(3) show ?case unfolding digs.simps [of base num] using 1(1,2) by (auto split: if_splits)
qed

lemma kfor_snoc: "kfor (xs @ [x]) p = kbind (kfor xs p) (\<lambda>_. p x)"
  by (auto simp: kfor_append fun_eq_iff kbind_apply split: sum.splits)

lemma printnum_digs:
  assumes "2 \<le> base" and "base \<le> 16"
  shows "printnum p num base w pad =
    kfor (replicate (nat (w - int (length (digs base num)))) pad @ map digit_char (digs base num)) p"
proof (induction num arbitrary: w rule: less_induct)
  case (less num)
  have d: "num mod base < 16" using assms mod_less_divisor [of base num] by linarith
  have len: "length digits16 = 16" by (simp add: digits16_def)
  show ?case
  proof (cases "base \<le> num")
    case True
    have w: "nat (w - 1 - int (length (digs base (num div base)))) = nat (w - int (length (digs base num)))"
      unfolding digs.simps [of base num] using True assms by simp
    from less [of "num div base" "w - 1"] True assms
    have "printnum p (num div base) base (w - 1) pad =
      kfor (replicate (nat (w - int (length (digs base num)))) pad @ map digit_char (digs base (num div base))) p"
      unfolding w by simp
    then show ?thesis
      unfolding printnum.simps [of _ num] using True assms d len
      by (simp add: digit_char_def [symmetric] kfor_snoc digs.simps [of base num]
        append_assoc [symmetric] del: append_assoc)
  next
    case False
    then show ?thesis
      unfolding printnum.simps [of _ num] using assms d len
      by (simp add: digit_char_def [symmetric] kfor_snoc digs.simps [of base num]
        append_assoc [symmetric] del: append_assoc)
  qed
qed

text \<open>Reading digits back.\<close>

lemma digit_of_char: "d < 16 \<Longrightarrow> digit_of (of_int (digit_char d)) = Some (int d)"
proof -
  assume "d < 16"
  then have "d \<in> set [0..<16]" by simp
  then show ?thesis
    by (simp add: upt_rec) (auto simp: digit_char_def digits16_def digit_of_def)
qed

fun digs_val :: "nat \<Rightarrow> nat \<Rightarrow> nat list \<Rightarrow> nat" where
  "digs_val base v [] = v"
| "digs_val base v (d # ds) = digs_val base (v * base + d) ds"

lemma digs_val_snoc: "digs_val base v (ds @ [d]) = digs_val base v ds * base + d"
  by (induction ds arbitrary: v) auto

lemma digs_val_digs: "2 \<le> base \<Longrightarrow> digs_val base 0 (digs base num) = num"
proof (induction num rule: less_induct)
  case (less num)
  show ?case
  proof (cases "base \<le> num")
    case True
    with less show ?thesis by (simp add: digs.simps [of base num] digs_val_snoc)
  qed (simp add: digs.simps [of base num])
qed

lemma digs_val_mono: "1 \<le> base \<Longrightarrow> v \<le> digs_val base v ds"
proof (induction ds arbitrary: v)
  case (Cons d ds)
  have "v \<le> v * base + d" using Cons.prems by (cases base) auto
  also have "\<dots> \<le> digs_val base (v * base + d) ds" using Cons by blast
  finally show ?case by simp
qed simp

lemma clong_id: "- (2 ^ 31) \<le> x \<Longrightarrow> x < 2 ^ 31 \<Longrightarrow> clong x = x"
  by (simp add: clong_def signed_take_bit_int_eq_self)

text \<open>Digits whose value fits a \<^verbatim>\<open>long\<close> are read without overflow.\<close>

lemma strtol_loop_digits:
  assumes "cstring m (b, i) (map (of_int \<circ> digit_char) ds)" and "\<forall>d \<in> set ds. d < base" and "base \<le> 16" and "1 \<le> base"
    and "digs_val base v ds < 2 ^ 31"
  shows "strtol_loop (b, i) (int base) (int v) m =
    Inr (((b, i + length ds), int (digs_val base v ds)), m)"
  using assms
proof (induction ds arbitrary: i v)
  case Nil
  then show ?case by (simp add: strtol_loop.simps digit_of_def)
next
  case (Cons d ds)
  have "v * base + d < 2 ^ 31"
    using Cons.prems(5) digs_val_mono [OF Cons.prems(4), of "v * base + d" ds] by simp
  then have lt: "int (v * base + d) < 2 ^ 31" by (simp del: of_nat_add of_nat_mult)
  have "- (2 ^ 31) \<le> int (v * base + d)" by (rule order_trans [OF _ of_nat_0_le_iff]) simp
  from clong_id [OF this lt] have c: "clong (int v * int base + int d) = int (v * base + d)" by simp
  have "digit_of (blk m b ! i) = Some (int d)" using Cons.prems by (auto simp: digit_of_char)
  with Cons Cons.IH [of "Suc i" "v * base + d"] c show ?case
    by (auto simp: strtol_loop.simps [of b i])
qed

lemma digs_nonempty: "digs base num \<noteq> []"
  by (simp add: digs.simps [of base num])

lemma strtol_loop_digs:
  assumes "cstring m (b, i) (map (of_int \<circ> digit_char) (digs 10 num))" and "num < 2 ^ 31"
  shows "strtol_loop (b, i) 10 0 m = Inr (((b, i + length (digs 10 num)), int num), m)"
  using strtol_loop_digits [OF assms(1), of 10 0] digs_less [of 10 _ num] digs_val_digs [of 10 num] assms(2) by auto

text \<open>What \<^verbatim>\<open>%d\<close> prints: a minus sign where needed, and the digits.\<close>

definition signed_digs :: "int \<Rightarrow> int list" where
  "signed_digs x = (if x < 0 then [0x2D] else []) @ map digit_char (digs 10 (nat \<bar>x\<bar>))"

lemma digit_char_nonzero: "d < 10 \<Longrightarrow> of_int (digit_char d) \<noteq> (0 :: u8)"
  using digit_of_char [of d] by (auto simp: digit_of_def)

lemma signed_digs_nonzero: "0 \<notin> set (map of_int (signed_digs x) :: u8 list)"
proof -
  define ds where "ds = digs 10 (nat \<bar>x\<bar>)"
  have "of_int (digit_char d) \<noteq> (0 :: u8)" if "d \<in> set ds" for d
    using that digs_less [of 10 d "nat \<bar>x\<bar>"] by (intro digit_char_nonzero) (simp add: ds_def)
  then have "0 \<notin> set (map (of_int \<circ> digit_char) ds :: u8 list)" by (force simp: image_iff)
  then show ?thesis unfolding signed_digs_def ds_def [symmetric] by (cases "x < 0") simp_all
qed

lemma strtol_signed_digs:
  assumes str: "cstring m (b, i) (map of_int (signed_digs x))" and x: "\<bar>x\<bar> < 2 ^ 31"
  shows "strtol (b, i) 10 m = Inr (((b, i + length (signed_digs x)), x), m)"
proof (cases "x < 0")
  case True
  then have "cstring m (b, Suc i) (map (of_int \<circ> digit_char) (digs 10 (nat (- x))))" and c: "i < length (blk m b)" "blk m b ! i = 0x2D"
    using str by (simp_all add: signed_digs_def)
  from strtol_loop_digs [OF this(1)] x True
  have l: "strtol_loop (b, Suc i) 10 0 m = Inr (((b, Suc i + length (digs 10 (nat (- x)))), - x), m)" by simp
  have "clong x = x" using x clong_id [of x] by simp
  then show ?thesis
    using l c True by (simp add: strtol_def strtol_sign_def strtol_base_def kbind_apply skip_blanks.simps signed_digs_def)
next
  case False
  let ?n = "nat x"
  have s: "cstring m (b, i) (map (of_int \<circ> digit_char) (digs 10 ?n))" using False str by (simp add: signed_digs_def)
  obtain d ds where d: "digs 10 ?n = d # ds" using digs_nonempty by (meson neq_Nil_conv)
  have "d < 10" using digs_less [of 10 d ?n] d by simp
  then have "digit_of (blk m b ! i) = Some (int d)" using s d by (auto simp: digit_of_char)
  moreover have "i < length (blk m b)" using s d by simp
  ultimately have c: "blk m b ! i \<noteq> 0x20" "blk m b ! i \<noteq> 9" "blk m b ! i \<noteq> 0x2B" "blk m b ! i \<noteq> 0x2D"
    "i < length (blk m b)" by (auto simp: digit_of_def)
  then show ?thesis
    using strtol_loop_digs [OF s] x False
    by (simp add: strtol_def strtol_sign_def strtol_base_def kbind_apply skip_blanks.simps signed_digs_def)
qed

section \<open>Printing into a buffer\<close>

lemma kfor_sprintputch:
  assumes "objects_ok m" and "e < length (blk m b)" and "i \<le> e"
  shows "\<exists>j. j = min (i + length cs) e \<and>
    kfor cs sprintputch (m, \<lparr>sb_buf = (b, i), sb_ebuf = (b, e), sb_cnt = n\<rparr>) =
      Inr ((), set_bytes b i (map of_int (take (e - i) cs)) m,
        \<lparr>sb_buf = (b, j), sb_ebuf = (b, e), sb_cnt = n + int (length cs)\<rparr>)"
  using assms
proof (induction cs arbitrary: m i n)
  case (Cons c cs)
  have less: "ptr_addr m (b, i) < ptr_addr m (b, e) \<longleftrightarrow> i < e"
    using ptr_addr_unat [OF Cons.prems(1), of i b] ptr_addr_unat [OF Cons.prems(1), of e b] Cons.prems
    unfolding word_less_nat_alt by simp
  show ?case
  proof (cases "i < e")
    case True
    let ?m = "set_byte b i (of_int c) m"
    have "objects_ok ?m" "e < length (blk ?m b)" "Suc i \<le> e"
      using Cons.prems True by (simp_all add: objects_ok_def)
    from Cons.IH [OF this, of "n + 1"] True less Cons.prems show ?thesis
      by (auto simp: sprintputch_def Let_def kbind_apply take_Cons' min_def simp del: ptr_addr.simps)
  next
    case False
    with Cons.IH [OF Cons.prems, of "n + 1"] less Cons.prems show ?thesis
      by (auto simp: sprintputch_def Let_def kbind_apply simp del: ptr_addr.simps)
  qed
qed simp

lemma vsnprintf_ok:
  assumes ok: "objects_ok m" and "format fmt ap = Inr cs" and n: "1 \<le> n" and obj: "in_object m (b, i) (nat n)"
  shows "vsnprintf (Some (b, i)) n fmt ap m =
    Inr (int (length cs), set_bytes b i (map of_int (take (nat n - 1) cs) @ [0]) m)"
proof -
  let ?e = "i + (nat n - 1)"
  have nn: "nat (n - 1) = nat n - 1" by simp
  have e: "?e < length (blk m b)" using n obj by simp
  from kfor_sprintputch [OF ok e, of i cs 0] obtain j where
    j: "j = min (i + length cs) ?e"
      "kfor cs sprintputch (m, \<lparr>sb_buf = (b, i), sb_ebuf = (b, ?e), sb_cnt = 0\<rparr>) =
      Inr ((), set_bytes b i (map of_int (take (nat n - 1) cs)) m,
        \<lparr>sb_buf = (b, j), sb_ebuf = (b, ?e), sb_cnt = int (length cs)\<rparr>)" by auto
  have "j = i + length (take (nat n - 1) cs)" using j(1) by (auto simp: min_def)
  moreover have "j < length (blk m b)" using j(1) e by simp
  ultimately show ?thesis
    using j(2) n by (simp add: vsnprintf_def nn vprintfmt_format [OF assms(2)] set_bytes_snoc kbind_apply)
qed

lemma kfor_logch: "kfor cs logch l = Inr ((), l @ cs)"
  by (induction cs arbitrary: l) (auto simp: logch_def kbind_apply)

lemma unat_ucast_64: "unat (ucast (w :: u32) :: u64) = unat w"
proof -
  have "unat w < 2 ^ 32" using unsigned_less [of w] by simp
  then have "unat w < 2 ^ 64" by (rule order_less_trans) simp
  then show ?thesis by (simp add: unsigned_ucast_eq take_bit_nat_eq_self)
qed

lemma format_unsigned: "format (str ''%u'') [VW w] = Inr (map digit_char (digs 10 (unat w)))"
proof -
  have "int (length (digs 10 k)) > 0" for k by (simp add: digs_nonempty)
  then have "nat (- 1 - int (length (digs 10 k))) = 0" for k by simp
  then show ?thesis
    by (simp add: format_def vprintfmt_def str_def fflags_init_def convert_def ksum_def getuint_def kbind_apply
        fmt_number_def printnum_digs kfor_logch unat_ucast_64)
qed

lemma sint_scast_64: "sint (scast (w :: u32) :: u64) = sint w"
proof -
  have "- (2 ^ 31) \<le> sint w" "sint w < 2 ^ 31" using sint_greater_eq [of w] sint_less [of w] by simp_all
  then show ?thesis by (simp add: signed_scast_eq signed_take_bit_int_eq_self)
qed

lemma unat_abs_64:
  "unat (if sint (w :: u32) < 0 then - (scast w :: u64) else scast w) = nat \<bar>sint w\<bar>"
proof -
  have w: "- (2 ^ 31) \<le> sint w" "sint w < 2 ^ 31" using sint_greater_eq [of w] sint_less [of w] by simp_all
  have s: "scast w = (of_int (sint w) :: u64)" by (simp add: of_int_sint)
  have "(if sint w < 0 then - (scast w :: u64) else scast w) = of_int \<bar>sint w\<bar>" unfolding s by simp
  moreover have "uint (of_int \<bar>sint w\<bar> :: u64) = \<bar>sint w\<bar>" using w by (simp add: uint_word_of_int_eq take_bit_int_eq_self)
  ultimately show ?thesis unfolding unat_eq_nat_uint by simp
qed

lemma format_signed: "format (str ''%d'') [VW w] = Inr (signed_digs (sint w))"
proof -
  have "int (length (digs 10 k)) > 0" for k by (simp add: digs_nonempty)
  then have n: "nat (- 1 - int (length (digs 10 k))) = 0" for k by simp
  show ?thesis
    using unat_abs_64 [of w]
    by (simp add: n format_def vprintfmt_def str_def fflags_init_def convert_def ksum_def getint_def kbind_apply
        fmt_number_def printnum_digs kfor_logch sint_scast_64 kwhen_def logch_def signed_digs_def)
qed

section \<open>Buffered output\<close>

text \<open>
  A byte sink: writing one sequence after another is writing both, so that it does not matter how
  the buffer of \<^verbatim>\<open>cprintf\<close> cuts the output into system calls.
\<close>

locale byte_sink =
  fixes puts :: "u8 list \<Rightarrow> ('u, unit) kfun"
  assumes puts_nil: "puts [] = kreturn ()"
    and puts_append: "puts (as @ bs) = kbind (puts as) (\<lambda>_. puts bs)"
begin

lemma uputch_all:
  assumes "length (pb_buf b) = 256" and "pb_idx b < 255"
  shows "(case kfor cs (uputch puts) (u, b) of
      Inl e \<Rightarrow> Inl e
    | Inr (_, u', b') \<Rightarrow> kbind (puts (take (pb_idx b') (pb_buf b'))) (\<lambda>_. kreturn (pb_cnt b')) u') =
    kbind (puts (take (pb_idx b) (pb_buf b) @ map of_int cs)) (\<lambda>_. kreturn (pb_cnt b + int (length cs))) u"
  using assms
proof (induction cs arbitrary: u b)
  case (Cons c cs)
  let ?b = "b\<lparr>pb_buf := (pb_buf b)[pb_idx b := of_int c], pb_idx := pb_idx b + 1\<rparr>"
  have tk: "take (pb_idx ?b) (pb_buf ?b) = take (pb_idx b) (pb_buf b) @ [of_int c]"
    using Cons.prems by (simp add: take_Suc_conv_app_nth)
  have b: "length (pb_buf ?b) = 256" using Cons.prems by simp
  show ?case
  proof (cases "pb_idx b = 254")
    case True
    let ?c = "?b\<lparr>pb_idx := 0, pb_cnt := pb_cnt b + 1\<rparr>"
    have c: "length (pb_buf ?c) = 256" "pb_idx ?c < 255" using Cons.prems by simp_all
    show ?thesis
    proof (cases "puts (take (pb_idx ?b) (pb_buf ?b)) u")
      case (Inl e)
      then have "uputch puts c (u, b) = Inl e" using True Cons.prems by (simp add: uputch_def Let_def)
      with Inl puts_append [of "take (pb_idx ?b) (pb_buf ?b)" "map of_int cs"] show ?thesis
        unfolding tk by (simp add: kbind_apply)
    next
      case (Inr r)
      then obtain u' where u': "puts (take (pb_idx ?b) (pb_buf ?b)) u = Inr ((), u')" by (cases r) auto
      have "uputch puts c (u, b) = Inr ((), u', ?c)"
        using True Cons.prems u' by (simp add: uputch_def Let_def)
      with Cons.IH [OF c, of u'] u' puts_append [of "take (pb_idx ?b) (pb_buf ?b)" "map of_int cs"]
      show ?thesis unfolding tk by (simp add: kbind_apply add.assoc)
    qed
  next
    case False
    let ?c = "?b\<lparr>pb_cnt := pb_cnt b + 1\<rparr>"
    have c: "length (pb_buf ?c) = 256" "pb_idx ?c < 255" using Cons.prems False by simp_all
    have "uputch puts c (u, b) = Inr ((), u, ?c)" using Cons.prems False by (simp add: uputch_def Let_def)
    with Cons.IH [OF c, of u] tk show ?thesis by (simp add: add.assoc)
  qed
qed (simp add: kbind_apply)

lemma vcprintf_puts:
  assumes "format fmt ap = Inr cs" and "length junk = 256"
  shows "vcprintf puts junk fmt ap = kbind (puts (map of_int cs)) (\<lambda>_. kreturn (int (length cs)))"
  using uputch_all [of "\<lparr>pb_idx = 0, pb_cnt = 0, pb_buf = junk\<rparr>" cs] assms(2)
  by (auto simp: vcprintf_def vprintfmt_format [OF assms(1)])

end

interpretation screen_sink: byte_sink k_puts
  by unfold_locales (auto simp: k_puts_def kfor_append)

lemma digs_length: "num < 10 ^ n \<Longrightarrow> 0 < n \<Longrightarrow> length (digs 10 num) \<le> n"
proof (induction n arbitrary: num)
  case (Suc n)
  show ?case
  proof (cases "10 \<le> num")
    case True
    then have "num div 10 < 10 ^ n" "0 < n" using Suc.prems by (auto intro: Nat.gr0I)
    with Suc.IH [of "num div 10"] True show ?thesis by (simp add: digs.simps [of 10 num])
  qed (simp add: digs.simps [of 10 num])
qed simp

section \<open>Properties\<close>

definition demo_buf :: bmem where
  "demo_buf = \<lparr>blk = (\<lambda>b. if b = 0 then replicate 16 0xAA else []), bbase = (\<lambda>b. 0x2000)\<rparr>"

text \<open>
  C34. Printing a number with \<^verbatim>\<open>snprintf\<close> and \<^verbatim>\<open>%d\<close> into a buffer that has room for it and reading it with \<^verbatim>\<open>strtol\<close> in
  base ten gives the number back as a signed \<^verbatim>\<open>long\<close>, and \<^verbatim>\<open>strtol\<close> stops at the end of the digits. The one
  \<^verbatim>\<open>int\<close> left out is \<open>- (2 ^ 31)\<close>: its digits overflow before \<^verbatim>\<open>strtol\<close> negates them.
\<close>
theorem snprintf_strtol:
  assumes "objects_ok m" and "in_object m (b, i) 12" and "- (2 ^ 31) < sint w"
  shows "\<exists>n m'. snprintf (Some (b, i)) 12 (str ''%d'') [VW w] m = Inr (int n, m') \<and> n \<le> 11 \<and>
    strtol (b, i) 10 m' = Inr (((b, i + n), sint w), m')"
proof -
  let ?ds = "signed_digs (sint w)"
  have w: "\<bar>sint w\<bar> < 2 ^ 31" using assms(3) sint_less [of w] by simp
  then have "nat \<bar>sint w\<bar> < 10 ^ 10" by simp
  then have len: "length ?ds \<le> 11" using digs_length [of "nat \<bar>sint w\<bar>" 10] by (auto simp: signed_digs_def)
  let ?m = "set_bytes b i (map of_int ?ds @ [0]) m"
  have run: "snprintf (Some (b, i)) 12 (str ''%d'') [VW w] m = Inr (int (length ?ds), ?m)"
    using vsnprintf_ok [OF assms(1) format_signed, of 12 b i w] assms(2) len by (simp add: snprintf_def)
  have "cstring ?m (b, i) (map of_int ?ds)"
    using cstring_set_bytes [OF signed_digs_nonzero] assms(2) len by simp
  from strtol_signed_digs [OF this w] run len show ?thesis by blast
qed

theorem snprintf_strtol_witness:
  "objects_ok demo_buf \<and> in_object demo_buf (0, 3) 12 \<and>
   (\<exists>n m'. snprintf (Some (0, 3)) 12 (str ''%d'') [VW (- 2147483647)] demo_buf = Inr (int n, m') \<and> n \<le> 11 \<and>
    strtol (0, 3) 10 m' = Inr (((0, 3 + n), - 2147483647), m'))"
proof -
  have d: "objects_ok demo_buf" "in_object demo_buf (0, 3) 12" by (simp_all add: demo_buf_def objects_ok_def)
  have "sint (- 2147483647 :: u32) = - 2147483647" by simp
  with d snprintf_strtol [OF d, of "- 2147483647"] show ?thesis by simp
qed

text \<open>
  C35. \<^verbatim>\<open>vsnprintf\<close> never writes outside the \<open>n\<close> bytes of its buffer, ends the text with a zero byte,
  truncates it to what fits, and returns the length of the whole text; with no buffer or no room it
  returns \<open>-E_INVAL\<close> and writes nothing.
\<close>
theorem vsnprintf_bounds:
  assumes "objects_ok m" and "format fmt ap = Inr cs" and "in_object m (b, i) (nat n)"
  defines "k \<equiv> min (length cs) (nat n - 1)"
  shows "vsnprintf None n fmt ap m = Inr (- E_INVAL, m) \<and>
    (if n < 1 then vsnprintf (Some (b, i)) n fmt ap m = Inr (- E_INVAL, m)
     else \<exists>m'. vsnprintf (Some (b, i)) n fmt ap m = Inr (int (length cs), m') \<and>
       take k (drop i (blk m' b)) = map of_int (take k cs) \<and> blk m' b ! (i + k) = 0 \<and>
       (\<forall>c. length (blk m' c) = length (blk m c)) \<and>
       (\<forall>c j. j < length (blk m c) \<and> \<not> (c = b \<and> i \<le> j \<and> j < i + nat n) \<longrightarrow> blk m' c ! j = blk m c ! j))"
proof -
  have "\<exists>m'. vsnprintf (Some (b, i)) n fmt ap m = Inr (int (length cs), m') \<and>
       take k (drop i (blk m' b)) = map of_int (take k cs) \<and> blk m' b ! (i + k) = 0 \<and>
       (\<forall>c. length (blk m' c) = length (blk m c)) \<and>
       (\<forall>c j. j < length (blk m c) \<and> \<not> (c = b \<and> i \<le> j \<and> j < i + nat n) \<longrightarrow> blk m' c ! j = blk m c ! j)"
    if n: "\<not> n < 1"
  proof -
    let ?xs = "map of_int (take (nat n - 1) cs) @ [0] :: u8 list"
    let ?m = "set_bytes b i ?xs m"
    have k: "length ?xs = Suc k" "Suc k \<le> nat n" using n by (auto simp: k_def min_def)
    then have r: "i + length ?xs \<le> length (blk m b)" using assms(3) by simp
    have at: "blk ?m b ! (i + j) = ?xs ! j" if "j \<le> k" for j
      using nth_set_bytes [OF r, of "i + j"] that k r by simp
    have "take k (drop i (blk ?m b)) = map of_int (take k cs)"
    proof (rule nth_equalityI)
      show "length (take k (drop i (blk ?m b))) = length (map of_int (take k cs) :: u8 list)"
        using k r by (auto simp: k_def min_def)
      show "take k (drop i (blk ?m b)) ! j = map of_int (take k cs) ! j" if "j < length (take k (drop i (blk ?m b)))" for j
        using that at [of j] r by (auto simp: nth_append k_def)
    qed
    moreover have "blk ?m b ! (i + k) = 0" using at [of k] k by (simp add: nth_append k_def)
    moreover have "blk ?m c ! j = blk m c ! j"
      if "j < length (blk m c)" "\<not> (c = b \<and> i \<le> j \<and> j < i + nat n)" for c j
      using that nth_set_bytes [OF r, of j] k by (cases "c = b") auto
    ultimately show ?thesis
      using vsnprintf_ok [OF assms(1,2) _ assms(3)] n by (intro exI [of _ ?m]) simp
  qed
  then show ?thesis by (simp add: vsnprintf_def)
qed

theorem vsnprintf_bounds_witness:
  "\<exists>m'. vsnprintf (Some (0, 2)) 4 (str ''%u'') [VW 12345] demo_buf = Inr (5, m') \<and>
    take 3 (drop 2 (blk m' 0)) = [0x31, 0x32, 0x33] \<and> blk m' 0 ! 5 = 0 \<and> blk m' 0 ! 6 = 0xAA"
proof -
  have ok: "objects_ok demo_buf" "in_object demo_buf (0, 2) (nat 4)" by (simp_all add: demo_buf_def objects_ok_def)
  have ds: "map digit_char (digs 10 (unat (12345 :: u32))) = [0x31, 0x32, 0x33, 0x34, 0x35]"
    by (simp add: digs.simps digit_char_def digits16_def)
  note f = format_unsigned [of 12345, unfolded ds]
  have k: "min (length [0x31, 0x32, 0x33, 0x34, 0x35 :: int]) (nat 4 - 1) = 3"
    "map of_int (take 3 [0x31, 0x32, 0x33, 0x34, 0x35]) = [0x31, 0x32, 0x33 :: u8]" by simp_all
  from vsnprintf_bounds [OF ok(1) f ok(2), unfolded k] obtain m' where
    m: "vsnprintf (Some (0, 2)) 4 (str ''%u'') [VW 12345] demo_buf = Inr (5, m')"
      "take 3 (drop 2 (blk m' 0)) = [0x31, 0x32, 0x33]" "blk m' 0 ! 5 = 0"
      "\<forall>c j. j < length (blk demo_buf c) \<and> \<not> (c = 0 \<and> 2 \<le> j \<and> j < 6) \<longrightarrow> blk m' c ! j = blk demo_buf c ! j"
    by auto
  from m(4) [rule_format, of 6 0] have "blk m' 0 ! 6 = 0xAA" by (simp add: demo_buf_def)
  with m show ?thesis by blast
qed

text \<open>
  C36. The buffered \<^verbatim>\<open>cprintf\<close> of a user program (\<^verbatim>\<open>lib/printf.c\<close>), on a system call that writes its bytes
  to the screen, has the same effect as the kernel's unbuffered \<^verbatim>\<open>printk\<close> and returns the same count.
\<close>
theorem cprintf_is_printk:
  assumes "format (str fmt) ap = Inr cs"
  shows "cprintf k_puts fmt ap s = printk fmt ap s"
  using fun_cong [OF screen_sink.vcprintf_puts [OF assms, of "replicate 256 0"], of s]
  by (simp add: cprintf_def printk_def vprintk_format [OF assms] k_puts_def)

theorem cprintf_is_printk_witness:
  "cprintf k_puts ''%u'' [VW 7] demo_screen = printk ''%u'' [VW 7] demo_screen"
  by (rule cprintf_is_printk [OF format_unsigned])

lemma vprintfmt_plain: "0x25 \<notin> set cs \<Longrightarrow> vprintfmt_loop d logch cs ap l = Inr ((), l @ map uint cs)"
  by (induction cs arbitrary: l) (auto simp: logch_def kbind_apply)

lemma format_plain: "0x25 \<notin> set cs \<Longrightarrow> format cs ap = Inr (map uint cs)"
  by (simp add: format_def vprintfmt_def vprintfmt_plain)

end
