(* ===== verification/PageAlloc.thy ===== *)
theory PageAlloc
  imports Printfmt
begin

text \<open>
  The physical page allocator of \<^verbatim>\<open>kernel/mem.c\<close>: memory detection, the boot-time allocator, the
  free list threaded through the array \<^verbatim>\<open>pages\<close>, and its operations \<^verbatim>\<open>page_init\<close>, \<^verbatim>\<open>page_alloc\<close>,
  \<^verbatim>\<open>page_free\<close> and \<^verbatim>\<open>page_decref\<close>.

  A \<^verbatim>\<open>struct PageInfo *\<close> is an optional index into \<open>pages\<close> (\<open>None\<close> for \<^verbatim>\<open>NULL\<close>). Physical memory
  is a map from page frames to their 1024 words; a kernel virtual address that points to the
  start of a page (what \<^verbatim>\<open>page2kva\<close> and \<^verbatim>\<open>KADDR(PTE_ADDR(e))\<close> return) is that page's frame.
  \<open>cr3\<close> and \<open>tlb\<close> are the running processor's page-directory register and translation cache (by
  page number of the linear address). \<open>pte_slot\<close> is what the uninitialised local variable
  \<^verbatim>\<open>pte\<close> of \<^verbatim>\<open>page_remove\<close> holds on entry. \<open>percpu_kstacks\<close>, \<open>lapic\<close> and \<open>lapicaddr\<close> are the globals of
  \<^verbatim>\<open>mpconfig.c\<close> and \<^verbatim>\<open>lapic.c\<close> that the kernel's address space depends on.
\<close>

section \<open>State\<close>

record PageInfo =
  pp_link :: "nat option"
  pp_ref :: u16

record kmem = kscreen +
  npages :: nat
  npages_basemem :: nat
  nextfree :: u32
  pages :: "PageInfo list"
  pages_va :: u32
  page_free_list :: "nat option"
  num_free_pages :: u32
  page_free_list_lock :: spinlock
  kern_pgdir :: nat
  mmio_base :: u32
  pmem :: "nat \<Rightarrow> nat \<Rightarrow> u32"
  cr3 :: u32
  tlb :: "nat \<Rightarrow> u32 option"
  pte_slot :: "(nat \<times> nat) option"
  percpu_kstacks :: "nat \<Rightarrow> u32"
  lapic :: u32
  lapicaddr :: u32

definition ALLOC_ZERO :: u32 where "ALLOC_ZERO = 1"

section \<open>Memory detection\<close>

text \<open>The real-time clock's memory is the function \<open>cmos\<close> from registers to bytes.\<close>

definition NVRAM_BASELO :: nat where "NVRAM_BASELO = 0x15"
definition NVRAM_EXTLO :: nat where "NVRAM_EXTLO = 0x17"

definition nvram_read :: "(nat \<Rightarrow> u8) \<Rightarrow> nat \<Rightarrow> ('a kio_scheme, u32) kfun" where
  "nvram_read cmos r =
     kbind (mc146818_read cmos r) (\<lambda>lo.
     kbind (mc146818_read cmos (r + 1)) (\<lambda>hi. kreturn (lo OR push_bit 8 hi)))"

definition i386_detect_memory :: "(nat \<Rightarrow> u8) \<Rightarrow> ('a kmem_scheme, unit) kfun" where
  "i386_detect_memory cmos =
     kbind (nvram_read cmos NVRAM_BASELO) (\<lambda>base.
     kbind (kmodify (\<lambda>s. s\<lparr>npages_basemem := unat (base * 1024 div PGSIZE)\<rparr>)) (\<lambda>_.
     kbind (nvram_read cmos NVRAM_EXTLO) (\<lambda>ext.
     let npages_extmem = unat (ext * 1024 div PGSIZE) in
     kbind (kmodify (\<lambda>s. s\<lparr>npages :=
       (if npages_extmem \<noteq> 0 then unat (EXTPHYSMEM div PGSIZE) + npages_extmem
        else npages_basemem s)\<rparr>)) (\<lambda>_.
     kbind (kgets npages) (\<lambda>n. kbind (kgets npages_basemem) (\<lambda>nb.
     kbind (printk (''Physical memory: %uK available, base = %uK, extended = %uK'' @ nl)
       [VW (of_nat n * PGSIZE div 1024), VW (of_nat nb * PGSIZE div 1024),
        VW (of_nat npages_extmem * PGSIZE div 1024)]) (\<lambda>_.
     kreturn ())))))))"

section \<open>The boot-time allocator\<close>

text \<open>\<open>kend\<close> is the linker's symbol \<^verbatim>\<open>end\<close>, the first address after the kernel's image.\<close>

definition boot_alloc :: "u32 \<Rightarrow> u32 \<Rightarrow> ('a kmem_scheme, u32) kfun" where
  "boot_alloc kend n =
     kbind (kmodify (\<lambda>s. if nextfree s = 0 then s\<lparr>nextfree := ROUNDUP kend PGSIZE\<rparr> else s)) (\<lambda>_.
     kbind (kgets nextfree) (\<lambda>result.
     if n = 0 then kreturn result
     else kbind (kmodify (\<lambda>s. s\<lparr>nextfree := nextfree s + ROUNDUP n PGSIZE\<rparr>)) (\<lambda>_.
       kreturn result)))"

section \<open>Page structures\<close>

definition get_pp :: "nat \<Rightarrow> ('a kmem_scheme, PageInfo) kfun" where
  "get_pp pp = (\<lambda>s. if pp < length (pages s) then Inr (pages s ! pp, s) else Inl BadIndex)"

definition set_pp :: "nat \<Rightarrow> (PageInfo \<Rightarrow> PageInfo) \<Rightarrow> ('a kmem_scheme, unit) kfun" where
  "set_pp pp f = (\<lambda>s. if pp < length (pages s)
     then Inr ((), s\<lparr>pages := (pages s)[pp := f (pages s ! pp)]\<rparr>) else Inl BadIndex)"

definition lift_sum :: "('a kmem_scheme \<Rightarrow> kfault + 'b) \<Rightarrow> ('a kmem_scheme, 'b) kfun" where
  "lift_sum f = (\<lambda>s. case f s of Inl e \<Rightarrow> Inl e | Inr x \<Rightarrow> Inr (x, s))"

definition PADDR :: "u32 \<Rightarrow> ('a kmem_scheme, u32) kfun" where
  "PADDR kva = lift_sum (\<lambda>_. paddr kva)"

definition KADDR :: "u32 \<Rightarrow> ('a kmem_scheme, u32) kfun" where
  "KADDR pa = lift_sum (\<lambda>s. kaddr (npages s) pa)"

definition kva_frame :: "u32 \<Rightarrow> nat" where
  "kva_frame kva = PGNUM (kva - KERNBASE)"

definition KADDR_frame :: "u32 \<Rightarrow> ('a kmem_scheme, nat) kfun" where
  "KADDR_frame pa = kbind (KADDR pa) (\<lambda>kva. kreturn (kva_frame kva))"

definition page2kva :: "nat \<Rightarrow> ('a kmem_scheme, nat) kfun" where
  "page2kva pp = KADDR_frame (page2pa pp)"

text \<open>
  \<^verbatim>\<open>memset\<close> of a whole page: the address and the length are multiples of four, so the byte is
  stored as words of four copies of it.
\<close>

definition memset_page :: "nat \<Rightarrow> u32 \<Rightarrow> ('a kmem_scheme, unit) kfun" where
  "memset_page fr c = kmodify (\<lambda>s. s\<lparr>pmem := (pmem s)(fr := (\<lambda>_. memset_word c))\<rparr>)"

section \<open>The free list\<close>

definition lock_free_list :: "('a kmem_scheme, unit) kfun" where
  "lock_free_list = acquire page_free_list_lock page_free_list_lock_update"

definition unlock_free_list :: "('a kmem_scheme, unit) kfun" where
  "unlock_free_list = release page_free_list_lock page_free_list_lock_update"

text \<open>One iteration of the loops of \<^verbatim>\<open>page_init\<close> that put a page on the free list.\<close>

definition page_init_free :: "nat \<Rightarrow> ('a kmem_scheme, unit) kfun" where
  "page_init_free i =
     kbind (set_pp i (\<lambda>p. p\<lparr>pp_ref := 0\<rparr>)) (\<lambda>_.
     kbind (kgets page_free_list) (\<lambda>fl.
     kbind (set_pp i (\<lambda>p. p\<lparr>pp_link := fl\<rparr>)) (\<lambda>_.
     kmodify (\<lambda>s. s\<lparr>page_free_list := Some i, num_free_pages := num_free_pages s + 1\<rparr>))))"

definition page_init_used :: "nat \<Rightarrow> ('a kmem_scheme, unit) kfun" where
  "page_init_used i = set_pp i (\<lambda>p. p\<lparr>pp_link := None\<rparr>)"

definition first_free_frame :: "u32 \<Rightarrow> ('a kmem_scheme, nat) kfun" where
  "first_free_frame kend =
     kbind (boot_alloc kend 0) (\<lambda>nf. kbind (PADDR nf) (\<lambda>pa. kreturn (unat (pa div PGSIZE))))"

definition page_init :: "u32 \<Rightarrow> ('a kmem_scheme, unit) kfun" where
  "page_init kend =
     kbind (page_init_used 0) (\<lambda>_.
     kbind (kfor [1..<PGNUM MPENTRY_PADDR] page_init_free) (\<lambda>_.
     kbind (page_init_used (PGNUM MPENTRY_PADDR)) (\<lambda>_.
     kbind (kgets npages_basemem) (\<lambda>nb.
     kbind (kfor [PGNUM MPENTRY_PADDR + 1..<nb] page_init_free) (\<lambda>_.
     kbind (kfor [nb..<unat (EXTPHYSMEM div PGSIZE)] page_init_used) (\<lambda>_.
     kbind (first_free_frame kend) (\<lambda>k.
     kbind (kfor [unat (EXTPHYSMEM div PGSIZE)..<k] page_init_used) (\<lambda>_.
     kbind (kgets npages) (\<lambda>n.
     kfor [k..<n] page_init_free)))))))))"

definition page_alloc :: "u32 \<Rightarrow> ('a kmem_scheme, nat option) kfun" where
  "page_alloc alloc_flags =
     kbind lock_free_list (\<lambda>_.
     kbind (kgets page_free_list) (\<lambda>fl.
     case fl of
       None \<Rightarrow> kbind unlock_free_list (\<lambda>_. kreturn None)
     | Some pp \<Rightarrow>
         kbind (get_pp pp) (\<lambda>p.
         kbind (kmodify (\<lambda>s. s\<lparr>page_free_list := pp_link p\<rparr>)) (\<lambda>_.
         kbind (set_pp pp (\<lambda>p. p\<lparr>pp_link := None\<rparr>)) (\<lambda>_.
         kbind (kwhen (alloc_flags AND ALLOC_ZERO \<noteq> 0)
                  (kbind (page2kva pp) (\<lambda>fr. memset_page fr 0))) (\<lambda>_.
         kbind (kmodify (\<lambda>s. s\<lparr>num_free_pages := num_free_pages s - 1\<rparr>)) (\<lambda>_.
         kbind unlock_free_list (\<lambda>_.
         kreturn (Some pp)))))))))"

definition page_free :: "nat \<Rightarrow> ('a kmem_scheme, unit) kfun" where
  "page_free pp =
     kbind (get_pp pp) (\<lambda>p.
     if pp_ref p \<noteq> 0 then kfail (Panic ''page_free: pp_ref is nonzero'')
     else if pp_link p \<noteq> None then kfail (Panic ''page_free: pp_link is not NULL'')
     else
       kbind lock_free_list (\<lambda>_.
       kbind (kgets page_free_list) (\<lambda>fl.
       kbind (set_pp pp (\<lambda>p. p\<lparr>pp_link := fl\<rparr>)) (\<lambda>_.
       kbind (kmodify (\<lambda>s. s\<lparr>page_free_list := Some pp,
                              num_free_pages := num_free_pages s + 1\<rparr>)) (\<lambda>_.
       unlock_free_list)))))"

definition page_decref :: "nat \<Rightarrow> ('a kmem_scheme, unit) kfun" where
  "page_decref pp =
     kbind (set_pp pp (\<lambda>p. p\<lparr>pp_ref := pp_ref p - 1\<rparr>)) (\<lambda>_.
     kbind (get_pp pp) (\<lambda>p.
     kwhen (pp_ref p = 0) (page_free pp)))"

definition sys_get_num_free_page :: "('a kmem_scheme, u32) kfun" where
  "sys_get_num_free_page = kgets num_free_pages"

definition sys_get_num_used_page :: "('a kmem_scheme, u32) kfun" where
  "sys_get_num_used_page = kgets (\<lambda>s. of_nat (npages s) - num_free_pages s)"

section \<open>The invariant of the free list\<close>

fun pplist :: "PageInfo list \<Rightarrow> nat option \<Rightarrow> nat list \<Rightarrow> bool" where
  "pplist ps p [] \<longleftrightarrow> p = None"
| "pplist ps p (x # xs) \<longleftrightarrow> p = Some x \<and> x < length ps \<and> pplist ps (pp_link (ps ! x)) xs"

definition pages_inv :: "'a kmem_scheme \<Rightarrow> nat list \<Rightarrow> bool" where
  "pages_inv s fl \<longleftrightarrow>
     lock_free (page_free_list_lock s) \<and>
     length (pages s) = npages s \<and> npages s \<le> 65536 \<and>
     pplist (pages s) (page_free_list s) fl \<and>
     (\<forall>i \<in> set fl. pp_ref (pages s ! i) = 0) \<and>
     (\<forall>i < npages s. i \<notin> set fl \<longrightarrow> pp_link (pages s ! i) = None) \<and>
     unat (num_free_pages s) = length fl"

lemma pplist_bound: "pplist ps p xs \<Longrightarrow> x \<in> set xs \<Longrightarrow> x < length ps"
  by (induction xs arbitrary: p) auto

lemma pplist_update: "i \<notin> set xs \<Longrightarrow> pplist (ps[i := v]) p xs = pplist ps p xs"
  by (induction xs arbitrary: p) auto

lemma pplist_unique: "pplist ps p xs \<Longrightarrow> pplist ps p ys \<Longrightarrow> xs = ys"
proof (induction xs arbitrary: p ys)
  case Nil
  then show ?case by (cases ys) auto
next
  case (Cons x xs)
  then show ?case by (cases ys) auto
qed

lemma pplist_suffix: "pplist ps p (xs @ y # ys) \<Longrightarrow> pplist ps (Some y) (y # ys)"
  by (induction xs arbitrary: p) auto

text \<open>A list that ends is free of repetitions: from a node there is only one way on.\<close>

lemma pplist_distinct: "pplist ps p xs \<Longrightarrow> distinct xs"
proof (induction xs arbitrary: p)
  case (Cons x xs)
  have "x \<notin> set xs"
  proof
    assume "x \<in> set xs"
    then obtain as bs where xs: "xs = as @ x # bs" by (meson split_list)
    from Cons.prems have "pplist ps (Some x) (x # xs)" by simp
    moreover from Cons.prems xs have "pplist ps (Some x) (x # bs)"
      using pplist_suffix [of ps p "x # as" x bs] by simp
    ultimately have "x # xs = x # bs" by (rule pplist_unique)
    with xs show False by simp
  qed
  with Cons show ?case by auto
qed simp

text \<open>Changing the link of the last node does not change how the list gets to it.\<close>

lemma pplist_reaches_last:
  assumes "pplist ps p (xs @ [y])" and "y \<notin> set xs" and "pplist (ps[y := v]) p zs"
  shows "\<exists>ws. zs = xs @ y # ws"
  using assms
proof (induction xs arbitrary: p zs)
  case Nil
  then show ?case by (cases zs) auto
next
  case (Cons x xs)
  then obtain zs' where zs: "zs = x # zs'" by (cases zs) auto
  with Cons.prems have "pplist (ps[y := v]) (pp_link (ps ! x)) zs'" by auto
  with Cons zs show ?case by auto
qed

lemma pages_inv_distinct: "pages_inv s fl \<Longrightarrow> distinct fl"
  by (auto simp: pages_inv_def intro: pplist_distinct)

lemma pages_inv_bound: "pages_inv s fl \<Longrightarrow> i \<in> set fl \<Longrightarrow> i < npages s"
  by (auto simp: pages_inv_def dest: pplist_bound)

lemma pages_inv_fl_unique: "pages_inv s fl \<Longrightarrow> pages_inv s fl' \<Longrightarrow> fl = fl'"
  by (auto simp: pages_inv_def intro: pplist_unique)

lemma pages_inv_length: "pages_inv s fl \<Longrightarrow> length fl \<le> npages s"
proof -
  assume inv: "pages_inv s fl"
  then have "length fl = card (set fl)" by (simp add: distinct_card pages_inv_distinct)
  also have "\<dots> \<le> card {..<npages s}"
    using inv by (intro card_mono) (auto dest: pages_inv_bound)
  finally show ?thesis by simp
qed

section \<open>The allocator's operations on a well-formed state\<close>

interpretation pfl: lock_field page_free_list_lock page_free_list_lock_update
  by unfold_locales simp_all

lemma kaddr_frame_page [simp]:
  "pp < npages s \<Longrightarrow> npages s \<le> 65536 \<Longrightarrow> KADDR_frame (page2pa pp) s = Inr (pp, s)"
  by (simp add: KADDR_frame_def KADDR_def lift_sum_def kaddr_page2pa kva_frame_def kbind_apply)

lemma page2kva_page [simp]:
  "pp < npages s \<Longrightarrow> npages s \<le> 65536 \<Longrightarrow> page2kva pp s = Inr (pp, s)"
  by (simp add: page2kva_def)

lemma memset_word_0 [simp]: "memset_word 0 = 0"
  by (simp add: memset_word_def)

text \<open>What a successful \<^verbatim>\<open>page_alloc\<close> and a \<^verbatim>\<open>page_free\<close> do besides taking and releasing the lock.\<close>

definition alloc_state :: "u32 \<Rightarrow> nat \<Rightarrow> 'a kmem_scheme \<Rightarrow> 'a kmem_scheme" where
  "alloc_state flags pp s =
     (let s1 = s\<lparr>page_free_list := pp_link (pages s ! pp),
                pages := (pages s)[pp := (pages s ! pp)\<lparr>pp_link := None\<rparr>]\<rparr>;
          s2 = (if flags AND ALLOC_ZERO \<noteq> 0 then s1\<lparr>pmem := (pmem s)(pp := (\<lambda>_. 0))\<rparr> else s1)
      in s2\<lparr>num_free_pages := num_free_pages s - 1\<rparr>)"

definition free_state :: "nat \<Rightarrow> 'a kmem_scheme \<Rightarrow> 'a kmem_scheme" where
  "free_state pp s = s\<lparr>pages := (pages s)[pp := (pages s ! pp)\<lparr>pp_link := page_free_list s\<rparr>],
     page_free_list := Some pp,
     num_free_pages := num_free_pages s + 1\<rparr>"

lemma alloc_state_simps [simp]:
  "cur_cpu (alloc_state flags pp s) = cur_cpu s"
  "ebp (alloc_state flags pp s) = ebp s"
  "stack_word (alloc_state flags pp s) = stack_word s"
  "port_log (alloc_state flags pp s) = port_log s"
  "irq_mask_8259A (alloc_state flags pp s) = irq_mask_8259A s"
  "didinit (alloc_state flags pp s) = didinit s"
  "vga (alloc_state flags pp s) = vga s"
  "textmemptr (alloc_state flags pp s) = textmemptr s"
  "attrib (alloc_state flags pp s) = attrib s"
  "csr_x (alloc_state flags pp s) = csr_x s"
  "csr_y (alloc_state flags pp s) = csr_y s"
  "screen_lock (alloc_state flags pp s) = screen_lock s"
  "npages (alloc_state flags pp s) = npages s"
  "npages_basemem (alloc_state flags pp s) = npages_basemem s"
  "nextfree (alloc_state flags pp s) = nextfree s"
  "pages_va (alloc_state flags pp s) = pages_va s"
  "page_free_list_lock (alloc_state flags pp s) = page_free_list_lock s"
  "kern_pgdir (alloc_state flags pp s) = kern_pgdir s"
  "mmio_base (alloc_state flags pp s) = mmio_base s"
  "cr3 (alloc_state flags pp s) = cr3 s"
  "tlb (alloc_state flags pp s) = tlb s"
  "pte_slot (alloc_state flags pp s) = pte_slot s"
  "percpu_kstacks (alloc_state flags pp s) = percpu_kstacks s"
  "lapic (alloc_state flags pp s) = lapic s"
  "lapicaddr (alloc_state flags pp s) = lapicaddr s"
  "page_free_list (alloc_state flags pp s) = pp_link (pages s ! pp)"
  "pages (alloc_state flags pp s) = (pages s)[pp := (pages s ! pp)\<lparr>pp_link := None\<rparr>]"
  "num_free_pages (alloc_state flags pp s) = num_free_pages s - 1"
  "pmem (alloc_state flags pp s) = (if flags AND ALLOC_ZERO \<noteq> 0 then (pmem s)(pp := (\<lambda>_. 0)) else pmem s)"
  by (simp_all add: alloc_state_def Let_def)

lemma free_state_simps [simp]:
  "cur_cpu (free_state pp s) = cur_cpu s"
  "ebp (free_state pp s) = ebp s"
  "stack_word (free_state pp s) = stack_word s"
  "port_log (free_state pp s) = port_log s"
  "irq_mask_8259A (free_state pp s) = irq_mask_8259A s"
  "didinit (free_state pp s) = didinit s"
  "vga (free_state pp s) = vga s"
  "textmemptr (free_state pp s) = textmemptr s"
  "attrib (free_state pp s) = attrib s"
  "csr_x (free_state pp s) = csr_x s"
  "csr_y (free_state pp s) = csr_y s"
  "screen_lock (free_state pp s) = screen_lock s"
  "npages (free_state pp s) = npages s"
  "npages_basemem (free_state pp s) = npages_basemem s"
  "nextfree (free_state pp s) = nextfree s"
  "pages_va (free_state pp s) = pages_va s"
  "page_free_list_lock (free_state pp s) = page_free_list_lock s"
  "kern_pgdir (free_state pp s) = kern_pgdir s"
  "mmio_base (free_state pp s) = mmio_base s"
  "cr3 (free_state pp s) = cr3 s"
  "tlb (free_state pp s) = tlb s"
  "pte_slot (free_state pp s) = pte_slot s"
  "percpu_kstacks (free_state pp s) = percpu_kstacks s"
  "lapic (free_state pp s) = lapic s"
  "lapicaddr (free_state pp s) = lapicaddr s"
  "page_free_list (free_state pp s) = Some pp"
  "pages (free_state pp s) = (pages s)[pp := (pages s ! pp)\<lparr>pp_link := page_free_list s\<rparr>]"
  "num_free_pages (free_state pp s) = num_free_pages s + 1"
  "pmem (free_state pp s) = pmem s"
  by (simp_all add: free_state_def Let_def)

abbreviation with_lock :: "spinlock \<Rightarrow> 'a kmem_scheme \<Rightarrow> 'a kmem_scheme" where
  "with_lock l s \<equiv> page_free_list_lock_update (\<lambda>_. l) s"

lemma page_alloc_None:
  assumes "pages_inv s []"
  shows "\<exists>l. page_alloc flags s = Inr (None, with_lock l s) \<and> lock_free l"
proof -
  from assms have free: "lock_free (page_free_list_lock s)" and fl: "page_free_list s = None"
    by (auto simp: pages_inv_def)
  from pfl.acquire_free [OF free] obtain l where
    acq: "lock_free_list s = Inr ((), with_lock l s)" and "holding s l"
    by (auto simp: lock_free_list_def)
  then have "holding (with_lock l s) (page_free_list_lock (with_lock l s))"
    by (simp add: holding_def)
  from pfl.release_held [OF this] obtain l' where
    "unlock_free_list (with_lock l s) = Inr ((), with_lock l' (with_lock l s))" "lock_free l'"
    by (auto simp: unlock_free_list_def)
  with acq fl show ?thesis
    by (auto simp: page_alloc_def kbind_apply)
qed

lemma page_alloc_Some:
  assumes inv: "pages_inv s (pp # fl)"
  shows "\<exists>l. page_alloc flags s = Inr (Some pp, with_lock l (alloc_state flags pp s)) \<and> lock_free l"
proof -
  from inv have free: "lock_free (page_free_list_lock s)" and hd: "page_free_list s = Some pp"
    and len: "length (pages s) = npages s" and pp: "pp < npages s" and n: "npages s \<le> 65536"
    by (auto simp: pages_inv_def)
  from pfl.acquire_free [OF free] obtain l where
    acq: "lock_free_list s = Inr ((), with_lock l s)" and held: "holding s l"
    by (auto simp: lock_free_list_def)
  let ?t = "alloc_state flags pp (with_lock l s)"
  from held have "holding ?t (page_free_list_lock ?t)"
    by (simp add: holding_def)
  from pfl.release_held [OF this] obtain l' where
    rel: "unlock_free_list ?t = Inr ((), with_lock l' ?t)" "lock_free l'"
    by (auto simp: unlock_free_list_def)
  have "page_alloc flags s = Inr (Some pp, with_lock l' ?t)"
    using acq hd len pp n rel(1)
    by (cases "flags AND ALLOC_ZERO = 0")
      (simp_all add: page_alloc_def kbind_apply kwhen_apply get_pp_def set_pp_def memset_page_def
        alloc_state_def Let_def)
  moreover have "with_lock l' ?t = with_lock l' (alloc_state flags pp s)"
    by (simp add: alloc_state_def Let_def)
  ultimately show ?thesis using rel(2) by auto
qed

lemma pages_inv_alloc:
  assumes inv: "pages_inv s (pp # fl)" and "lock_free l"
  shows "pages_inv (with_lock l (alloc_state flags pp s)) fl"
proof -
  from inv have d: "distinct (pp # fl)" by (rule pages_inv_distinct)
  then have ppn: "pp \<notin> set fl" by simp
  from inv have "unat (num_free_pages s) = Suc (length fl)" by (simp add: pages_inv_def)
  then have "unat (num_free_pages s - 1) = length fl"
    by (simp add: unat_minus_one unat_gt_0 [symmetric])
  with inv ppn assms(2) show ?thesis
    by (auto simp: pages_inv_def pplist_update nth_list_update)
qed

lemma page_free_run:
  assumes free: "lock_free (page_free_list_lock s)" and pp: "pp < length (pages s)"
    and ref: "pp_ref (pages s ! pp) = 0" and link: "pp_link (pages s ! pp) = None"
  shows "\<exists>l. page_free pp s = Inr ((), with_lock l (free_state pp s)) \<and> lock_free l"
proof -
  from pfl.acquire_free [OF free] obtain l where
    acq: "lock_free_list s = Inr ((), with_lock l s)" and held: "holding s l"
    by (auto simp: lock_free_list_def)
  let ?t = "free_state pp (with_lock l s)"
  from held have "holding ?t (page_free_list_lock ?t)"
    by (simp add: holding_def)
  from pfl.release_held [OF this] obtain l' where
    rel: "unlock_free_list ?t = Inr ((), with_lock l' ?t)" "lock_free l'"
    by (auto simp: unlock_free_list_def)
  have "page_free pp s = Inr ((), with_lock l' ?t)"
    using acq pp ref link rel(1)
    by (simp add: page_free_def kbind_apply get_pp_def set_pp_def free_state_def)
  moreover have "with_lock l' ?t = with_lock l' (free_state pp s)"
    by (simp add: free_state_def)
  ultimately show ?thesis using rel(2) by auto
qed

lemma page_free_ok:
  assumes "pages_inv s fl" and "pp < npages s" "pp \<notin> set fl" and "pp_ref (pages s ! pp) = 0"
  shows "\<exists>l. page_free pp s = Inr ((), with_lock l (free_state pp s)) \<and> lock_free l"
  using assms by (intro page_free_run) (auto simp: pages_inv_def)

lemma pages_inv_free:
  assumes inv: "pages_inv s fl" and pp: "pp < npages s" "pp \<notin> set fl"
    and ref: "pp_ref (pages s ! pp) = 0" and "lock_free l"
  shows "pages_inv (with_lock l (free_state pp s)) (pp # fl)"
proof -
  from inv have n: "length fl \<le> npages s" "npages s \<le> 65536" "unat (num_free_pages s) = length fl"
    by (auto simp: pages_inv_length pages_inv_def)
  then have "unat (num_free_pages s + 1) = Suc (length fl)"
    by (simp add: unat_word_ariths)
  moreover have "pages s ! i = (pages s)[pp := v] ! i" if "i \<in> set fl" for i v
    using pp that by (cases "i = pp") auto
  ultimately show ?thesis using assms
    by (auto simp: pages_inv_def pplist_update nth_list_update)
qed

section \<open>Initialisation\<close>

definition pages_frame :: "'a kmem_scheme \<Rightarrow> 'a kmem_scheme \<Rightarrow> bool" where
  "pages_frame s s' \<longleftrightarrow>
     (\<exists>ps f n. s' = s\<lparr>pages := ps, page_free_list := f, num_free_pages := n\<rparr>)"

lemma pages_frame_refl: "pages_frame s s"
  unfolding pages_frame_def
  by (rule exI [of _ "pages s"], rule exI [of _ "page_free_list s"],
      rule exI [of _ "num_free_pages s"]) simp

lemma pages_frame_trans: "pages_frame s t \<Longrightarrow> pages_frame t u \<Longrightarrow> pages_frame s u"
  unfolding pages_frame_def by (elim exE, hypsubst, intro exI) simp

lemma pages_frame_simps:
  assumes "pages_frame s s'"
  shows "npages s' = npages s" "npages_basemem s' = npages_basemem s" "nextfree s' = nextfree s"
    "pmem s' = pmem s" "page_free_list_lock s' = page_free_list_lock s"
  using assms by (auto simp: pages_frame_def)

lemma page_init_free_step:
  assumes inv: "pages_inv s fl" and i: "i < npages s" "i \<notin> set fl"
  shows "\<exists>s'. page_init_free i s = Inr ((), s') \<and> pages_inv s' (i # fl) \<and> pages_frame s s'"
proof -
  from inv have len: "length (pages s) = npages s" by (simp add: pages_inv_def)
  let ?s' = "s\<lparr>pages := (pages s)[i := (pages s ! i)\<lparr>pp_ref := 0, pp_link := page_free_list s\<rparr>],
    page_free_list := Some i, num_free_pages := num_free_pages s + 1\<rparr>"
  have run: "page_init_free i s = Inr ((), ?s')"
    using i len by (simp add: page_init_free_def kbind_apply set_pp_def)
  have "length fl \<le> npages s" "npages s \<le> 65536" "unat (num_free_pages s) = length fl"
    using inv by (auto simp: pages_inv_length pages_inv_def)
  then have "unat (num_free_pages s + 1) = Suc (length fl)"
    by (simp add: unat_word_ariths)
  then have "pages_inv ?s' (i # fl)"
    using inv i by (auto simp: pages_inv_def pplist_update nth_list_update)
  moreover have "pages_frame s ?s'" unfolding pages_frame_def by blast
  ultimately show ?thesis using run by blast
qed

lemma page_init_used_step:
  assumes inv: "pages_inv s fl" and i: "i < npages s" "i \<notin> set fl"
  shows "page_init_used i s = Inr ((), s)"
proof -
  from inv i have "length (pages s) = npages s" "pp_link (pages s ! i) = None"
    by (auto simp: pages_inv_def)
  then have "(pages s)[i := (pages s ! i)\<lparr>pp_link := None\<rparr>] = pages s"
    by (metis (no_types, lifting) PageInfo.surjective PageInfo.update_convs(1) list_update_id)
  with i \<open>length (pages s) = npages s\<close> show ?thesis
    by (simp add: page_init_used_def set_pp_def)
qed

lemma page_init_free_loop:
  assumes "pages_inv s fl" and "distinct xs" and "\<forall>i \<in> set xs. i < npages s \<and> i \<notin> set fl"
  shows "\<exists>s'. kfor xs page_init_free s = Inr ((), s') \<and> pages_inv s' (rev xs @ fl) \<and> pages_frame s s'"
  using assms
proof (induction xs arbitrary: s fl)
  case Nil
  then show ?case by (auto simp: pages_frame_refl)
next
  case (Cons x xs)
  from page_init_free_step [of s fl x] Cons.prems obtain s1 where
    s1: "page_init_free x s = Inr ((), s1)" "pages_inv s1 (x # fl)" "pages_frame s s1" by auto
  have "\<forall>i \<in> set xs. i < npages s1 \<and> i \<notin> set (x # fl)"
    using Cons.prems s1(3) by (auto simp: pages_frame_simps)
  with Cons.IH [of s1 "x # fl"] s1(2) Cons.prems(2) obtain s2 where
    "kfor xs page_init_free s1 = Inr ((), s2)" "pages_inv s2 (rev xs @ x # fl)" "pages_frame s1 s2"
    by auto
  with s1 show ?case by (auto intro: pages_frame_trans)
qed

lemma page_init_used_loop:
  assumes "pages_inv s fl" and "\<forall>i \<in> set xs. i < npages s \<and> i \<notin> set fl"
  shows "kfor xs page_init_used s = Inr ((), s)"
  using assms by (induction xs) (auto simp: page_init_used_step)

text \<open>The state in which \<^verbatim>\<open>mem_init\<close> calls \<^verbatim>\<open>page_init\<close>: the array \<^verbatim>\<open>pages\<close> has been cleared.\<close>

definition boot_state :: "nat \<Rightarrow> 'a kmem_scheme \<Rightarrow> bool" where
  "boot_state k s \<longleftrightarrow>
     lock_free (page_free_list_lock s) \<and> npages s \<le> 65536 \<and>
     pages s = replicate (npages s) \<lparr>pp_link = None, pp_ref = 0\<rparr> \<and>
     page_free_list s = None \<and> num_free_pages s = 0 \<and>
     nextfree s = KERNBASE + of_nat k * PGSIZE \<and>
     7 < npages_basemem s \<and> npages_basemem s \<le> 256 \<and> 256 \<le> k \<and> k < npages s"

lemma boot_state_inv: "boot_state k s \<Longrightarrow> pages_inv s []"
  by (auto simp: boot_state_def pages_inv_def)

lemma first_free_frame_boot:
  assumes "nextfree s = KERNBASE + of_nat k * PGSIZE" and "0 < k" and "k < 65536"
  shows "first_free_frame kend s = Inr (k, s)"
proof -
  have k: "unat (of_nat k * PGSIZE :: u32) = k * 4096"
    using assms by (simp add: PGSIZE_def unat_word_ariths unat_of_nat_small)
  then have nz: "(KERNBASE + of_nat k * PGSIZE :: u32) \<noteq> 0"
    "\<not> KERNBASE + of_nat k * PGSIZE < KERNBASE"
    using assms by (auto simp: KERNBASE_def word_less_nat_alt unat_word_ariths unat_0_iff [symmetric])
  have "unat (of_nat k * PGSIZE div PGSIZE :: u32) = k"
    using k by (simp add: unat_div PGSIZE_def)
  with nz assms(1) show ?thesis
    by (simp add: first_free_frame_def boot_alloc_def kbind_apply PADDR_def lift_sum_def paddr_def)
qed

lemma page_init_boot:
  assumes boot: "boot_state k s"
  shows "\<exists>s'. page_init kend s = Inr ((), s') \<and>
    pages_inv s' (rev ([1..<7] @ [8..<npages_basemem s] @ [k..<npages s])) \<and> pages_frame s s'"
proof -
  let ?nb = "npages_basemem s"
  from boot have inv: "pages_inv s []" and nb: "7 < ?nb" "?nb \<le> 256" and kb: "256 \<le> k" "k < npages s"
    and k: "k < 65536" and nf: "nextfree s = KERNBASE + of_nat k * PGSIZE"
    by (auto simp: boot_state_inv) (auto simp: boot_state_def)
  have mp: "PGNUM MPENTRY_PADDR = 7" by (simp add: PGNUM_div MPENTRY_PADDR_def)
  have ext: "unat (EXTPHYSMEM div PGSIZE) = 256" by (simp add: EXTPHYSMEM_def PGSIZE_def)
  have u0: "page_init_used 0 s = Inr ((), s)"
    using page_init_used_step [OF inv] nb kb by simp
  from page_init_free_loop [OF inv, of "[1..<7]"] nb kb obtain s1 where
    s1: "kfor [1..<7] page_init_free s = Inr ((), s1)" "pages_inv s1 (rev [1..<7])" "pages_frame s s1"
    by auto
  note f1 = pages_frame_simps [OF s1(3)]
  have u7: "page_init_used 7 s1 = Inr ((), s1)"
    using page_init_used_step [OF s1(2)] nb kb f1 by simp
  from page_init_free_loop [OF s1(2), of "[8..<?nb]"] nb kb f1 obtain s2 where
    s2: "kfor [8..<?nb] page_init_free s1 = Inr ((), s2)"
      "pages_inv s2 (rev [8..<?nb] @ rev [1..<7])" "pages_frame s1 s2"
    by auto
  note f2 = pages_frame_simps [OF s2(3)]
  have u8: "kfor [?nb..<256] page_init_used s2 = Inr ((), s2)"
    using nb kb f1 f2 by (intro page_init_used_loop [OF s2(2)]) auto
  have ff: "first_free_frame kend s2 = Inr (k, s2)"
    using nf f1 f2 kb k by (intro first_free_frame_boot) auto
  have u9: "kfor [256..<k] page_init_used s2 = Inr ((), s2)"
    using nb kb f1 f2 by (intro page_init_used_loop [OF s2(2)]) auto
  have "\<forall>i\<in>set [k..<npages s]. i < npages s2 \<and> i \<notin> set (rev [8..<?nb] @ rev [1..<7])"
    using nb kb f1 f2 by auto
  from page_init_free_loop [OF s2(2) _ this] obtain s3 where
    s3: "kfor [k..<npages s] page_init_free s2 = Inr ((), s3)"
      "pages_inv s3 (rev [k..<npages s] @ rev [8..<?nb] @ rev [1..<7])" "pages_frame s2 s3"
    by auto
  have "page_init kend s = Inr ((), s3)"
    using u0 s1(1) u7 s2(1) u8 ff u9 s3(1) f1 f2
    by (simp add: page_init_def kbind_apply mp ext)
  moreover have "pages_frame s s3" using s1(3) s2(3) s3(3) by (blast intro: pages_frame_trans)
  ultimately show ?thesis using s3(2) by auto
qed

section \<open>The allocator's interface\<close>

text \<open>
  What a client of the allocator relies on: a list of free frames without repetitions describes
  the state, allocation takes its head or reports that it is empty, and a frame that is not on
  it and that nobody references can be put back.
\<close>

locale page_allocator =
  fixes inv :: "'s \<Rightarrow> nat list \<Rightarrow> bool"
    and alloc :: "('s, nat option) kfun"
    and free :: "nat \<Rightarrow> ('s, unit) kfun"
    and freeable :: "'s \<Rightarrow> nat \<Rightarrow> bool"
  assumes inv_distinct: "inv s fl \<Longrightarrow> distinct fl"
    and alloc_empty: "inv s [] \<Longrightarrow> \<exists>s'. alloc s = Inr (None, s') \<and> inv s' []"
    and alloc_head: "inv s (p # fl) \<Longrightarrow> \<exists>s'. alloc s = Inr (Some p, s') \<and> inv s' fl \<and> freeable s' p"
    and free_ok: "inv s fl \<Longrightarrow> freeable s p \<Longrightarrow> p \<notin> set fl \<Longrightarrow>
      \<exists>s'. free p s = Inr ((), s') \<and> inv s' (p # fl)"

text \<open>A client that allocates until it has \<open>n\<close> pages or there are none left.\<close>

fun alloc_many :: "('s, nat option) kfun \<Rightarrow> nat \<Rightarrow> ('s, nat list) kfun" where
  "alloc_many al 0 = kreturn []"
| "alloc_many al (Suc n) = kbind al (\<lambda>r. case r of
     None \<Rightarrow> kreturn []
   | Some p \<Rightarrow> kbind (alloc_many al n) (\<lambda>ps. kreturn (p # ps)))"

context page_allocator
begin

lemma alloc_many_take:
  "inv s fl \<Longrightarrow> \<exists>s'. alloc_many alloc n s = Inr (take n fl, s') \<and> inv s' (drop n fl)"
proof (induction n arbitrary: s fl)
  case 0
  then show ?case by simp
next
  case (Suc n)
  show ?case
  proof (cases fl)
    case Nil
    with alloc_empty Suc.prems obtain s' where "alloc s = Inr (None, s')" "inv s' []" by blast
    with Nil show ?thesis by (simp add: kbind_apply)
  next
    case (Cons p fl')
    with alloc_head Suc.prems obtain s1 where s1: "alloc s = Inr (Some p, s1)" "inv s1 fl'" by blast
    from Suc.IH [OF s1(2)] obtain s2 where
      "alloc_many alloc n s1 = Inr (take n fl', s2)" "inv s2 (drop n fl')" by blast
    with s1 Cons show ?thesis by (simp add: kbind_apply)
  qed
qed

lemma alloc_free_alloc:
  assumes "inv s (p # fl)"
  shows "\<exists>s'. kbind alloc (\<lambda>_. kbind (free p) (\<lambda>_. alloc)) s = Inr (Some p, s') \<and> inv s' fl"
proof -
  from alloc_head [OF assms] obtain s1 where
    s1: "alloc s = Inr (Some p, s1)" "inv s1 fl" "freeable s1 p" by blast
  moreover have "p \<notin> set fl" using inv_distinct [OF assms] by simp
  ultimately obtain s2 where s2: "free p s1 = Inr ((), s2)" "inv s2 (p # fl)"
    using free_ok by blast
  from alloc_head [OF s2(2)] obtain s3 where "alloc s2 = Inr (Some p, s3)" "inv s3 fl" by blast
  with s1 s2 show ?thesis by (simp add: kbind_apply)
qed

end

definition page_freeable :: "'a kmem_scheme \<Rightarrow> nat \<Rightarrow> bool" where
  "page_freeable s p \<longleftrightarrow> p < npages s \<and> pp_ref (pages s ! p) = 0"

lemma page_alloc_head_freeable:
  assumes "pages_inv s (p # fl)"
  shows "page_freeable (with_lock l (alloc_state flags p s)) p"
  using assms by (auto simp: page_freeable_def pages_inv_def)

interpretation pa: page_allocator pages_inv "page_alloc flags" page_free page_freeable
proof unfold_locales
  fix s :: "'a kmem_scheme" and fl p
  show "pages_inv s fl \<Longrightarrow> distinct fl" by (rule pages_inv_distinct)
  show "\<exists>s'. page_alloc flags s = Inr (None, s') \<and> pages_inv s' []" if "pages_inv s []"
  proof -
    from page_alloc_None [OF that] obtain l where
      "page_alloc flags s = Inr (None, with_lock l s)" "lock_free l" by blast
    with that show ?thesis by (auto simp: pages_inv_def)
  qed
  show "\<exists>s'. page_alloc flags s = Inr (Some p, s') \<and> pages_inv s' fl \<and> page_freeable s' p"
    if "pages_inv s (p # fl)"
    using page_alloc_Some [OF that] pages_inv_alloc [OF that] page_alloc_head_freeable [OF that]
    by blast
  show "\<exists>s'. page_free p s = Inr ((), s') \<and> pages_inv s' (p # fl)"
    if "pages_inv s fl" "page_freeable s p" "p \<notin> set fl"
    using page_free_ok [of s fl p] pages_inv_free [of s fl p] that
    unfolding page_freeable_def by blast
qed

text \<open>Reference counts: the last reference frees the page, an earlier one only counts down.\<close>

lemma page_decref_many:
  assumes "pages_inv s fl" and "pp < npages s" and "pp_ref (pages s ! pp) \<noteq> 1"
  shows "page_decref pp s =
    Inr ((), s\<lparr>pages := (pages s)[pp := (pages s ! pp)\<lparr>pp_ref := pp_ref (pages s ! pp) - 1\<rparr>]\<rparr>)"
  using assms
  by (simp add: page_decref_def kbind_apply set_pp_def get_pp_def kwhen_apply pages_inv_def)

lemma pages_inv_set_ref:
  assumes "pages_inv s fl" and "pp \<notin> set fl"
  shows "pages_inv (s\<lparr>pages := (pages s)[pp := (pages s ! pp)\<lparr>pp_ref := r\<rparr>]\<rparr>) fl"
proof -
  have "(pages s)[pp := v] ! i = pages s ! i" if "i \<in> set fl" for i v
    using that assms(2) by (cases "i = pp") auto
  moreover have "pp_link ((pages s)[pp := (pages s ! pp)\<lparr>pp_ref := r\<rparr>] ! i) = pp_link (pages s ! i)" for i
    by (cases "i = pp"; cases "pp < length (pages s)") (auto simp: list_update_beyond)
  ultimately show ?thesis using assms
    by (auto simp: pages_inv_def pplist_update)
qed

lemma page_decref_last:
  assumes inv: "pages_inv s fl" and pp: "pp < npages s" "pp \<notin> set fl"
    and ref: "pp_ref (pages s ! pp) = 1"
  shows "\<exists>s'. page_decref pp s = Inr ((), s') \<and> pages_inv s' (pp # fl)"
proof -
  let ?s = "s\<lparr>pages := (pages s)[pp := (pages s ! pp)\<lparr>pp_ref := 0\<rparr>]\<rparr>"
  have len: "length (pages s) = npages s" using inv by (simp add: pages_inv_def)
  have "page_decref pp s = page_free pp ?s"
    using pp ref len by (simp add: page_decref_def kbind_apply set_pp_def get_pp_def kwhen_apply)
  moreover have "pages_inv ?s fl" using inv pp(2) by (rule pages_inv_set_ref)
  moreover have "page_freeable ?s pp" using pp len by (simp add: page_freeable_def)
  ultimately show ?thesis using pa.free_ok [of ?s fl pp] pp(2) by auto
qed

section \<open>Properties\<close>

text \<open>A small machine: nine frames, of which 3, 5 and 4 are free in this order.\<close>

definition free_lock :: spinlock where
  "free_lock = \<lparr>locked = 0, lk_name = ''&page_free_list_lock'', lk_cpu = None, pcs = []\<rparr>"

definition unused_page :: PageInfo where
  "unused_page = \<lparr>pp_link = None, pp_ref = 0\<rparr>"

definition small_mem :: kmem where
  "small_mem = \<lparr>cur_cpu = 0, ebp = 0, stack_word = (\<lambda>_. 0), port_log = [], irq_mask_8259A = 0xFFFB,
     didinit = False, vga = vga demo_screen, textmemptr = Some (0, 0), attrib = 0x0F, csr_x = 0, csr_y = 0,
     screen_lock = screen_lock demo_screen, npages = 9, npages_basemem = 0,
     nextfree = 0,
     pages = (replicate 9 unused_page)[3 := unused_page\<lparr>pp_link := Some 5\<rparr>,
                                       5 := unused_page\<lparr>pp_link := Some 4\<rparr>],
     pages_va = 0, page_free_list = Some 3, num_free_pages = 3, page_free_list_lock = free_lock,
     kern_pgdir = 0, mmio_base = MMIOBASE, pmem = (\<lambda>_ _. 7), cr3 = 0, tlb = (\<lambda>_. None),
     pte_slot = Some (0, 0), percpu_kstacks = (\<lambda>_. KERNBASE), lapic = 0, lapicaddr = 0\<rparr>"

definition boot_mem :: kmem where
  "boot_mem = \<lparr>cur_cpu = 0, ebp = 0, stack_word = (\<lambda>_. 0), port_log = [], irq_mask_8259A = 0xFFFB,
     didinit = False, vga = vga demo_screen, textmemptr = Some (0, 0), attrib = 0x0F, csr_x = 0, csr_y = 0,
     screen_lock = screen_lock demo_screen, npages = 260, npages_basemem = 160,
     nextfree = KERNBASE + 258 * PGSIZE, pages = replicate 260 unused_page,
     pages_va = 0, page_free_list = None, num_free_pages = 0, page_free_list_lock = free_lock,
     kern_pgdir = 0, mmio_base = MMIOBASE, pmem = (\<lambda>_ _. 0), cr3 = 0, tlb = (\<lambda>_. None),
     pte_slot = Some (0, 0), percpu_kstacks = (\<lambda>_. KERNBASE), lapic = 0, lapicaddr = 0\<rparr>"

lemma small_mem_inv: "pages_inv small_mem [3, 5, 4]"
  unfolding pages_inv_def
  by (simp add: small_mem_def unused_page_def free_lock_def lock_free_def nth_list_update)

lemma boot_mem_boot: "boot_state 258 boot_mem"
  by (simp add: boot_state_def boot_mem_def unused_page_def free_lock_def lock_free_def)

text \<open>
  C6. \<^verbatim>\<open>page_init\<close>, run on the cleared array, returns with a well-formed free list that holds,
  each once, the frames 1 to 6, those from 8 to the end of base memory and those from the first
  frame after the kernel to the end of memory: never frame 0, the frame of the application
  processors' entry code (7), the I/O hole or a frame the kernel's image and boot-time data use.
\<close>

theorem page_init_free_frames:
  assumes "boot_state k s"
  shows "\<exists>s' fl. page_init kend s = Inr ((), s') \<and> pages_inv s' fl \<and>
    set fl = {1..<PGNUM MPENTRY_PADDR} \<union> {PGNUM MPENTRY_PADDR + 1..<npages_basemem s} \<union> {k..<npages s}"
proof -
  have mp: "PGNUM MPENTRY_PADDR = 7" by (simp add: PGNUM_div MPENTRY_PADDR_def)
  from page_init_boot [OF assms, of kend] obtain s' where
    "page_init kend s = Inr ((), s')"
    "pages_inv s' (rev ([1..<7] @ [8..<npages_basemem s] @ [k..<npages s]))" by blast
  then show ?thesis unfolding mp by (intro exI conjI) (assumption, assumption, auto)
qed

theorem page_init_free_frames_witness:
  "\<exists>s' fl. page_init 0 boot_mem = Inr ((), s') \<and> pages_inv s' fl \<and> 258 \<in> set fl \<and>
    7 \<notin> set fl \<and> 160 \<notin> set fl \<and> 257 \<notin> set fl"
proof -
  from page_init_free_frames [OF boot_mem_boot, of 0] obtain s' fl where
    "page_init 0 boot_mem = Inr ((), s')" "pages_inv s' fl"
    "set fl = {1..<PGNUM MPENTRY_PADDR} \<union> {PGNUM MPENTRY_PADDR + 1..<npages_basemem boot_mem} \<union>
      {258..<npages boot_mem}" by blast
  then show ?thesis
    by (intro exI [of _ s'] exI [of _ fl])
      (simp add: boot_mem_def PGNUM_div MPENTRY_PADDR_def)
qed

text \<open>
  C5. \<^verbatim>\<open>page_alloc\<close> returns \<^verbatim>\<open>NULL\<close> exactly when the free list is empty. Otherwise it returns the
  first free page, with its link cleared and off the list, counted by \<^verbatim>\<open>num_free_pages\<close>, and with
  its content cleared when \<^verbatim>\<open>ALLOC_ZERO\<close> is set; no other page's content or reference count
  changes, and the lock is free again on both paths.
\<close>

theorem page_alloc_correct:
  assumes "pages_inv s fl"
  shows "\<exists>s'. page_alloc flags s = Inr ((case fl of [] \<Rightarrow> None | p # _ \<Rightarrow> Some p), s') \<and>
    pages_inv s' (tl fl) \<and>
    (\<forall>fr. pmem s' fr = (if fl \<noteq> [] \<and> fr = hd fl \<and> flags AND ALLOC_ZERO \<noteq> 0 then (\<lambda>_. 0) else pmem s fr)) \<and>
    map pp_ref (pages s') = map pp_ref (pages s)"
proof (cases fl)
  case Nil
  from assms Nil page_alloc_None obtain l where
    "page_alloc flags s = Inr (None, with_lock l s)" "lock_free l" by blast
  with assms Nil show ?thesis by (auto simp: pages_inv_def)
next
  case (Cons p fl')
  with assms have inv: "pages_inv s (p # fl')" by simp
  from page_alloc_Some [OF inv] obtain l where
    "page_alloc flags s = Inr (Some p, with_lock l (alloc_state flags p s))" "lock_free l" by blast
  moreover from pages_inv_alloc [OF inv this(2)]
  have "pages_inv (with_lock l (alloc_state flags p s)) fl'" .
  moreover have "map pp_ref ((pages s)[p := (pages s ! p)\<lparr>pp_link := None\<rparr>]) = map pp_ref (pages s)"
    using inv by (intro nth_equalityI) (auto simp: nth_list_update pages_inv_def)
  ultimately show ?thesis using Cons by auto
qed

theorem page_alloc_correct_witness:
  "\<exists>s'. page_alloc ALLOC_ZERO small_mem = Inr (Some 3, s') \<and> pages_inv s' [5, 4] \<and>
    pmem s' 3 = (\<lambda>_. 0) \<and> pmem s' 4 = (\<lambda>_. 7)"
proof -
  from page_alloc_correct [OF small_mem_inv, of ALLOC_ZERO] obtain s' where
    s': "page_alloc ALLOC_ZERO small_mem = Inr (Some 3, s')" "pages_inv s' [5, 4]"
      "\<forall>fr. pmem s' fr = (if fr = 3 \<and> ALLOC_ZERO AND ALLOC_ZERO \<noteq> 0 then (\<lambda>_. 0) else pmem small_mem fr)"
    by auto
  then have "pmem s' 3 = (\<lambda>_. 0)" "pmem s' 4 = (\<lambda>_. 7)"
    by (auto simp: ALLOC_ZERO_def small_mem_def)
  with s' show ?thesis by blast
qed

text \<open>
  C26. \<^verbatim>\<open>page_free\<close> on a valid page: with a nonzero reference count it panics; an unreferenced page
  off the free list becomes its head; an unreferenced page that is on the list already is
  rejected by the panic on \<^verbatim>\<open>pp_link\<close>, except when it is the last page of the list.
\<close>

theorem page_free_correct:
  assumes inv: "pages_inv s fl" and pp: "pp < npages s"
  shows "if pp_ref (pages s ! pp) \<noteq> 0
      then page_free pp s = Inl (Panic ''page_free: pp_ref is nonzero'')
    else if pp \<notin> set fl then \<exists>s'. page_free pp s = Inr ((), s') \<and> pages_inv s' (pp # fl)
    else pp \<noteq> last fl \<longrightarrow> page_free pp s = Inl (Panic ''page_free: pp_link is not NULL'')"
proof -
  have len: "length (pages s) = npages s" using inv by (simp add: pages_inv_def)
  consider (ref) "pp_ref (pages s ! pp) \<noteq> 0" | (off) "pp_ref (pages s ! pp) = 0" "pp \<notin> set fl"
    | (on) "pp_ref (pages s ! pp) = 0" "pp \<in> set fl" by blast
  then show ?thesis
  proof cases
    case ref
    then show ?thesis using pp len by (simp add: page_free_def kbind_apply get_pp_def)
  next
    case off
    then show ?thesis using pa.free_ok [OF inv, of pp] pp by (simp add: page_freeable_def)
  next
    case on
    have "page_free pp s = Inl (Panic ''page_free: pp_link is not NULL'')" if "pp \<noteq> last fl"
    proof -
      from on(2) obtain as bs where fl: "fl = as @ pp # bs" by (meson split_list)
      with that have "bs \<noteq> []" by auto
      from inv fl have "pplist (pages s) (Some pp) (pp # bs)"
        unfolding pages_inv_def using pplist_suffix by blast
      with \<open>bs \<noteq> []\<close> have "pp_link (pages s ! pp) \<noteq> None" by (cases bs) auto
      with on(1) pp len show ?thesis by (simp add: page_free_def kbind_apply get_pp_def)
    qed
    with on show ?thesis by simp
  qed
qed

theorem page_free_correct_witness:
  "(\<exists>s'. page_free 8 small_mem = Inr ((), s') \<and> pages_inv s' [8, 3, 5, 4]) \<and>
   page_free 5 small_mem = Inl (Panic ''page_free: pp_link is not NULL'')"
proof
  have "8 < npages small_mem" "pp_ref (pages small_mem ! 8) = 0"
    by (simp_all add: small_mem_def unused_page_def)
  with page_free_correct [OF small_mem_inv, of 8]
  show "\<exists>s'. page_free 8 small_mem = Inr ((), s') \<and> pages_inv s' [8, 3, 5, 4]" by simp
  have "5 < npages small_mem" "pp_ref (pages small_mem ! 5) = 0"
    by (simp_all add: small_mem_def unused_page_def)
  with page_free_correct [OF small_mem_inv, of 5]
  show "page_free 5 small_mem = Inl (Panic ''page_free: pp_link is not NULL'')" by simp
qed

text \<open>
  C27. The check for double frees misses the last page of the free list, whose link is null like
  that of an allocated page: freeing it again is accepted, and then following the links from the
  head never reaches the end.
\<close>

theorem page_free_tail_twice:
  assumes inv: "pages_inv s (fl @ [pp])"
  shows "\<exists>s'. page_free pp s = Inr ((), s') \<and> (\<nexists>fl'. pplist (pages s') (page_free_list s') fl')"
proof -
  let ?ps = "(pages s)[pp := (pages s ! pp)\<lparr>pp_link := page_free_list s\<rparr>]"
  from inv have list: "pplist (pages s) (page_free_list s) (fl @ [pp])"
    and ref: "pp_ref (pages s ! pp) = 0" and free: "lock_free (page_free_list_lock s)"
    by (auto simp: pages_inv_def)
  from pplist_suffix [OF list] have pp: "pp < length (pages s)" "pp_link (pages s ! pp) = None"
    by auto
  from page_free_run [OF free pp(1) ref pp(2)] obtain l where
    run: "page_free pp s = Inr ((), with_lock l (free_state pp s))" by blast
  have "\<not> pplist ?ps (Some pp) fl'" for fl'
  proof
    assume fl': "pplist ?ps (Some pp) fl'"
    then obtain zs where zs: "fl' = pp # zs" "pplist ?ps (page_free_list s) zs"
      using pp by (cases fl') auto
    have "pp \<notin> set fl" using pplist_distinct [OF list] by simp
    from pplist_reaches_last [OF list this zs(2)] obtain ws where "zs = fl @ pp # ws" ..
    with zs(1) pplist_distinct [OF fl'] show False by simp
  qed
  with run show ?thesis by simp
qed

theorem page_free_tail_twice_witness:
  "\<exists>s'. page_free 4 small_mem = Inr ((), s') \<and> (\<nexists>fl'. pplist (pages s') (page_free_list s') fl')"
proof -
  have "pages_inv small_mem ([3, 5] @ [4])" using small_mem_inv by simp
  then show ?thesis by (rule page_free_tail_twice)
qed

text \<open>
  \<open>n\<close> calls of \<^verbatim>\<open>page_alloc\<close> return the first \<open>n\<close> free pages in order, so no page is handed out
  twice, and they fail only when all free pages have been handed out.
\<close>

lemma page_alloc_sequence:
  assumes "pages_inv s fl"
  shows "\<exists>ps s'. alloc_many (page_alloc flags) n s = Inr (ps, s') \<and> distinct ps \<and>
    length ps = min n (unat (num_free_pages s)) \<and> set ps \<subseteq> set fl \<and> pages_inv s' (drop n fl)"
proof -
  from pa.alloc_many_take [OF assms] obtain s' where
    "alloc_many (page_alloc flags) n s = Inr (take n fl, s')" "pages_inv s' (drop n fl)" by blast
  moreover have "distinct (take n fl)" using pages_inv_distinct [OF assms] by simp
  moreover have "length (take n fl) = min n (unat (num_free_pages s))"
    using assms by (simp add: pages_inv_def min.commute)
  moreover have "set (take n fl) \<subseteq> set fl" by (rule set_take_subset)
  ultimately show ?thesis by (intro exI conjI)
qed

lemma page_alloc_sequence_witness:
  "\<exists>ps s'. alloc_many (page_alloc 0) 5 small_mem = Inr (ps, s') \<and> distinct ps \<and> length ps = 3 \<and>
    pages_inv s' []"
proof -
  have "unat (num_free_pages small_mem) = 3" by (simp add: small_mem_def)
  with page_alloc_sequence [OF small_mem_inv, of 0 5] show ?thesis by auto
qed

end
