(* ===== verification/PageTable.thy ===== *)
theory PageTable
  imports PageAlloc
begin

text \<open>
  The two-level page tables of \<^verbatim>\<open>kernel/mem.c\<close>: \<^verbatim>\<open>pgdir_walk\<close>, the mapping operations built on it, the
  construction of address spaces (\<^verbatim>\<open>setupkvm\<close>, \<^verbatim>\<open>setupvm\<close>), and the software walk \<^verbatim>\<open>check_va2pa\<close>.
  A \<^verbatim>\<open>pde_t *pgdir\<close> is the frame of the directory; a \<^verbatim>\<open>pte_t *\<close> is a pair of a frame and the index of
  a word in it, \<open>None\<close> for \<^verbatim>\<open>NULL\<close>.

  The operations are shown to implement a partial function from page numbers to page-table
  entries (\<open>pt_view\<close>): inserting, removing and mapping a region are updates of it.
\<close>

section \<open>Operations\<close>

definition E_NO_MEM :: int where "E_NO_MEM = 4"
definition NCPU :: nat where "NCPU = 8"

text \<open>The size of a \<^verbatim>\<open>struct PageInfo\<close>: a pointer and a 16-bit count, padded to eight bytes.\<close>

definition sizeof_PageInfo :: u32 where "sizeof_PageInfo = 8"

definition kread :: "nat \<times> nat \<Rightarrow> ('a kmem_scheme, u32) kfun" where
  "kread p = kgets (\<lambda>s. pmem s (fst p) (snd p))"

definition kwrite :: "nat \<times> nat \<Rightarrow> u32 \<Rightarrow> ('a kmem_scheme, unit) kfun" where
  "kwrite p v = kmodify (\<lambda>s. s\<lparr>pmem := (pmem s)(fst p := (pmem s (fst p))(snd p := v))\<rparr>)"

definition pgdir_walk :: "nat \<Rightarrow> u32 \<Rightarrow> bool \<Rightarrow> ('a kmem_scheme, (nat \<times> nat) option) kfun" where
  "pgdir_walk pgdir va create =
     kbind (kread (pgdir, PDX va)) (\<lambda>pde.
     if pde AND PTE_P \<noteq> 0 then
       kbind (KADDR_frame (PTE_ADDR pde)) (\<lambda>pt. kreturn (Some (pt, PTX va)))
     else if \<not> create then kreturn None
     else
       kbind (page_alloc ALLOC_ZERO) (\<lambda>r.
       case r of
         None \<Rightarrow> kreturn None
       | Some pp \<Rightarrow>
           kbind (set_pp pp (\<lambda>p. p\<lparr>pp_ref := pp_ref p + 1\<rparr>)) (\<lambda>_.
           kbind (kwrite (pgdir, PDX va) (page2pa pp OR PTE_P OR PTE_U OR PTE_W)) (\<lambda>_.
           kbind (page2kva pp) (\<lambda>pt. kreturn (Some (pt, PTX va)))))))"

text \<open>The loop runs while a whole page is left, and writes through the pointer it gets unchecked.\<close>

function boot_map_region :: "nat \<Rightarrow> u32 \<Rightarrow> u32 \<Rightarrow> u32 \<Rightarrow> u32 \<Rightarrow> ('a kmem_scheme, unit) kfun" where
  "boot_map_region pgdir va sz pa perm =
     (if sz \<ge> PGSIZE then
        kbind (pgdir_walk pgdir va True) (\<lambda>r.
        case r of
          None \<Rightarrow> kfail NullDeref
        | Some pte \<Rightarrow>
            kbind (kwrite pte (pa OR perm OR PTE_P)) (\<lambda>_.
            boot_map_region pgdir (va + PGSIZE) (sz - PGSIZE) (pa + PGSIZE) perm))
      else kreturn ())"
  by pat_completeness auto
termination
  by (relation "measure (\<lambda>(pgdir, va, sz, pa, perm). unat sz)")
    (auto simp: PGSIZE_def word_le_nat_alt unat_sub)

declare boot_map_region.simps [simp del]

definition tlb_invalidate :: "nat \<Rightarrow> u32 \<Rightarrow> ('a kmem_scheme, unit) kfun" where
  "tlb_invalidate pgdir va = kmodify (\<lambda>s. s\<lparr>tlb := (tlb s)(PGNUM va := None)\<rparr>)"

text \<open>
  \<open>pte_store\<close> is \<open>None\<close> for a null pointer, otherwise the content of the variable it points to;
  the operation returns the page and that variable's new content. The source tests the
  content (\<^verbatim>\<open>if (*pte_store)\<close>), not the pointer.
\<close>

definition page_lookup :: "nat \<Rightarrow> u32 \<Rightarrow> (nat \<times> nat) option option \<Rightarrow>
    ('a kmem_scheme, nat option \<times> (nat \<times> nat) option option) kfun" where
  "page_lookup pgdir va pte_store =
     kbind (pgdir_walk pgdir va False) (\<lambda>r.
     case r of
       None \<Rightarrow> kreturn (None, pte_store)
     | Some pte \<Rightarrow>
         kbind (kread pte) (\<lambda>e.
         if e AND PTE_P = 0 then kreturn (None, pte_store)
         else case pte_store of
             None \<Rightarrow> kfail NullDeref
           | Some cell \<Rightarrow>
               kbind (lift_sum (\<lambda>s. pa2page (npages s) (PTE_ADDR e))) (\<lambda>pp.
               kreturn (Some pp, if cell \<noteq> None then Some (Some pte) else pte_store))))"

definition page_remove :: "nat \<Rightarrow> u32 \<Rightarrow> ('a kmem_scheme, unit) kfun" where
  "page_remove pgdir va =
     kbind (kgets pte_slot) (\<lambda>slot.
     kbind (page_lookup pgdir va (Some slot)) (\<lambda>(r, store).
     case r of
       None \<Rightarrow> kreturn ()
     | Some pp \<Rightarrow>
         kbind (page_decref pp) (\<lambda>_.
         case store of
           Some (Some pte) \<Rightarrow> kbind (kwrite pte 0) (\<lambda>_. tlb_invalidate pgdir va)
         | _ \<Rightarrow> kfail NullDeref)))"

definition page_insert :: "nat \<Rightarrow> nat \<Rightarrow> u32 \<Rightarrow> u32 \<Rightarrow> ('a kmem_scheme, int) kfun" where
  "page_insert pgdir pp va perm =
     kbind (pgdir_walk pgdir va True) (\<lambda>r.
     case r of
       None \<Rightarrow> kreturn (- E_NO_MEM)
     | Some pte \<Rightarrow>
         kbind (kread pte) (\<lambda>e.
         if e AND PTE_P \<noteq> 0 \<and> PTE_ADDR e = page2pa pp then
           kbind (kwrite pte (page2pa pp OR perm OR PTE_P)) (\<lambda>_. kreturn 0)
         else
           kbind (kwhen (e AND PTE_P \<noteq> 0) (page_remove pgdir va)) (\<lambda>_.
           kbind (set_pp pp (\<lambda>p. p\<lparr>pp_ref := pp_ref p + 1\<rparr>)) (\<lambda>_.
           kbind (tlb_invalidate pgdir va) (\<lambda>_.
           kbind (kwrite pte (page2pa pp OR perm OR PTE_P)) (\<lambda>_.
           kreturn 0))))))"

definition ptable_remove :: "nat \<Rightarrow> ('a kmem_scheme, unit) kfun" where
  "ptable_remove pgdir =
     kfor [0..<1024] (\<lambda>i.
       kbind (kread (pgdir, i)) (\<lambda>pde.
       kwhen (pde AND PTE_P \<noteq> 0)
         (kbind (lift_sum (\<lambda>s. pa2page (npages s) (PTE_ADDR pde))) page_decref)))"

definition frame_kva :: "nat \<Rightarrow> u32" where
  "frame_kva fr = page2pa fr + KERNBASE"

definition pgdir_remove :: "nat \<Rightarrow> ('a kmem_scheme, unit) kfun" where
  "pgdir_remove pgdir =
     kbind (PADDR (frame_kva pgdir)) (\<lambda>pa.
     kbind (lift_sum (\<lambda>s. pa2page (npages s) pa)) page_free)"

definition mmio_map_region :: "u32 \<Rightarrow> u32 \<Rightarrow> ('a kmem_scheme, u32) kfun" where
  "mmio_map_region pa sz =
     kbind (kgets mmio_base) (\<lambda>base.
     if base + sz > MMIOLIM then
       kfail (Panic ''mmio_map_region(): reservation overflow MMIOLIM'')
     else
       kbind (kgets kern_pgdir) (\<lambda>pgdir.
       kbind (boot_map_region pgdir base (ROUNDUP sz PGSIZE) pa (PTE_W OR PTE_PCD OR PTE_PWT)) (\<lambda>_.
       kbind (kmodify (\<lambda>s. s\<lparr>mmio_base := base + ROUNDUP sz PGSIZE\<rparr>)) (\<lambda>_.
       kreturn base))))"

definition check_va2pa :: "nat \<Rightarrow> u32 \<Rightarrow> ('a kmem_scheme, u32) kfun" where
  "check_va2pa pgdir va =
     kbind (kread (pgdir, PDX va)) (\<lambda>pde.
     if pde AND PTE_P = 0 then kreturn (NOT 0)
     else
       kbind (KADDR_frame (PTE_ADDR pde)) (\<lambda>pt.
       kbind (kread (pt, PTX va)) (\<lambda>e.
       kreturn (if e AND PTE_P = 0 then NOT 0 else PTE_ADDR e))))"

definition setupvm :: "nat \<Rightarrow> u32 \<Rightarrow> u32 \<Rightarrow> ('a kmem_scheme, unit) kfun" where
  "setupvm pgdir start sz =
     kbind (PADDR start) (\<lambda>pa.
     kbind (boot_map_region pgdir start (ROUNDUP sz PGSIZE) pa (PTE_W OR PTE_U)) (\<lambda>_.
     kbind (check_va2pa pgdir start) (\<lambda>r.
     kassert (r = pa) ''assertion failed: check_va2pa(pgdir, start) == PADDR((void*)start)'')))"

text \<open>
  In C, \<^verbatim>\<open>2^32\<close> is the exclusive or of 2 and 32. The difference to \<^verbatim>\<open>KERNBASE\<close> is taken modulo
  \<open>2\<close> to the 32nd.
\<close>

definition kern_window_size :: u32 where
  "kern_window_size = (2 XOR 32) - KERNBASE"

definition map_kstack :: "nat \<Rightarrow> nat \<Rightarrow> ('a kmem_scheme, unit) kfun" where
  "map_kstack pgdir i =
     kbind (kgets (\<lambda>s. percpu_kstacks s i)) (\<lambda>kva.
     kbind (PADDR kva) (\<lambda>pa.
     boot_map_region pgdir (KSTACKTOP - of_nat i * (KSTKSIZE + KSTKGAP) - KSTKSIZE) KSTKSIZE pa PTE_W))"

definition mem_init_mp :: "('a kmem_scheme, unit) kfun" where
  "mem_init_mp = kbind (kgets kern_pgdir) (\<lambda>pgdir. kfor [0..<NCPU] (map_kstack pgdir))"

definition setupkvm :: "('a kmem_scheme, nat option) kfun" where
  "setupkvm =
     kbind (page_alloc ALLOC_ZERO) (\<lambda>r.
     case r of
       None \<Rightarrow> kreturn None
     | Some pp \<Rightarrow>
         kbind (page2kva pp) (\<lambda>pgdir.
         kbind (kgets (\<lambda>s. (of_nat (npages s) :: u32, pages_va s))) (\<lambda>(n, pva).
         kbind (PADDR pva) (\<lambda>ppa.
         kbind (boot_map_region pgdir UPAGES (ROUNDUP (sizeof_PageInfo * n) PGSIZE) ppa PTE_U) (\<lambda>_.
         kbind (boot_map_region pgdir KERNBASE kern_window_size 0 PTE_W) (\<lambda>_.
         kbind (boot_map_region pgdir IOPHYSMEM (ROUNDUP (EXTPHYSMEM - IOPHYSMEM) PGSIZE)
                  IOPHYSMEM PTE_W) (\<lambda>_.
         kbind (kfor [0..<NCPU] (map_kstack pgdir)) (\<lambda>_.
         kbind (kgets (\<lambda>s. (lapic s, lapicaddr s))) (\<lambda>(lva, lpa).
         kbind (boot_map_region pgdir lva (ROUNDUP 4096 PGSIZE) lpa
                  (PTE_W OR PTE_PCD OR PTE_PWT)) (\<lambda>_.
         kreturn (Some pgdir)))))))))))"

section \<open>The abstract view of an address space\<close>

text \<open>
  A page directory is described, for the directory indices in \<open>D\<close>, by the function from page
  numbers to present page-table entries. The directory built by \<^verbatim>\<open>mem_init\<close> maps itself at
  \<^verbatim>\<open>UVPT\<close>: there \<open>D\<close> leaves out that index, everywhere else it is all of them.
\<close>

definition present :: "u32 \<Rightarrow> bool" where
  "present e \<longleftrightarrow> e AND PTE_P \<noteq> 0"

definition pt_view :: "nat set \<Rightarrow> (nat \<Rightarrow> nat \<Rightarrow> u32) \<Rightarrow> nat \<Rightarrow> nat \<Rightarrow> u32 option" where
  "pt_view D m pgdir v =
     (if v div 1024 \<in> D \<and> present (m pgdir (v div 1024)) \<and>
         present (m (PGNUM (m pgdir (v div 1024))) (v mod 1024))
      then Some (m (PGNUM (m pgdir (v div 1024))) (v mod 1024)) else None)"

definition pt_tables :: "nat set \<Rightarrow> (nat \<Rightarrow> nat \<Rightarrow> u32) \<Rightarrow> nat \<Rightarrow> nat set" where
  "pt_tables D m pgdir = {i \<in> D. present (m pgdir i)}"

definition pt_frames :: "nat set \<Rightarrow> (nat \<Rightarrow> nat \<Rightarrow> u32) \<Rightarrow> nat \<Rightarrow> nat set" where
  "pt_frames D m pgdir = (\<lambda>i. PGNUM (m pgdir i)) ` pt_tables D m pgdir"

text \<open>
  The tables of a directory lie in distinct frames of the machine, none of them the directory's
  own and none of them (nor the directory's) on the free list.
\<close>

definition pt_wf :: "nat set \<Rightarrow> 'a kmem_scheme \<Rightarrow> nat \<Rightarrow> nat list \<Rightarrow> bool" where
  "pt_wf D s pgdir fl \<longleftrightarrow>
     D \<subseteq> {..<1024} \<and> pgdir < npages s \<and> pgdir \<notin> set fl \<and>
     (\<forall>fr \<in> pt_frames D (pmem s) pgdir. fr < npages s \<and> fr \<noteq> pgdir \<and> fr \<notin> set fl) \<and>
     inj_on (\<lambda>i. PGNUM (pmem s pgdir i)) (pt_tables D (pmem s) pgdir)"

definition pp_refs :: "'a kmem_scheme \<Rightarrow> nat \<Rightarrow> u16" where
  "pp_refs s i = pp_ref (pages s ! i)"

text \<open>What the operations of this theory leave alone.\<close>

definition mem_frame :: "'a kmem_scheme \<Rightarrow> 'a kmem_scheme \<Rightarrow> bool" where
  "mem_frame s t \<longleftrightarrow> cur_cpu t = cur_cpu s \<and> ebp t = ebp s \<and> stack_word t = stack_word s \<and>
     port_log t = port_log s \<and> irq_mask_8259A t = irq_mask_8259A s \<and> didinit t = didinit s \<and>
     vga t = vga s \<and> textmemptr t = textmemptr s \<and> attrib t = attrib s \<and> csr_x t = csr_x s \<and>
     csr_y t = csr_y s \<and> screen_lock t = screen_lock s \<and>
     npages t = npages s \<and> npages_basemem t = npages_basemem s \<and> nextfree t = nextfree s \<and>
     pages_va t = pages_va s \<and> kern_pgdir t = kern_pgdir s \<and> mmio_base t = mmio_base s \<and>
     cr3 t = cr3 s \<and> pte_slot t = pte_slot s \<and> percpu_kstacks t = percpu_kstacks s \<and>
     lapic t = lapic s \<and> lapicaddr t = lapicaddr s \<and> kmem.more t = kmem.more s"

lemma mem_frame_refl [simp]: "mem_frame s s"
  by (simp add: mem_frame_def)

lemma mem_frame_trans: "mem_frame s t \<Longrightarrow> mem_frame t u \<Longrightarrow> mem_frame s u"
  by (simp add: mem_frame_def)

lemma mem_frame_D:
  assumes "mem_frame s t"
  shows "npages t = npages s" "pages_va t = pages_va s" "kern_pgdir t = kern_pgdir s"
    "mmio_base t = mmio_base s" "pte_slot t = pte_slot s" "percpu_kstacks t = percpu_kstacks s"
    "lapic t = lapic s" "lapicaddr t = lapicaddr s" "cr3 t = cr3 s" "cur_cpu t = cur_cpu s"
  using assms by (simp_all add: mem_frame_def)

lemma mem_frame_updates [simp]:
  "mem_frame s (s\<lparr>pages := ps\<rparr>)" "mem_frame s (s\<lparr>pmem := m\<rparr>)" "mem_frame s (s\<lparr>tlb := c\<rparr>)"
  "mem_frame s (with_lock l s)"
  by (simp_all add: mem_frame_def)

lemma mem_frame_alloc [simp]: "mem_frame s (with_lock l (alloc_state flags pp s))"
proof -
  have "kmem.more (alloc_state flags pp s) = kmem.more s"
    by (simp add: alloc_state_def Let_def)
  then show ?thesis by (simp add: mem_frame_def)
qed

lemma mem_frame_free [simp]: "mem_frame s (with_lock l (free_state pp s))"
proof -
  have "kmem.more (free_state pp s) = kmem.more s" by (simp add: free_state_def)
  then show ?thesis by (simp add: mem_frame_def)
qed

lemma pages_inv_pmem [simp]:
  "pages_inv (s\<lparr>pmem := m\<rparr>) fl = pages_inv s fl" "pages_inv (s\<lparr>tlb := c\<rparr>) fl = pages_inv s fl"
  by (simp_all add: pages_inv_def)

lemma present_0 [simp]: "\<not> present 0"
  by (simp add: present_def)

lemma present_bit: "present e \<longleftrightarrow> bit e 0"
  by (simp add: present_def PTE_P_def and_one_eq odd_iff_mod_2_eq_one [symmetric] bit_0)

lemma present_or [simp]: "present (x OR y) \<longleftrightarrow> present x \<or> present y"
  by (simp add: present_bit bit_or_iff)

lemma present_P [simp]: "present PTE_P"
  by (simp add: present_def)

lemma PGNUM_pde [simp]: "pp < 1048576 \<Longrightarrow> PGNUM (page2pa pp OR PTE_P OR PTE_U OR PTE_W) = pp"
  by (simp add: or.assoc PTE_P_def PTE_U_def PTE_W_def)

lemma PGNUM_pte [simp]: "pp < 1048576 \<Longrightarrow> unat perm < 4096 \<Longrightarrow>
    PGNUM (page2pa pp OR perm OR PTE_P) = pp"
  by (simp add: PGNUM_or PTE_P_def PGNUM_0_iff [symmetric])

lemma pages_inv_n: "pages_inv s fl \<Longrightarrow> npages s \<le> 65536" "pages_inv s fl \<Longrightarrow> length (pages s) = npages s"
  by (simp_all add: pages_inv_def)

section \<open>Walking\<close>

lemma KADDR_frame_entry:
  "PGNUM e < npages s \<Longrightarrow> npages s \<le> 65536 \<Longrightarrow> KADDR_frame (PTE_ADDR e) s = Inr (PGNUM e, s)"
  by (simp add: PTE_ADDR_page2pa)

lemma pt_wf_table:
  assumes "pt_wf D s pgdir fl" and "i \<in> D" and "present (pmem s pgdir i)"
  shows "PGNUM (pmem s pgdir i) < npages s" "PGNUM (pmem s pgdir i) \<noteq> pgdir"
    "PGNUM (pmem s pgdir i) \<notin> set fl"
  using assms unfolding pt_wf_def pt_frames_def pt_tables_def by auto

lemma walk_present:
  assumes "pages_inv s fl" and "pt_wf D s pgdir fl" and "PDX va \<in> D"
    and p: "present (pmem s pgdir (PDX va))"
  shows "pgdir_walk pgdir va create s = Inr (Some (PGNUM (pmem s pgdir (PDX va)), PTX va), s)"
  using pt_wf_table(1) [OF assms(2-4)] pages_inv_n(1) [OF assms(1)] p
  by (simp add: pgdir_walk_def kread_def kbind_apply present_def KADDR_frame_entry)

lemma walk_absent:
  "\<not> present (pmem s pgdir (PDX va)) \<Longrightarrow> pgdir_walk pgdir va False s = Inr (None, s)"
  by (simp add: pgdir_walk_def kread_def kbind_apply present_def)

lemma walk_no_memory:
  assumes "pages_inv s []" and "\<not> present (pmem s pgdir (PDX va))"
  shows "\<exists>l. pgdir_walk pgdir va True s = Inr (None, with_lock l s) \<and> lock_free l"
  using page_alloc_None [OF assms(1), of ALLOC_ZERO] assms(2)
  by (auto simp: pgdir_walk_def kread_def kbind_apply present_def)

lemma walk_alloc:
  assumes inv: "pages_inv s (pp # fl)" and absent: "\<not> present (pmem s pgdir (PDX va))"
    and pgdir: "pgdir \<noteq> pp"
  shows "\<exists>s'. pgdir_walk pgdir va True s = Inr (Some (pp, PTX va), s') \<and> pages_inv s' fl \<and>
    mem_frame s s' \<and> tlb s' = tlb s \<and>
    pmem s' = (pmem s)(pp := (\<lambda>_. 0),
      pgdir := (pmem s pgdir)(PDX va := page2pa pp OR PTE_P OR PTE_U OR PTE_W)) \<and>
    (\<forall>i. i \<noteq> pp \<longrightarrow> pages s' ! i = pages s ! i) \<and> pp_refs s' pp = 1"
proof -
  from page_alloc_Some [OF inv, of ALLOC_ZERO] obtain l where
    al: "page_alloc ALLOC_ZERO s = Inr (Some pp, with_lock l (alloc_state ALLOC_ZERO pp s))"
    and l: "lock_free l" by blast
  let ?t = "with_lock l (alloc_state ALLOC_ZERO pp s)"
  let ?u = "?t\<lparr>pages := (pages ?t)[pp := (pages ?t ! pp)\<lparr>pp_ref := pp_ref (pages ?t ! pp) + 1\<rparr>]\<rparr>"
  let ?v = "?u\<lparr>pmem := (pmem ?u)(pgdir := (pmem ?u pgdir)(PDX va := page2pa pp OR PTE_P OR PTE_U OR PTE_W))\<rparr>"
  have ti: "pages_inv ?t fl" using inv l by (rule pages_inv_alloc)
  have pp: "pp < npages s" "pp \<notin> set fl" "npages s \<le> 65536" "length (pages s) = npages s"
    "pp_ref (pages s ! pp) = 0"
    using inv pages_inv_distinct [OF inv] by (auto simp: pages_inv_def)
  have run: "pgdir_walk pgdir va True s = Inr (Some (pp, PTX va), ?v)"
    using al absent pp
    by (simp add: pgdir_walk_def kread_def kbind_apply present_def set_pp_def kwrite_def)
  have "pages_inv ?u fl" using ti pp(2) by (rule pages_inv_set_ref)
  then have inv': "pages_inv ?v fl" by (simp only: pages_inv_pmem)
  have fr: "mem_frame s ?v"
    by (blast intro: mem_frame_trans mem_frame_alloc mem_frame_updates)
  have mem: "pmem ?v = (pmem s)(pp := (\<lambda>_. 0),
      pgdir := (pmem s pgdir)(PDX va := page2pa pp OR PTE_P OR PTE_U OR PTE_W))"
    using pgdir by (simp add: ALLOC_ZERO_def)
  have "(\<forall>i. i \<noteq> pp \<longrightarrow> pages ?v ! i = pages s ! i) \<and> pp_refs ?v pp = 1"
    using pp by (simp add: pp_refs_def)
  with run inv' fr mem show ?thesis by (intro exI [of _ ?v]) simp
qed

text \<open>Writing an entry through the pointer the walk returned is an update of the view.\<close>

definition set_entry :: "nat \<Rightarrow> u32 \<Rightarrow> u32 \<Rightarrow> (nat \<Rightarrow> nat \<Rightarrow> u32) \<Rightarrow> nat \<Rightarrow> nat \<Rightarrow> u32" where
  "set_entry pgdir va e m =
     (let pt = PGNUM (m pgdir (PDX va)) in m(pt := (m pt)(PTX va := e)))"

lemma set_entry_pgdir:
  "PGNUM (m pgdir (PDX va)) \<noteq> pgdir \<Longrightarrow> set_entry pgdir va e m pgdir = m pgdir"
  by (simp add: set_entry_def Let_def)

lemma pt_view_PGNUM:
  "pt_view D m pgdir (PGNUM va) =
     (if PDX va \<in> D \<and> present (m pgdir (PDX va)) \<and>
         present (m (PGNUM (m pgdir (PDX va))) (PTX va))
      then Some (m (PGNUM (m pgdir (PDX va))) (PTX va)) else None)"
  by (simp add: pt_view_def PDX_PGNUM PTX_PGNUM)

lemma pt_wf_set_entry:
  assumes wf: "pt_wf D s pgdir fl" and va: "PDX va \<in> D" "present (pmem s pgdir (PDX va))"
  shows "pt_wf D (s\<lparr>pmem := set_entry pgdir va e (pmem s)\<rparr>) pgdir fl"
proof -
  have "set_entry pgdir va e (pmem s) pgdir = pmem s pgdir"
    using pt_wf_table(2) [OF wf va] by (rule set_entry_pgdir)
  with wf show ?thesis by (simp add: pt_wf_def pt_frames_def pt_tables_def)
qed

lemma pt_frames_set_entry:
  assumes wf: "pt_wf D s pgdir fl" and va: "PDX va \<in> D" "present (pmem s pgdir (PDX va))"
  shows "pt_frames D (set_entry pgdir va e (pmem s)) pgdir = pt_frames D (pmem s) pgdir"
    and "fr \<notin> pt_frames D (pmem s) pgdir \<Longrightarrow> set_entry pgdir va e (pmem s) fr = pmem s fr"
proof -
  have "set_entry pgdir va e (pmem s) pgdir = pmem s pgdir"
    using pt_wf_table(2) [OF wf va] by (rule set_entry_pgdir)
  then show "pt_frames D (set_entry pgdir va e (pmem s)) pgdir = pt_frames D (pmem s) pgdir"
    by (simp add: pt_frames_def pt_tables_def)
  show "set_entry pgdir va e (pmem s) fr = pmem s fr" if "fr \<notin> pt_frames D (pmem s) pgdir"
    using that va by (auto simp: set_entry_def Let_def pt_frames_def pt_tables_def)
qed

lemma pt_view_set_entry:
  assumes wf: "pt_wf D s pgdir fl" and va: "PDX va \<in> D" "present (pmem s pgdir (PDX va))"
  shows "pt_view D (set_entry pgdir va e (pmem s)) pgdir =
    (pt_view D (pmem s) pgdir)(PGNUM va := if present e then Some e else None)"
proof
  fix v :: nat
  let ?m = "pmem s" and ?m' = "set_entry pgdir va e (pmem s)"
  let ?i = "v div 1024"
  have dir: "?m' pgdir = ?m pgdir"
    using pt_wf_table(2) [OF wf va] by (rule set_entry_pgdir)
  have other: "?m' (PGNUM (?m pgdir ?i)) (v mod 1024) = ?m (PGNUM (?m pgdir ?i)) (v mod 1024)"
    if "v \<noteq> PGNUM va" "?i \<in> D" "present (?m pgdir ?i)"
  proof (cases "PGNUM (?m pgdir ?i) = PGNUM (?m pgdir (PDX va))")
    case True
    with wf va that have "?i = PDX va" unfolding pt_wf_def pt_tables_def inj_on_def by blast
    with that(1) have "v mod 1024 \<noteq> PTX va"
      by (metis PDX_PGNUM PTX_PGNUM div_mult_mod_eq)
    then show ?thesis by (simp add: set_entry_def Let_def)
  qed (simp add: set_entry_def Let_def)
  show "pt_view D ?m' pgdir v =
    ((pt_view D ?m pgdir)(PGNUM va := if present e then Some e else None)) v"
  proof (cases "v = PGNUM va")
    case True
    have "?m' (PGNUM (?m pgdir (PDX va))) (PTX va) = e" by (simp add: set_entry_def Let_def)
    with True va dir show ?thesis by (simp add: pt_view_PGNUM)
  next
    case False
    with dir other show ?thesis by (auto simp: pt_view_def)
  qed
qed

text \<open>A new, cleared table changes nothing of the view.\<close>

lemma pt_tables_new:
  assumes "i \<in> D" and "present e"
  shows "pt_tables D (m(pp := z, pgdir := (m pgdir)(i := e))) pgdir = insert i (pt_tables D m pgdir)"
  using assms by (auto simp: pt_tables_def)

lemma pt_wf_new_table:
  assumes wf: "pt_wf D s pgdir (pp # fl)" and i: "i \<in> D" "\<not> present (pmem s pgdir i)"
    and e: "present e" "PGNUM e = pp" and n: "pp < npages s" and fl: "pp \<notin> set fl"
    and t: "npages t = npages s"
      "pmem t = (pmem s)(pp := z, pgdir := (pmem s pgdir)(i := e))"
  shows "pt_wf D t pgdir fl"
proof -
  let ?T = "pt_tables D (pmem s) pgdir"
  have i_new: "i \<notin> ?T" using i(2) by (simp add: pt_tables_def)
  have old: "PGNUM (pmem t pgdir j) = PGNUM (pmem s pgdir j)" if "j \<in> ?T" for j
    using that i_new t(2) by (auto simp: fun_upd_def)
  have new: "PGNUM (pmem t pgdir i) = pp" using t(2) e(2) by simp
  have T: "pt_tables D (pmem t) pgdir = insert i ?T"
    unfolding t(2) by (rule pt_tables_new [OF i(1) e(1)])
  have fr: "\<forall>j \<in> ?T. PGNUM (pmem s pgdir j) < npages s \<and> PGNUM (pmem s pgdir j) \<noteq> pgdir \<and>
      PGNUM (pmem s pgdir j) \<notin> set (pp # fl)"
    and inj: "inj_on (\<lambda>j. PGNUM (pmem s pgdir j)) ?T"
    and pg: "pgdir < npages s" "pgdir \<notin> set (pp # fl)" "D \<subseteq> {..<1024}"
    using wf by (auto simp: pt_wf_def pt_frames_def)
  have inj': "inj_on (\<lambda>j. PGNUM (pmem t pgdir j)) ?T"
    using inj old by (simp add: inj_on_def)
  have "pp \<notin> (\<lambda>j. PGNUM (pmem t pgdir j)) ` ?T" using fr old by auto
  with inj' new i_new have inj2: "inj_on (\<lambda>j. PGNUM (pmem t pgdir j)) (insert i ?T)"
    by simp
  show ?thesis
    unfolding pt_wf_def pt_frames_def T
    using inj2 fr old new pg n fl t(1) by auto
qed

lemma pt_view_new_table:
  assumes wf: "pt_wf D s pgdir (pp # fl)" and i: "i \<in> D" "\<not> present (pmem s pgdir i)"
    and e: "present e" "PGNUM e = pp"
  shows "pt_view D ((pmem s)(pp := (\<lambda>_. 0), pgdir := (pmem s pgdir)(i := e))) pgdir =
    pt_view D (pmem s) pgdir"
proof
  fix v :: nat
  let ?m = "pmem s" and ?j = "v div 1024"
  let ?m' = "?m(pp := (\<lambda>_. 0), pgdir := (?m pgdir)(i := e))"
  have pg: "pgdir \<noteq> pp" using wf by (auto simp: pt_wf_def)
  show "pt_view D ?m' pgdir v = pt_view D ?m pgdir v"
  proof (cases "?j = i")
    case True
    then have "pt_view D ?m pgdir v = None" using i by (simp add: pt_view_def)
    moreover have "?m' (PGNUM (?m' pgdir ?j)) (v mod 1024) = 0"
      using True e pg by simp
    then have "pt_view D ?m' pgdir v = None" unfolding pt_view_def by simp
    ultimately show ?thesis by simp
  next
    case False
    have "PGNUM (?m pgdir ?j) \<noteq> pgdir \<and> PGNUM (?m pgdir ?j) \<noteq> pp"
      if "?j \<in> D" "present (?m pgdir ?j)"
      using pt_wf_table [OF wf that] by simp
    with False show ?thesis by (auto simp: pt_view_def)
  qed
qed

text \<open>
  The walk with \<open>create\<close>: it returns the place of the entry, keeps the view, and takes the first
  free frame exactly when the table was missing.
\<close>

lemma walk_create:
  assumes inv: "pages_inv s fl" and wf: "pt_wf D s pgdir fl" and va: "PDX va \<in> D"
    and mem: "present (pmem s pgdir (PDX va)) \<or> fl \<noteq> []"
  shows "\<exists>s'. pgdir_walk pgdir va True s = Inr (Some (PGNUM (pmem s' pgdir (PDX va)), PTX va), s') \<and>
    pages_inv s' (if present (pmem s pgdir (PDX va)) then fl else tl fl) \<and>
    pt_wf D s' pgdir (if present (pmem s pgdir (PDX va)) then fl else tl fl) \<and>
    present (pmem s' pgdir (PDX va)) \<and>
    pt_tables D (pmem s') pgdir = insert (PDX va) (pt_tables D (pmem s) pgdir) \<and>
    pt_view D (pmem s') pgdir = pt_view D (pmem s) pgdir \<and> mem_frame s s' \<and> tlb s' = tlb s \<and>
    (\<forall>i. i \<notin> set fl \<longrightarrow> pages s' ! i = pages s ! i) \<and>
    (\<forall>fr. fr \<notin> set fl \<longrightarrow> fr \<noteq> pgdir \<longrightarrow> pmem s' fr = pmem s fr) \<and>
    pt_frames D (pmem s') pgdir \<subseteq> pt_frames D (pmem s) pgdir \<union> set fl"
proof (cases "present (pmem s pgdir (PDX va))")
  case True
  then have "insert (PDX va) (pt_tables D (pmem s) pgdir) = pt_tables D (pmem s) pgdir"
    using va by (auto simp: pt_tables_def)
  with walk_present [OF inv wf va True, of True] True inv wf show ?thesis
    by (intro exI [of _ s]) simp
next
  case False
  with mem obtain pp fl' where fl: "fl = pp # fl'" by (cases fl) auto
  let ?e = "page2pa pp OR PTE_P OR PTE_U OR PTE_W"
  from wf fl have pg: "pgdir \<noteq> pp" by (auto simp: pt_wf_def)
  from walk_alloc [OF inv [unfolded fl] False pg] obtain s' where
    run: "pgdir_walk pgdir va True s = Inr (Some (pp, PTX va), s')" and inv': "pages_inv s' fl'"
    and fr: "mem_frame s s'" and tlb: "tlb s' = tlb s"
    and mem': "pmem s' = (pmem s)(pp := (\<lambda>_. 0), pgdir := (pmem s pgdir)(PDX va := ?e))"
    and pages: "\<forall>i. i \<noteq> pp \<longrightarrow> pages s' ! i = pages s ! i" by blast
  have n: "pp < npages s" "npages s \<le> 65536" "pp \<notin> set fl'"
    using inv fl pages_inv_bound [OF inv] pages_inv_distinct [OF inv] by (auto simp: pages_inv_n)
  then have e: "present ?e" "PGNUM ?e = pp" by simp_all
  have "pt_wf D s' pgdir fl'"
    by (rule pt_wf_new_table [OF wf [unfolded fl] va False e n(1) n(3) _ mem'])
      (simp add: mem_frame_D(1) [OF fr])
  moreover have "pt_view D (pmem s') pgdir = pt_view D (pmem s) pgdir"
    unfolding mem' by (rule pt_view_new_table [OF wf [unfolded fl] va False e])
  moreover have "pt_tables D (pmem s') pgdir = insert (PDX va) (pt_tables D (pmem s) pgdir)"
    unfolding mem' by (rule pt_tables_new [OF va e(1)])
  moreover from this have "pt_frames D (pmem s') pgdir \<subseteq> pt_frames D (pmem s) pgdir \<union> set fl"
    using e(2) fl unfolding pt_frames_def mem' by auto
  ultimately show ?thesis
    using False run inv' fr tlb pages mem' e pg unfolding fl
    by (intro exI [of _ s']) simp
qed

lemma page_decref_ok:
  assumes inv: "pages_inv s fl" and pp: "pp < npages s" "pp \<notin> set fl"
  shows "\<exists>s'. page_decref pp s = Inr ((), s') \<and>
    pages_inv s' (if pp_refs s pp = 1 then pp # fl else fl) \<and> mem_frame s s' \<and>
    pmem s' = pmem s \<and> tlb s' = tlb s \<and> pp_refs s' = (pp_refs s)(pp := pp_refs s pp - 1)"
proof -
  let ?s = "s\<lparr>pages := (pages s)[pp := (pages s ! pp)\<lparr>pp_ref := pp_refs s pp - 1\<rparr>]\<rparr>"
  have len: "length (pages s) = npages s" using inv by (rule pages_inv_n)
  have s_inv: "pages_inv ?s fl" using inv pp(2) by (rule pages_inv_set_ref)
  have refs: "pp_refs ?s = (pp_refs s)(pp := pp_refs s pp - 1)"
    using pp len by (auto simp: pp_refs_def fun_eq_iff)
  show ?thesis
  proof (cases "pp_refs s pp = 1")
    case False
    then have "page_decref pp s = Inr ((), ?s)"
      using page_decref_many [OF inv pp(1)] by (simp add: pp_refs_def)
    with False s_inv refs show ?thesis by (intro exI [of _ ?s]) simp
  next
    case True
    have run: "page_decref pp s = page_free pp ?s"
      using pp True len
      by (simp add: page_decref_def kbind_apply set_pp_def get_pp_def kwhen_apply pp_refs_def)
    have z: "pp < npages ?s" "pp_ref (pages ?s ! pp) = 0"
      using pp len True by simp_all
    from page_free_ok [OF s_inv z(1) pp(2) z(2)] obtain l where
      l: "page_free pp ?s = Inr ((), with_lock l (free_state pp ?s))" "lock_free l" by blast
    let ?t = "with_lock l (free_state pp ?s)"
    have "pages_inv ?t (pp # fl)" by (rule pages_inv_free [OF s_inv z(1) pp(2) z(2) l(2)])
    moreover have "mem_frame s ?t" by (blast intro: mem_frame_trans mem_frame_free mem_frame_updates)
    moreover have "pp_refs ?t = (pp_refs s)(pp := pp_refs s pp - 1)"
      using pp len by (auto simp: pp_refs_def fun_eq_iff)
    ultimately show ?thesis using run l(1) True by (intro exI [of _ ?t]) simp
  qed
qed

lemma pp_refs_updates [simp]:
  "pp_refs (s\<lparr>pmem := m\<rparr>) = pp_refs s" "pp_refs (s\<lparr>tlb := c\<rparr>) = pp_refs s"
  by (simp_all add: pp_refs_def fun_eq_iff)

section \<open>Looking up and removing\<close>

lemma walk_view:
  assumes inv: "pages_inv s fl" and wf: "pt_wf D s pgdir fl" and va: "PDX va \<in> D"
    and e: "pt_view D (pmem s) pgdir (PGNUM va) = Some e"
  shows "pgdir_walk pgdir va c s = Inr (Some (PGNUM (pmem s pgdir (PDX va)), PTX va), s)"
    and "present (pmem s pgdir (PDX va))"
    and "pmem s (PGNUM (pmem s pgdir (PDX va))) (PTX va) = e" and "present e"
proof -
  show p: "present (pmem s pgdir (PDX va))"
    and "pmem s (PGNUM (pmem s pgdir (PDX va))) (PTX va) = e" and "present e"
    using e by (auto simp: pt_view_PGNUM split: if_splits)
  show "pgdir_walk pgdir va c s = Inr (Some (PGNUM (pmem s pgdir (PDX va)), PTX va), s)"
    by (rule walk_present [OF inv wf va p])
qed

lemma pa2page_entry: "PGNUM e < n \<Longrightarrow> pa2page n (PTE_ADDR e) = Inr (PGNUM e)"
  by (simp add: pa2page_def)

lemma page_lookup_None:
  assumes inv: "pages_inv s fl" and wf: "pt_wf D s pgdir fl" and va: "PDX va \<in> D"
    and e: "pt_view D (pmem s) pgdir (PGNUM va) = None"
  shows "page_lookup pgdir va st s = Inr ((None, st), s)"
proof (cases "present (pmem s pgdir (PDX va))")
  case True
  with e va have "\<not> present (pmem s (PGNUM (pmem s pgdir (PDX va))) (PTX va))"
    by (auto simp: pt_view_PGNUM split: if_splits)
  then show ?thesis
    using walk_present [OF inv wf va True, of False]
    by (simp add: page_lookup_def kread_def kbind_apply present_def)
next
  case False
  then show ?thesis by (simp add: page_lookup_def kbind_apply walk_absent)
qed

lemma page_lookup_Some:
  assumes inv: "pages_inv s fl" and wf: "pt_wf D s pgdir fl" and va: "PDX va \<in> D"
    and e: "pt_view D (pmem s) pgdir (PGNUM va) = Some e" and n: "PGNUM e < npages s"
  shows "page_lookup pgdir va (Some cell) s =
    Inr ((Some (PGNUM e), Some (map_option (\<lambda>_. (PGNUM (pmem s pgdir (PDX va)), PTX va)) cell)), s)"
  using walk_view(1) [OF inv wf va e, of False] walk_view(2-4) [OF inv wf va e] n
  by (cases cell)
    (simp_all add: page_lookup_def kread_def kbind_apply present_def lift_sum_def pa2page_entry)

text \<open>A page mapped in the user's part: not free, and no part of the page table itself.\<close>

definition user_page :: "nat set \<Rightarrow> 'a kmem_scheme \<Rightarrow> nat \<Rightarrow> nat list \<Rightarrow> nat \<Rightarrow> bool" where
  "user_page D s pgdir fl pp \<longleftrightarrow>
     pp < npages s \<and> pp \<notin> set fl \<and> pp \<noteq> pgdir \<and> pp \<notin> pt_frames D (pmem s) pgdir"

lemma pt_wf_more_free:
  assumes "pt_wf D s pgdir fl" and "user_page D s pgdir fl pp"
  shows "pt_wf D s pgdir (pp # fl)"
  using assms by (auto simp: pt_wf_def user_page_def)

lemma pt_wf_cong:
  "npages t = npages s \<Longrightarrow> pmem t = pmem s \<Longrightarrow> pt_wf D t pgdir fl = pt_wf D s pgdir fl"
  by (simp add: pt_wf_def)

lemma kwrite_entry:
  "kwrite (PGNUM (pmem s pgdir (PDX va)), PTX va) e s =
     Inr ((), s\<lparr>pmem := set_entry pgdir va e (pmem s)\<rparr>)"
  by (simp add: kwrite_def set_entry_def Let_def)

lemma page_remove_Some:
  assumes inv: "pages_inv s fl" and wf: "pt_wf D s pgdir fl" and va: "PDX va \<in> D"
    and e: "pt_view D (pmem s) pgdir (PGNUM va) = Some e"
    and pp: "user_page D s pgdir fl (PGNUM e)" and slot: "pte_slot s \<noteq> None"
  shows "\<exists>s'. page_remove pgdir va s = Inr ((), s') \<and>
    pages_inv s' (if pp_refs s (PGNUM e) = 1 then PGNUM e # fl else fl) \<and>
    pt_wf D s' pgdir (if pp_refs s (PGNUM e) = 1 then PGNUM e # fl else fl) \<and>
    pmem s' = set_entry pgdir va 0 (pmem s) \<and>
    pt_view D (pmem s') pgdir = (pt_view D (pmem s) pgdir)(PGNUM va := None) \<and>
    tlb s' = (tlb s)(PGNUM va := None) \<and> mem_frame s s' \<and>
    pp_refs s' = (pp_refs s)(PGNUM e := pp_refs s (PGNUM e) - 1)"
proof -
  let ?pp = "PGNUM e"
  let ?fl = "if pp_refs s ?pp = 1 then ?pp # fl else fl"
  note w = walk_view [OF inv wf va e]
  from pp have n: "?pp < npages s" "?pp \<notin> set fl" by (auto simp: user_page_def)
  from page_decref_ok [OF inv n] obtain t where
    t: "page_decref ?pp s = Inr ((), t)" "pages_inv t ?fl" "mem_frame s t" "pmem t = pmem s"
      "tlb t = tlb s" "pp_refs t = (pp_refs s)(?pp := pp_refs s ?pp - 1)" by blast
  let ?u = "t\<lparr>pmem := set_entry pgdir va 0 (pmem t), tlb := (tlb t)(PGNUM va := None)\<rparr>"
  from slot obtain p where "pte_slot s = Some p" by auto
  then have run: "page_remove pgdir va s = Inr ((), ?u)"
    using page_lookup_Some [OF inv wf va e n(1), of "Some p"] t(1)
      kwrite_entry [of t pgdir va 0] t(4)
    by (simp add: page_remove_def kbind_apply tlb_invalidate_def)
  have "pt_wf D s pgdir ?fl" using wf pt_wf_more_free [OF wf pp] by simp
  then have t_wf: "pt_wf D t pgdir ?fl"
    by (simp add: pt_wf_cong [of t s] t(4) mem_frame_D(1) [OF t(3)] del: if_split)
  have "pt_wf D (t\<lparr>pmem := set_entry pgdir va 0 (pmem t)\<rparr>) pgdir ?fl"
    using t_wf va w(2) t(4) by (intro pt_wf_set_entry) simp_all
  then have u_wf: "pt_wf D ?u pgdir ?fl" by (simp add: pt_wf_cong [of ?u "t\<lparr>pmem := set_entry pgdir va 0 (pmem t)\<rparr>"] del: if_split)
  have view: "pt_view D (pmem ?u) pgdir = (pt_view D (pmem s) pgdir)(PGNUM va := None)"
    using pt_view_set_entry [OF wf va w(2), of 0] t(4) by simp
  have fr: "mem_frame s ?u"
    using t(3) by (blast intro: mem_frame_trans mem_frame_updates)
  have "pages_inv ?u ?fl" using t(2) by (simp del: if_split)
  with run u_wf view fr t(4-6) show ?thesis
    by (intro exI [of _ ?u]) (simp del: if_split)
qed

lemma page_remove_None:
  assumes "pages_inv s fl" and "pt_wf D s pgdir fl" and "PDX va \<in> D"
    and "pt_view D (pmem s) pgdir (PGNUM va) = None"
  shows "page_remove pgdir va s = Inr ((), s)"
  using page_lookup_None [OF assms] by (simp add: page_remove_def kbind_apply)

section \<open>Inserting\<close>

text \<open>The part of \<^verbatim>\<open>page_insert\<close> after the old mapping is gone.\<close>

abbreviation insert_tail ::
    "nat \<Rightarrow> nat \<Rightarrow> u32 \<Rightarrow> u32 \<Rightarrow> nat \<times> nat \<Rightarrow> ('a kmem_scheme, int) kfun" where
  "insert_tail pgdir pp va perm pte \<equiv>
     kbind (set_pp pp (\<lambda>p. p\<lparr>pp_ref := pp_ref p + 1\<rparr>)) (\<lambda>_.
     kbind (tlb_invalidate pgdir va) (\<lambda>_.
     kbind (kwrite pte (page2pa pp OR perm OR PTE_P)) (\<lambda>_. kreturn 0)))"

lemma insert_finish:
  assumes inv: "pages_inv s fl" and wf: "pt_wf D s pgdir fl" and va: "PDX va \<in> D"
    and p: "present (pmem s pgdir (PDX va))" and pp: "pp < npages s" "pp \<notin> set fl"
  shows "\<exists>s'. insert_tail pgdir pp va perm (PGNUM (pmem s pgdir (PDX va)), PTX va) s = Inr (0, s') \<and>
    pages_inv s' fl \<and> pt_wf D s' pgdir fl \<and>
    pt_view D (pmem s') pgdir =
      (pt_view D (pmem s) pgdir)(PGNUM va \<mapsto> page2pa pp OR perm OR PTE_P) \<and>
    tlb s' = (tlb s)(PGNUM va := None) \<and> mem_frame s s' \<and>
    pp_refs s' = (pp_refs s)(pp := pp_refs s pp + 1) \<and>
    pmem s' = set_entry pgdir va (page2pa pp OR perm OR PTE_P) (pmem s)"
proof -
  let ?e = "page2pa pp OR perm OR PTE_P"
  let ?t = "s\<lparr>pages := (pages s)[pp := (pages s ! pp)\<lparr>pp_ref := pp_ref (pages s ! pp) + 1\<rparr>]\<rparr>"
  let ?u = "?t\<lparr>tlb := (tlb s)(PGNUM va := None)\<rparr>"
  let ?v = "?u\<lparr>pmem := set_entry pgdir va ?e (pmem s)\<rparr>"
  have len: "length (pages s) = npages s" using inv by (rule pages_inv_n)
  have "pages_inv ?t fl" using inv pp(2) by (rule pages_inv_set_ref)
  then have v_inv: "pages_inv ?v fl" by (simp only: pages_inv_pmem)
  have "pt_wf D (s\<lparr>pmem := set_entry pgdir va ?e (pmem s)\<rparr>) pgdir fl"
    by (rule pt_wf_set_entry [OF wf va p])
  then have v_wf: "pt_wf D ?v pgdir fl"
    by (simp add: pt_wf_cong [of ?v "s\<lparr>pmem := set_entry pgdir va ?e (pmem s)\<rparr>"])
  have view: "pt_view D (pmem ?v) pgdir = (pt_view D (pmem s) pgdir)(PGNUM va \<mapsto> ?e)"
    using pt_view_set_entry [OF wf va p, of ?e] by simp
  have fr: "mem_frame s ?v" by (blast intro: mem_frame_trans mem_frame_updates)
  have refs: "pp_refs ?v = (pp_refs s)(pp := pp_refs s pp + 1)"
    using pp len by (auto simp: pp_refs_def fun_eq_iff)
  show ?thesis
    using v_inv v_wf view fr refs pp(1) len kwrite_entry [of ?u pgdir va ?e]
    by (intro exI [of _ ?v]) (simp add: kbind_apply set_pp_def tlb_invalidate_def)
qed

text \<open>The reference counts after \<open>pp\<close> has taken the place of the page of the entry \<open>old\<close>.\<close>

definition mapped_refs :: "(nat \<Rightarrow> u16) \<Rightarrow> u32 option \<Rightarrow> nat \<Rightarrow> nat \<Rightarrow> u16" where
  "mapped_refs r old pp = (case old of
     None \<Rightarrow> r(pp := r pp + 1)
   | Some e \<Rightarrow> if PGNUM e = pp then r else r(PGNUM e := r (PGNUM e) - 1, pp := r pp + 1))"

lemma page_insert_unmapped:
  assumes inv: "pages_inv s fl" and wf: "pt_wf D s pgdir fl" and va: "PDX va \<in> D"
    and mem: "present (pmem s pgdir (PDX va)) \<or> fl \<noteq> []"
    and pp: "pp < npages s" "pp \<notin> set fl"
    and old: "pt_view D (pmem s) pgdir (PGNUM va) = None"
  shows "\<exists>s'. page_insert pgdir pp va perm s = Inr (0, s') \<and>
    pages_inv s' (if present (pmem s pgdir (PDX va)) then fl else tl fl) \<and>
    pt_wf D s' pgdir (if present (pmem s pgdir (PDX va)) then fl else tl fl) \<and>
    pt_view D (pmem s') pgdir =
      (pt_view D (pmem s) pgdir)(PGNUM va \<mapsto> page2pa pp OR perm OR PTE_P) \<and>
    tlb s' = (tlb s)(PGNUM va := None) \<and> mem_frame s s' \<and>
    (\<forall>i. i \<notin> set fl \<longrightarrow> pp_refs s' i = ((pp_refs s)(pp := pp_refs s pp + 1)) i) \<and>
    (\<forall>fr. fr \<notin> set fl \<union> insert pgdir (pt_frames D (pmem s) pgdir) \<longrightarrow> pmem s' fr = pmem s fr) \<and>
    pt_frames D (pmem s') pgdir \<subseteq> pt_frames D (pmem s) pgdir \<union> set fl"
proof -
  let ?fl = "if present (pmem s pgdir (PDX va)) then fl else tl fl"
  from walk_create [OF inv wf va mem] obtain t where
    run: "pgdir_walk pgdir va True s = Inr (Some (PGNUM (pmem t pgdir (PDX va)), PTX va), t)"
    and t: "pages_inv t ?fl" "pt_wf D t pgdir ?fl" "present (pmem t pgdir (PDX va))"
      "pt_view D (pmem t) pgdir = pt_view D (pmem s) pgdir" "mem_frame s t" "tlb t = tlb s"
      "\<forall>i. i \<notin> set fl \<longrightarrow> pages t ! i = pages s ! i"
      "\<forall>fr. fr \<notin> set fl \<longrightarrow> fr \<noteq> pgdir \<longrightarrow> pmem t fr = pmem s fr"
      "pt_frames D (pmem t) pgdir \<subseteq> pt_frames D (pmem s) pgdir \<union> set fl" by blast
  have "set ?fl \<subseteq> set fl" by (cases fl) auto
  then have pp': "pp < npages t" "pp \<notin> set ?fl" using pp mem_frame_D(1) [OF t(5)] by auto
  have refs: "\<forall>i. i \<notin> set fl \<longrightarrow> pp_refs t i = pp_refs s i" using t(7) by (simp add: pp_refs_def)
  have "\<not> present (pmem t (PGNUM (pmem t pgdir (PDX va))) (PTX va))"
    using old t(3) va unfolding t(4) [symmetric] by (auto simp: pt_view_PGNUM split: if_splits)
  moreover from insert_finish [OF t(1,2) va t(3) pp', of perm] obtain s' where
    "insert_tail pgdir pp va perm (PGNUM (pmem t pgdir (PDX va)), PTX va) t = Inr (0, s')"
    and s': "pages_inv s' ?fl" "pt_wf D s' pgdir ?fl"
    "pt_view D (pmem s') pgdir =
      (pt_view D (pmem t) pgdir)(PGNUM va \<mapsto> page2pa pp OR perm OR PTE_P)"
    "tlb s' = (tlb t)(PGNUM va := None)" "mem_frame t s'"
    "pp_refs s' = (pp_refs t)(pp := pp_refs t pp + 1)"
    "pmem s' = set_entry pgdir va (page2pa pp OR perm OR PTE_P) (pmem t)" by blast
  ultimately have "page_insert pgdir pp va perm s = Inr (0, s')"
    using run by (simp add: page_insert_def kread_def present_def kwhen_def kbind_apply)
  moreover have "\<forall>i. i \<notin> set fl \<longrightarrow> pp_refs s' i = ((pp_refs s)(pp := pp_refs s pp + 1)) i"
    using s'(6) refs pp(2) by simp
  moreover have "mem_frame s s'" using t(5) s'(5) by (rule mem_frame_trans)
  moreover have "pmem s' fr = pmem s fr" if "fr \<notin> set fl \<union> insert pgdir (pt_frames D (pmem s) pgdir)" for fr
  proof -
    have "fr \<notin> pt_frames D (pmem t) pgdir" "pmem t fr = pmem s fr" using that t(8,9) by auto
    then show ?thesis unfolding s'(7) using pt_frames_set_entry(2) [OF t(2) va t(3)] by simp
  qed
  moreover have "pt_frames D (pmem s') pgdir \<subseteq> pt_frames D (pmem s) pgdir \<union> set fl"
    unfolding s'(7) pt_frames_set_entry(1) [OF t(2) va t(3)] by (rule t(9))
  ultimately show ?thesis using s'(1-4) t(4,6) by (intro exI [of _ s']) (simp del: if_split)
qed

lemma page2pa_eq_iff: "pp < 1048576 \<Longrightarrow> PTE_ADDR e = page2pa pp \<longleftrightarrow> PGNUM e = pp"
  by (metis PGNUM_PTE_ADDR PGNUM_page2pa PTE_ADDR_page2pa)

lemma page_insert_same:
  assumes inv: "pages_inv s fl" and wf: "pt_wf D s pgdir fl" and va: "PDX va \<in> D"
    and pp: "pp < npages s"
    and old: "pt_view D (pmem s) pgdir (PGNUM va) = Some e" and e: "PGNUM e = pp"
  shows "page_insert pgdir pp va perm s =
    Inr (0, s\<lparr>pmem := set_entry pgdir va (page2pa pp OR perm OR PTE_P) (pmem s)\<rparr>)"
proof -
  have "pp < 1048576" using pp pages_inv_n(1) [OF inv] by simp
  with e have "PTE_ADDR e = page2pa pp" by (simp add: page2pa_eq_iff)
  then show ?thesis
    using walk_view(1) [OF inv wf va old, of True] walk_view(2-4) [OF inv wf va old]
    by (simp add: page_insert_def kread_def kbind_apply present_def kwrite_entry)
qed

lemma page_insert_other:
  assumes inv: "pages_inv s fl" and wf: "pt_wf D s pgdir fl" and va: "PDX va \<in> D"
    and pp: "pp < npages s" "pp \<notin> set fl"
    and old: "pt_view D (pmem s) pgdir (PGNUM va) = Some e" and e: "PGNUM e \<noteq> pp"
    and user: "user_page D s pgdir fl (PGNUM e)" and slot: "pte_slot s \<noteq> None"
  shows "\<exists>s'. page_insert pgdir pp va perm s = Inr (0, s') \<and>
    pages_inv s' (if pp_refs s (PGNUM e) = 1 then PGNUM e # fl else fl) \<and>
    pt_wf D s' pgdir (if pp_refs s (PGNUM e) = 1 then PGNUM e # fl else fl) \<and>
    pt_view D (pmem s') pgdir =
      (pt_view D (pmem s) pgdir)(PGNUM va \<mapsto> page2pa pp OR perm OR PTE_P) \<and>
    tlb s' = (tlb s)(PGNUM va := None) \<and> mem_frame s s' \<and>
    pp_refs s' = (pp_refs s)(PGNUM e := pp_refs s (PGNUM e) - 1, pp := pp_refs s pp + 1)"
proof -
  let ?fl = "if pp_refs s (PGNUM e) = 1 then PGNUM e # fl else fl"
  note w = walk_view(2-4) [OF inv wf va old]
  from page_remove_Some [OF inv wf va old user slot] obtain t where
    run: "page_remove pgdir va s = Inr ((), t)" and t: "pages_inv t ?fl" "pt_wf D t pgdir ?fl"
      "pmem t = set_entry pgdir va 0 (pmem s)"
      "pt_view D (pmem t) pgdir = (pt_view D (pmem s) pgdir)(PGNUM va := None)"
      "tlb t = (tlb s)(PGNUM va := None)" "mem_frame s t"
      "pp_refs t = (pp_refs s)(PGNUM e := pp_refs s (PGNUM e) - 1)" by blast
  have dir: "pmem t pgdir = pmem s pgdir"
    unfolding t(3) by (rule set_entry_pgdir) (rule pt_wf_table(2) [OF wf va w(1)])
  have pp': "pp < npages t" "pp \<notin> set ?fl" using pp e mem_frame_D(1) [OF t(6)] by auto
  have "present (pmem t pgdir (PDX va))" using w(1) dir by simp
  from insert_finish [OF t(1,2) va this pp', of perm] obtain s' where
    fin: "insert_tail pgdir pp va perm (PGNUM (pmem t pgdir (PDX va)), PTX va) t = Inr (0, s')"
    and s': "pages_inv s' ?fl" "pt_wf D s' pgdir ?fl"
    "pt_view D (pmem s') pgdir =
      (pt_view D (pmem t) pgdir)(PGNUM va \<mapsto> page2pa pp OR perm OR PTE_P)"
    "tlb s' = (tlb t)(PGNUM va := None)" "mem_frame t s'"
    "pp_refs s' = (pp_refs t)(pp := pp_refs t pp + 1)" by blast
  have "pp < 1048576" using pp(1) pages_inv_n(1) [OF inv] by simp
  with e have "PTE_ADDR e \<noteq> page2pa pp" by (simp add: page2pa_eq_iff)
  with fin have "page_insert pgdir pp va perm s = Inr (0, s')"
    using walk_view(1) [OF inv wf va old, of True] w run
    by (simp add: page_insert_def kread_def present_def kwhen_def kbind_apply dir)
  moreover have "mem_frame s s'" using t(6) s'(5) by (rule mem_frame_trans)
  moreover have "pp_refs s' = (pp_refs s)(PGNUM e := pp_refs s (PGNUM e) - 1, pp := pp_refs s pp + 1)"
    using s'(6) t(7) e by auto
  ultimately show ?thesis using s'(1-4) t(4,5) by (intro exI [of _ s']) (simp del: if_split)
qed

section \<open>Mapping a region\<close>

definition map_range :: "(nat \<Rightarrow> u32 option) \<Rightarrow> nat \<Rightarrow> nat \<Rightarrow> (nat \<Rightarrow> u32) \<Rightarrow> nat \<Rightarrow> u32 option" where
  "map_range f v n g w = (if v \<le> w \<and> w < v + n then Some (g (w - v)) else f w)"

definition range_tables :: "nat \<Rightarrow> nat \<Rightarrow> nat set" where
  "range_tables v n = (\<lambda>k. k div 1024) ` {v..<v + n}"

text \<open>The entries \<^verbatim>\<open>boot_map_region\<close> writes, by their distance from the first.\<close>

definition region_entry :: "u32 \<Rightarrow> u32 \<Rightarrow> nat \<Rightarrow> u32" where
  "region_entry pa perm k = (pa + of_nat k * PGSIZE) OR perm OR PTE_P"

lemma map_range_0 [simp]: "map_range f v 0 g = f"
  by (auto simp: map_range_def fun_eq_iff)

lemma map_range_Suc:
  "map_range (f(v \<mapsto> g 0)) (Suc v) n (\<lambda>k. g (Suc k)) = map_range f v (Suc n) g"
proof
  fix w
  consider "w < v" | "w = v" | d where "w = Suc (v + d)"
    using less_iff_Suc_add [of v w] by (cases "w = v") auto
  then show "map_range (f(v \<mapsto> g 0)) (Suc v) n (\<lambda>k. g (Suc k)) w = map_range f v (Suc n) g w"
    by cases (auto simp: map_range_def)
qed

lemma range_tables_0 [simp]: "range_tables v 0 = {}"
  by (simp add: range_tables_def)

lemma range_tables_Suc: "range_tables v (Suc n) = insert (v div 1024) (range_tables (Suc v) n)"
proof -
  have "{v..<v + Suc n} = insert v {Suc v..<Suc v + n}" by auto
  then show ?thesis by (simp add: range_tables_def)
qed

lemma finite_range_tables [simp]: "finite (range_tables v n)"
  by (simp add: range_tables_def)

lemma region_entry_Suc: "region_entry (pa + PGSIZE) perm k = region_entry pa perm (Suc k)"
  by (simp add: region_entry_def algebra_simps)

lemma next_page:
  assumes "PGNUM va + Suc (Suc n) \<le> 1048576"
  shows "PGNUM (va + PGSIZE) = Suc (PGNUM va)"
proof -
  have "unat va div 4096 \<le> 1048574" using assms by (simp add: PGNUM_div)
  then have "unat va + 4096 < 4294967296" by linarith
  then have "unat (va + PGSIZE) = unat va + 4096"
    by (simp add: PGSIZE_def unat_word_ariths)
  then show ?thesis by (simp add: PGNUM_div)
qed

lemma next_range:
  assumes "PGNUM va + Suc n \<le> 1048576"
  shows "map_range f (PGNUM (va + PGSIZE)) n g = map_range f (Suc (PGNUM va)) n g"
    and "range_tables (PGNUM (va + PGSIZE)) n = range_tables (Suc (PGNUM va)) n"
    and "PGNUM (va + PGSIZE) + n \<le> 1048576"
proof -
  have "n = 0 \<or> PGNUM (va + PGSIZE) = Suc (PGNUM va)"
    using assms by (cases n) (auto intro: next_page)
  then show "map_range f (PGNUM (va + PGSIZE)) n g = map_range f (Suc (PGNUM va)) n g"
    and "range_tables (PGNUM (va + PGSIZE)) n = range_tables (Suc (PGNUM va)) n"
    and "PGNUM (va + PGSIZE) + n \<le> 1048576"
    using assms less_imp_le [OF PGNUM_less [of "va + PGSIZE"]] by auto
qed

lemma sub_page:
  assumes "unat sz div 4096 = Suc n"
  shows "PGSIZE \<le> sz" and "unat (sz - PGSIZE) div 4096 = n"
proof -
  have "4096 \<le> unat sz" using assms by (cases "unat sz < 4096") auto
  then show le: "PGSIZE \<le> sz" by (simp add: PGSIZE_def word_le_nat_alt)
  then have "unat (sz - PGSIZE) = unat sz - 4096" by (simp add: unat_sub) (simp add: PGSIZE_def)
  then show "unat (sz - PGSIZE) div 4096 = n" using assms \<open>4096 \<le> unat sz\<close> by linarith
qed

text \<open>One page: the walk and the store of the entry.\<close>

lemma map_page:
  assumes inv: "pages_inv s fl" and wf: "pt_wf D s pgdir fl" and va: "PDX va \<in> D"
    and mem: "PDX va \<in> pt_tables D (pmem s) pgdir \<or> fl \<noteq> []" and e: "present e"
  shows "\<exists>pte t s'. pgdir_walk pgdir va True s = Inr (Some pte, t) \<and> kwrite pte e t = Inr ((), s') \<and>
    pages_inv s' (if PDX va \<in> pt_tables D (pmem s) pgdir then fl else tl fl) \<and>
    pt_wf D s' pgdir (if PDX va \<in> pt_tables D (pmem s) pgdir then fl else tl fl) \<and>
    pt_tables D (pmem s') pgdir = insert (PDX va) (pt_tables D (pmem s) pgdir) \<and>
    pt_view D (pmem s') pgdir = (pt_view D (pmem s) pgdir)(PGNUM va \<mapsto> e) \<and>
    mem_frame s s' \<and> tlb s' = tlb s \<and> (\<forall>i. i \<notin> set fl \<longrightarrow> pages s' ! i = pages s ! i) \<and>
    (\<forall>fr. fr \<notin> set fl \<union> insert pgdir (pt_frames D (pmem s) pgdir) \<longrightarrow> pmem s' fr = pmem s fr) \<and>
    pt_frames D (pmem s') pgdir \<subseteq> pt_frames D (pmem s) pgdir \<union> set fl"
proof -
  let ?p = "present (pmem s pgdir (PDX va))"
  have in_T: "PDX va \<in> pt_tables D (pmem s) pgdir \<longleftrightarrow> ?p" using va by (simp add: pt_tables_def)
  let ?fl = "if ?p then fl else tl fl"
  from walk_create [OF inv wf va mem [unfolded in_T]] obtain t where
    run: "pgdir_walk pgdir va True s = Inr (Some (PGNUM (pmem t pgdir (PDX va)), PTX va), t)"
    and t: "pages_inv t ?fl" "pt_wf D t pgdir ?fl" "present (pmem t pgdir (PDX va))"
      "pt_tables D (pmem t) pgdir = insert (PDX va) (pt_tables D (pmem s) pgdir)"
      "pt_view D (pmem t) pgdir = pt_view D (pmem s) pgdir" "mem_frame s t" "tlb t = tlb s"
      "\<forall>i. i \<notin> set fl \<longrightarrow> pages t ! i = pages s ! i"
      "\<forall>fr. fr \<notin> set fl \<longrightarrow> fr \<noteq> pgdir \<longrightarrow> pmem t fr = pmem s fr"
      "pt_frames D (pmem t) pgdir \<subseteq> pt_frames D (pmem s) pgdir \<union> set fl" by blast
  let ?m = "set_entry pgdir va e (pmem t)"
  have dir: "?m pgdir = pmem t pgdir"
    by (rule set_entry_pgdir) (rule pt_wf_table(2) [OF t(2) va t(3)])
  have fr: "pt_tables D ?m pgdir = pt_tables D (pmem t) pgdir"
    "pt_frames D ?m pgdir = pt_frames D (pmem t) pgdir"
    by (simp_all add: pt_tables_def pt_frames_def dir)
  have "PGNUM (pmem t pgdir (PDX va)) \<in> pt_frames D (pmem t) pgdir"
    using va t(3) by (auto simp: pt_frames_def pt_tables_def)
  with t(10) have "PGNUM (pmem t pgdir (PDX va)) \<in> pt_frames D (pmem s) pgdir \<union> set fl" by blast
  then have pm: "\<forall>fr. fr \<notin> set fl \<union> insert pgdir (pt_frames D (pmem s) pgdir) \<longrightarrow> ?m fr = pmem s fr"
    using t(9) by (auto simp: set_entry_def Let_def)
  have view: "pt_view D ?m pgdir = (pt_view D (pmem s) pgdir)(PGNUM va \<mapsto> e)"
    using pt_view_set_entry [OF t(2) va t(3), of e] t(5) e by simp
  have wf': "pt_wf D (t\<lparr>pmem := ?m\<rparr>) pgdir ?fl" by (rule pt_wf_set_entry [OF t(2) va t(3)])
  have "mem_frame s (t\<lparr>pmem := ?m\<rparr>)" using t(6) by (blast intro: mem_frame_trans mem_frame_updates)
  with run t wf' view pm fr show ?thesis
    unfolding in_T
    by (intro exI [of _ "(PGNUM (pmem t pgdir (PDX va)), PTX va)"] exI [of _ t]
        exI [of _ "t\<lparr>pmem := ?m\<rparr>"] conjI) (simp_all add: kwrite_entry del: if_split)
qed

text \<open>
  Adding the tables \<open>R\<close> to a directory: one frame is taken from the free list for each that was
  missing; nothing outside the taken frames, the directory and its tables is written.
\<close>

definition pt_extend :: "nat set \<Rightarrow> nat \<Rightarrow> 'a kmem_scheme \<Rightarrow> nat list \<Rightarrow> nat set \<Rightarrow> 'a kmem_scheme \<Rightarrow> bool" where
  "pt_extend D pgdir s fl R t \<longleftrightarrow>
     pages_inv t (drop (card (R - pt_tables D (pmem s) pgdir)) fl) \<and>
     pt_wf D t pgdir (drop (card (R - pt_tables D (pmem s) pgdir)) fl) \<and>
     pt_tables D (pmem t) pgdir = pt_tables D (pmem s) pgdir \<union> R \<and>
     mem_frame s t \<and> tlb t = tlb s \<and>
     (\<forall>i. i \<notin> set fl \<longrightarrow> pages t ! i = pages s ! i) \<and>
     (\<forall>fr. fr \<notin> set fl \<union> insert pgdir (pt_frames D (pmem s) pgdir) \<longrightarrow> pmem t fr = pmem s fr) \<and>
     pt_frames D (pmem t) pgdir \<subseteq> pt_frames D (pmem s) pgdir \<union> set fl"

lemma pt_extend_refl: "pages_inv s fl \<Longrightarrow> pt_wf D s pgdir fl \<Longrightarrow> pt_extend D pgdir s fl {} s"
  by (simp add: pt_extend_def)

lemma card_missing_Un:
  assumes "finite R" "finite R'"
  shows "card (R - T) + card (R' - (T \<union> R)) = card ((R \<union> R') - T)"
proof -
  have "(R \<union> R') - T = (R - T) \<union> (R' - (T \<union> R))" by blast
  moreover have "(R - T) \<inter> (R' - (T \<union> R)) = {}" by blast
  ultimately show ?thesis using assms by (simp add: card_Un_disjoint)
qed

lemma pt_extend_trans:
  assumes st: "pt_extend D pgdir s fl R t" and "finite R" "finite R'"
    and tu: "pt_extend D pgdir t (drop (card (R - pt_tables D (pmem s) pgdir)) fl) R' u"
  shows "pt_extend D pgdir s fl (R \<union> R') u"
proof -
  let ?T = "pt_tables D (pmem s) pgdir"
  have T: "pt_tables D (pmem t) pgdir = ?T \<union> R" using st by (simp add: pt_extend_def)
  have k: "drop (card (R' - pt_tables D (pmem t) pgdir)) (drop (card (R - ?T)) fl) =
    drop (card ((R \<union> R') - ?T)) fl"
    using card_missing_Un [OF assms(2,3), of ?T] by (simp add: T add.commute)
  have sub: "set (drop n fl) \<subseteq> set fl" for n by (rule set_drop_subset)
  show ?thesis
    unfolding pt_extend_def
  proof (intro conjI)
    show "mem_frame s u" using st tu unfolding pt_extend_def by (blast intro: mem_frame_trans)
    show "pt_tables D (pmem u) pgdir = ?T \<union> (R \<union> R')"
      using tu T unfolding pt_extend_def by auto
    show "\<forall>i. i \<notin> set fl \<longrightarrow> pages u ! i = pages s ! i"
      using st tu sub unfolding pt_extend_def by (metis subsetD)
    show "pt_frames D (pmem u) pgdir \<subseteq> pt_frames D (pmem s) pgdir \<union> set fl"
      using st tu sub unfolding pt_extend_def by blast
    show "\<forall>fr. fr \<notin> set fl \<union> insert pgdir (pt_frames D (pmem s) pgdir) \<longrightarrow> pmem u fr = pmem s fr"
    proof (intro allI impI)
      fix fr
      assume fr: "fr \<notin> set fl \<union> insert pgdir (pt_frames D (pmem s) pgdir)"
      then have "pmem t fr = pmem s fr" using st by (simp add: pt_extend_def)
      moreover have "fr \<notin> set (drop (card (R - ?T)) fl) \<union> insert pgdir (pt_frames D (pmem t) pgdir)"
        using st fr sub unfolding pt_extend_def by blast
      then have "pmem u fr = pmem t fr" using tu unfolding pt_extend_def by blast
      ultimately show "pmem u fr = pmem s fr" by simp
    qed
  qed (use st tu k in \<open>simp_all add: pt_extend_def\<close>)
qed

lemma map_page_extend:
  assumes inv: "pages_inv s fl" and wf: "pt_wf D s pgdir fl" and va: "PDX va \<in> D"
    and mem: "card ({PDX va} - pt_tables D (pmem s) pgdir) \<le> length fl" and e: "present e"
  shows "\<exists>pte t s'. pgdir_walk pgdir va True s = Inr (Some pte, t) \<and> kwrite pte e t = Inr ((), s') \<and>
    pt_extend D pgdir s fl {PDX va} s' \<and>
    pt_view D (pmem s') pgdir = (pt_view D (pmem s) pgdir)(PGNUM va \<mapsto> e)"
proof -
  let ?T = "pt_tables D (pmem s) pgdir"
  have c: "drop (card ({PDX va} - ?T)) fl = (if PDX va \<in> ?T then fl else tl fl)"
    by (simp add: drop_Suc insert_Diff_if)
  have "PDX va \<in> ?T \<or> fl \<noteq> []" using mem by (auto simp: insert_Diff_if)
  from map_page [OF inv wf va this e] show ?thesis
    unfolding pt_extend_def c by (elim exE conjE, intro exI conjI) (simp_all only: Un_insert_right Un_empty_right)
qed

lemma boot_map_region_ok:
  assumes "pages_inv s fl" and "pt_wf D s pgdir fl" and "unat sz div 4096 = n"
    and "PGNUM va + n \<le> 1048576" and "range_tables (PGNUM va) n \<subseteq> D"
    and "card (range_tables (PGNUM va) n - pt_tables D (pmem s) pgdir) \<le> length fl"
  shows "\<exists>s'. boot_map_region pgdir va sz pa perm s = Inr ((), s') \<and>
    pt_extend D pgdir s fl (range_tables (PGNUM va) n) s' \<and>
    pt_view D (pmem s') pgdir =
      map_range (pt_view D (pmem s) pgdir) (PGNUM va) n (region_entry pa perm)"
  using assms
proof (induction n arbitrary: s fl va sz pa)
  case 0
  then have "\<not> PGSIZE \<le> sz" by (simp add: PGSIZE_def word_le_nat_alt)
  then have "boot_map_region pgdir va sz pa perm s = Inr ((), s)"
    by (simp add: boot_map_region.simps)
  with 0 show ?case by (auto intro: pt_extend_refl)
next
  case (Suc n)
  let ?v = "PGNUM va"
  let ?R = "range_tables (Suc ?v) n" and ?T = "pt_tables D (pmem s) pgdir"
  let ?e = "pa OR perm OR PTE_P"
  have R: "range_tables ?v (Suc n) = {PDX va} \<union> ?R" by (simp add: range_tables_Suc PDX_PGNUM)
  have va: "PDX va \<in> D" using Suc.prems(5) R by auto
  have cards: "card ({PDX va} - ?T) + card (?R - (?T \<union> {PDX va})) \<le> length fl"
    using Suc.prems(6) unfolding R by (simp only: card_missing_Un finite_range_tables finite.intros)
  from map_page_extend [OF Suc.prems(1,2) va, of ?e] cards obtain pte t u where
    run: "pgdir_walk pgdir va True s = Inr (Some pte, t)" "kwrite pte ?e t = Inr ((), u)"
    and u: "pt_extend D pgdir s fl {PDX va} u"
      "pt_view D (pmem u) pgdir = (pt_view D (pmem s) pgdir)(?v \<mapsto> ?e)"
    by auto
  let ?fl = "drop (card ({PDX va} - ?T)) fl"
  note nx = next_range [OF Suc.prems(4)] and sz = sub_page [OF Suc.prems(3)]
  have prems: "pages_inv u ?fl" "pt_wf D u pgdir ?fl"
    "card (range_tables (PGNUM (va + PGSIZE)) n - pt_tables D (pmem u) pgdir) \<le> length ?fl"
    "range_tables (PGNUM (va + PGSIZE)) n \<subseteq> D"
    using u(1) cards Suc.prems(5) R unfolding pt_extend_def nx(2) by auto
  from Suc.IH [OF prems(1,2) sz(2) nx(3) prems(4,3), of "pa + PGSIZE"] obtain s' where
    s': "boot_map_region pgdir (va + PGSIZE) (sz - PGSIZE) (pa + PGSIZE) perm u = Inr ((), s')"
      "pt_extend D pgdir u ?fl ?R s'"
      "pt_view D (pmem s') pgdir = map_range (pt_view D (pmem u) pgdir) (Suc ?v) n
         (region_entry (pa + PGSIZE) perm)"
    unfolding nx by blast
  have "boot_map_region pgdir va sz pa perm s = Inr ((), s')"
    using sz(1) run s'(1) by (subst boot_map_region.simps) (simp add: kbind_apply)
  moreover have "pt_extend D pgdir s fl (range_tables ?v (Suc n)) s'"
    unfolding R by (rule pt_extend_trans [OF u(1) _ _ s'(2)]) simp_all
  moreover have "region_entry (pa + PGSIZE) perm = (\<lambda>k. region_entry pa perm (Suc k))"
    and "?e = region_entry pa perm 0"
    by (simp_all add: region_entry_Suc fun_eq_iff) (simp add: region_entry_def)
  then have "pt_view D (pmem s') pgdir =
      map_range (pt_view D (pmem s) pgdir) ?v (Suc n) (region_entry pa perm)"
    unfolding s'(3) u(2) by (simp only: map_range_Suc)
  ultimately show ?case by blast
qed

section \<open>Several regions\<close>

type_synonym region = "u32 \<times> u32 \<times> u32 \<times> u32"

definition map_region :: "nat \<Rightarrow> region \<Rightarrow> ('a kmem_scheme, unit) kfun" where
  "map_region pgdir = (\<lambda>(va, sz, pa, perm). boot_map_region pgdir va sz pa perm)"

definition region_pages :: "region \<Rightarrow> nat" where
  "region_pages = (\<lambda>(va, sz, pa, perm). unat sz div 4096)"

definition region_tables :: "region \<Rightarrow> nat set" where
  "region_tables r = range_tables (PGNUM (fst r)) (region_pages r)"

definition add_region :: "(nat \<Rightarrow> u32 option) \<Rightarrow> region \<Rightarrow> nat \<Rightarrow> u32 option" where
  "add_region f = (\<lambda>(va, sz, pa, perm).
     map_range f (PGNUM va) (unat sz div 4096) (region_entry pa perm))"

definition region_ok :: "nat set \<Rightarrow> region \<Rightarrow> bool" where
  "region_ok D r \<longleftrightarrow> PGNUM (fst r) + region_pages r \<le> 1048576 \<and> region_tables r \<subseteq> D"

lemma finite_region_tables [simp]: "finite (region_tables r)"
  by (simp add: region_tables_def)

lemma map_region_ok:
  assumes "pages_inv s fl" and "pt_wf D s pgdir fl" and "region_ok D r"
    and "card (region_tables r - pt_tables D (pmem s) pgdir) \<le> length fl"
  shows "\<exists>s'. map_region pgdir r s = Inr ((), s') \<and> pt_extend D pgdir s fl (region_tables r) s' \<and>
    pt_view D (pmem s') pgdir = add_region (pt_view D (pmem s) pgdir) r"
proof -
  obtain va sz pa perm where r: "r = (va, sz, pa, perm)" by (cases r)
  show ?thesis
    using boot_map_region_ok [OF assms(1,2) refl, where va = va and sz = sz and pa = pa and perm = perm]
      assms(3,4)
    by (simp add: r map_region_def region_tables_def region_pages_def add_region_def region_ok_def)
qed

lemma map_regions_ok:
  assumes "pages_inv s fl" and "pt_wf D s pgdir fl" and "\<forall>r \<in> set rs. region_ok D r"
    and "card (\<Union> (region_tables ` set rs) - pt_tables D (pmem s) pgdir) \<le> length fl"
  shows "\<exists>s'. kfor rs (map_region pgdir) s = Inr ((), s') \<and>
    pt_extend D pgdir s fl (\<Union> (region_tables ` set rs)) s' \<and>
    pt_view D (pmem s') pgdir = foldl add_region (pt_view D (pmem s) pgdir) rs"
  using assms
proof (induction rs arbitrary: s fl)
  case Nil
  then show ?case by (simp add: pt_extend_refl)
next
  case (Cons r rs)
  let ?T = "pt_tables D (pmem s) pgdir" and ?R = "\<Union> (region_tables ` set rs)"
  have fin: "finite ?R" by simp
  have cards: "card (region_tables r - ?T) + card (?R - (?T \<union> region_tables r)) \<le> length fl"
    using Cons.prems(4) card_missing_Un [OF finite_region_tables fin, of r ?T] by simp
  from map_region_ok [OF Cons.prems(1,2), of r] Cons.prems(3) cards obtain t where
    t: "map_region pgdir r s = Inr ((), t)" "pt_extend D pgdir s fl (region_tables r) t"
      "pt_view D (pmem t) pgdir = add_region (pt_view D (pmem s) pgdir) r" by auto
  let ?fl = "drop (card (region_tables r - ?T)) fl"
  have "pages_inv t ?fl" "pt_wf D t pgdir ?fl" "card (?R - pt_tables D (pmem t) pgdir) \<le> length ?fl"
    using t(2) cards by (auto simp: pt_extend_def)
  with Cons.IH [of t ?fl] Cons.prems(3) obtain u where
    u: "kfor rs (map_region pgdir) t = Inr ((), u)" "pt_extend D pgdir t ?fl ?R u"
      "pt_view D (pmem u) pgdir = foldl add_region (pt_view D (pmem t) pgdir) rs" by auto
  have "pt_extend D pgdir s fl (region_tables r \<union> ?R) u"
    by (rule pt_extend_trans [OF t(2) _ fin u(2)]) simp
  then show ?case using t(1,3) u(1,3) by (simp add: kbind_apply)
qed

section \<open>The kernel's part of an address space\<close>

text \<open>The regions \<^verbatim>\<open>setupkvm\<close> maps, in the order it maps them.\<close>

definition kstack_region :: "'a kmem_scheme \<Rightarrow> nat \<Rightarrow> region" where
  "kstack_region s i =
     (KSTACKTOP - of_nat i * (KSTKSIZE + KSTKGAP) - KSTKSIZE, KSTKSIZE,
      percpu_kstacks s i - KERNBASE, PTE_W)"

definition kern_regions :: "'a kmem_scheme \<Rightarrow> region list" where
  "kern_regions s =
     [(UPAGES, ROUNDUP (sizeof_PageInfo * of_nat (npages s)) PGSIZE, pages_va s - KERNBASE, PTE_U),
      (KERNBASE, kern_window_size, 0, PTE_W),
      (IOPHYSMEM, ROUNDUP (EXTPHYSMEM - IOPHYSMEM) PGSIZE, IOPHYSMEM, PTE_W)] @
     map (kstack_region s) [0..<NCPU] @
     [(lapic s, ROUNDUP 4096 PGSIZE, lapicaddr s, PTE_W OR PTE_PCD OR PTE_PWT)]"

lemma kern_regions_frame: "mem_frame s t \<Longrightarrow> kern_regions t = kern_regions s"
  by (simp add: kern_regions_def kstack_region_def mem_frame_def)

text \<open>The kernel's tables and stacks lie in the kernel's window, its devices in their region.\<close>

definition kern_ok :: "'a kmem_scheme \<Rightarrow> bool" where
  "kern_ok s \<longleftrightarrow> KERNBASE \<le> pages_va s \<and> (\<forall>i < NCPU. KERNBASE \<le> percpu_kstacks s i) \<and>
     PGNUM MMIOBASE \<le> PGNUM (lapic s) \<and> PGNUM (lapic s) < PGNUM MMIOLIM"

lemma PADDR_ok [simp]: "KERNBASE \<le> kva \<Longrightarrow> PADDR kva s = Inr (kva - KERNBASE, s)"
  by (simp add: PADDR_def lift_sum_def paddr_def)

lemma map_kstack_region:
  "KERNBASE \<le> percpu_kstacks s i \<Longrightarrow> map_kstack pgdir i s = map_region pgdir (kstack_region s i) s"
  by (simp add: map_kstack_def map_region_def kstack_region_def kbind_apply)

text \<open>Operations that leave alone what \<open>mem_frame\<close> lists, whatever state they start from.\<close>

definition kframe :: "('a kmem_scheme, 'b) kfun \<Rightarrow> bool" where
  "kframe m \<longleftrightarrow> (\<forall>s x t. m s = Inr (x, t) \<longrightarrow> mem_frame s t)"

lemma kframe_return: "kframe (kreturn x)" "kframe (kfail e)" "kframe (kgets f)"
  by (simp_all add: kframe_def)

lemma kframe_bind: "kframe m \<Longrightarrow> (\<And>x. kframe (f x)) \<Longrightarrow> kframe (kbind m f)"
  unfolding kframe_def by (blast elim!: kbind_InrE intro: mem_frame_trans)

lemma kframe_when: "kframe m \<Longrightarrow> kframe (kwhen b m)"
  by (simp add: kframe_def kwhen_apply)

lemma kframe_if: "(b \<Longrightarrow> kframe m) \<Longrightarrow> (\<not> b \<Longrightarrow> kframe m') \<Longrightarrow> kframe (if b then m else m')"
  by simp

lemma kframe_option: "kframe m \<Longrightarrow> (\<And>x. kframe (f x)) \<Longrightarrow> kframe (case r of None \<Rightarrow> m | Some x \<Rightarrow> f x)"
  by (cases r) simp_all

lemma kframe_modify: "(\<And>s. mem_frame s (f s)) \<Longrightarrow> kframe (kmodify f)"
  by (simp add: kframe_def)

lemma kframe_lift_sum: "kframe (lift_sum f)"
  by (auto simp: kframe_def lift_sum_def split: sum.splits)

lemma kframe_pp: "kframe (get_pp pp)" "kframe (set_pp pp f)"
  by (auto simp: kframe_def get_pp_def set_pp_def split: if_splits)

lemma kframe_locks: "kframe lock_free_list" "kframe unlock_free_list"
  by (auto simp: kframe_def lock_free_list_def unlock_free_list_def acquire_def release_def
      split: sum.splits)

lemmas kframe_intros = kframe_return kframe_bind kframe_when kframe_if kframe_option
  kframe_lift_sum kframe_pp kframe_locks

lemma kframe_addr: "kframe (PADDR kva)" "kframe (KADDR_frame pa)" "kframe (page2kva pp)"
  unfolding PADDR_def KADDR_frame_def KADDR_def page2kva_def by (intro kframe_intros)+

lemma kframe_kwrite: "kframe (kread p)" "kframe (kwrite p v)" "kframe (memset_page fr c)"
  unfolding kread_def kwrite_def memset_page_def by (intro kframe_intros kframe_modify mem_frame_updates)+

lemma kframe_page_alloc: "kframe (page_alloc flags)"
  unfolding page_alloc_def
  by (intro kframe_intros kframe_addr kframe_kwrite kframe_modify) (simp_all add: mem_frame_def)

lemma kframe_pgdir_walk: "kframe (pgdir_walk pgdir va create)"
  unfolding pgdir_walk_def by (intro kframe_intros kframe_addr kframe_kwrite kframe_page_alloc)

lemma kframe_boot_map_region: "kframe (boot_map_region pgdir va sz pa perm)"
proof (induction pgdir va sz pa perm rule: boot_map_region.induct)
  case (1 pgdir va sz pa perm)
  then show ?case
    by (subst boot_map_region.simps) (intro kframe_intros kframe_kwrite kframe_pgdir_walk)
qed

lemma map_region_frame: "map_region pgdir r s = Inr (x, t) \<Longrightarrow> mem_frame s t"
  using kframe_boot_map_region by (cases r) (force simp: map_region_def kframe_def)

lemma map_kstacks:
  assumes "\<forall>i \<in> set is. KERNBASE \<le> percpu_kstacks s i"
  shows "kfor is (map_kstack pgdir) s = kfor (map (kstack_region s) is) (map_region pgdir) s"
  using assms
proof (induction "is" arbitrary: s)
  case (Cons i "is")
  show ?case
  proof (cases "map_region pgdir (kstack_region s i) s")
    case (Inr r)
    then obtain t where t: "map_region pgdir (kstack_region s i) s = Inr ((), t)" by (cases r) auto
    then have "mem_frame s t" by (rule map_region_frame)
    then have "kstack_region t = kstack_region s" "percpu_kstacks t = percpu_kstacks s"
      by (auto simp: kstack_region_def mem_frame_def)
    with t Cons show ?thesis by (simp add: kbind_apply map_kstack_region)
  qed (use Cons.prems in \<open>simp add: kbind_apply map_kstack_region\<close>)
qed simp

text \<open>
  The address space \<^verbatim>\<open>setupkvm\<close> promises: all of physical memory from \<^verbatim>\<open>KERNBASE\<close> on, the page
  structures readable by the user at \<^verbatim>\<open>UPAGES\<close>, the I/O hole at its own addresses, the local
  APIC, and a stack of eight pages for each processor with eight unmapped pages below it.
\<close>

definition kstack_view :: "'a kmem_scheme \<Rightarrow> nat \<Rightarrow> nat \<Rightarrow> u32 option" where
  "kstack_view s m v =
     (let d = 0xEFFFF - v in
      if v \<le> 0xEFFFF \<and> d < 16 * m \<and> d mod 16 < 8
      then Some (region_entry (percpu_kstacks s (d div 16) - KERNBASE) PTE_W (7 - d mod 16))
      else None)"

definition kern_view :: "'a kmem_scheme \<Rightarrow> nat \<Rightarrow> u32 option" where
  "kern_view s v =
     (if v = PGNUM (lapic s) then Some (region_entry (lapicaddr s) (PTE_W OR PTE_PCD OR PTE_PWT) 0)
      else if kstack_view s NCPU v \<noteq> None then kstack_view s NCPU v
      else if 0xA0 \<le> v \<and> v < 0x100 then Some (region_entry IOPHYSMEM PTE_W (v - 0xA0))
      else if 0xF0000 \<le> v \<and> v < 0x100000 then Some (region_entry 0 PTE_W (v - 0xF0000))
      else if 0xEF000 \<le> v \<and> v < 0xEF000 + (npages s * 8 + 4095) div 4096
      then Some (region_entry (pages_va s - KERNBASE) PTE_U (v - 0xEF000))
      else None)"

lemma range_tables_bound: "range_tables v n \<subseteq> {v div 1024..(v + n - 1) div 1024}"
  by (auto simp: range_tables_def intro!: div_le_mono)

lemma range_tables_one:
  assumes "v mod 1024 + n \<le> 1024"
  shows "range_tables v n \<subseteq> {v div 1024}"
proof -
  have "k div 1024 = v div 1024" if "v \<le> k" "k < v + n" for k
  proof -
    have "k = (v mod 1024 + (k - v)) + v div 1024 * 1024" "v mod 1024 + (k - v) < 1024"
      using that assms div_mult_mod_eq [of v 1024] by linarith+
    then have "k div 1024 = (v mod 1024 + (k - v)) div 1024 + v div 1024"
      by (metis div_mult_self1 zero_neq_numeral add.commute)
    with \<open>_ < 1024\<close> show ?thesis by simp
  qed
  then show ?thesis
    unfolding range_tables_def image_subset_iff Ball_def atLeastLessThan_iff singleton_iff by blast
qed

lemma kstack_base:
  assumes "i < 8"
  shows "PGNUM (KSTACKTOP - of_nat i * (KSTKSIZE + KSTKGAP) - KSTKSIZE) = 0xEFFF8 - 16 * i"
proof -
  have "i \<in> {0, 1, 2, 3, 4, 5, 6, 7}" using assms by auto
  then show ?thesis
    by (auto simp: PGNUM_div KSTACKTOP_def KERNBASE_def KSTKSIZE_def KSTKGAP_def PGSIZE_def)
qed

lemma kstack_add:
  assumes "i < 8"
  shows "add_region f (kstack_region s i) v =
    (if 0xEFFF8 - 16 * i \<le> v \<and> v < 0xEFFF8 - 16 * i + 8
     then Some (region_entry (percpu_kstacks s i - KERNBASE) PTE_W (v - (0xEFFF8 - 16 * i))) else f v)"
proof -
  have "unat KSTKSIZE div 4096 = 8" by (simp add: KSTKSIZE_def PGSIZE_def)
  then show ?thesis
    using kstack_base [OF assms] by (simp add: add_region_def kstack_region_def map_range_def)
qed

lemma slot16: "16 * i \<le> d \<and> d < 16 * i + 8 \<longleftrightarrow> d div 16 = i \<and> d mod 16 < 8" for d :: nat
proof
  assume "16 * i \<le> d \<and> d < 16 * i + 8"
  then obtain r where "d = 16 * i + r" "r < 8" using le_iff_add by auto
  then show "d div 16 = i \<and> d mod 16 < 8" by simp
next
  assume "d div 16 = i \<and> d mod 16 < 8"
  then show "16 * i \<le> d \<and> d < 16 * i + 8" using div_mult_mod_eq [of d 16] by auto
qed

lemma kstack_slot:
  assumes "i < 8" and "v \<le> (0xEFFFF :: nat)"
  shows "0xEFFF8 - 16 * i \<le> v \<and> v < 0xEFFF8 - 16 * i + 8 \<longleftrightarrow>
      (0xEFFFF - v) div 16 = i \<and> (0xEFFFF - v) mod 16 < 8"
    and "(0xEFFFF - v) div 16 = i \<Longrightarrow> (0xEFFFF - v) mod 16 < 8 \<Longrightarrow>
      v - (0xEFFF8 - 16 * i) = 7 - (0xEFFFF - v) mod 16"
proof -
  obtain d where d: "v = 0xEFFFF - d" "d \<le> 0xEFFFF" "0xEFFFF - v = d"
    using assms(2) by (metis diff_diff_cancel diff_le_self)
  have split: "d = 16 * (d div 16) + d mod 16" by simp
  show "0xEFFF8 - 16 * i \<le> v \<and> v < 0xEFFF8 - 16 * i + 8 \<longleftrightarrow>
      (0xEFFFF - v) div 16 = i \<and> (0xEFFFF - v) mod 16 < 8"
  proof -
    have "0xEFFF8 - 16 * i \<le> v \<and> v < 0xEFFF8 - 16 * i + 8 \<longleftrightarrow> 16 * i \<le> d \<and> d < 16 * i + 8"
      using d(1,2) assms(1) by auto
    also have "\<dots> \<longleftrightarrow> d div 16 = i \<and> d mod 16 < 8" by (rule slot16)
    finally show ?thesis unfolding d(3) .
  qed
  show "v - (0xEFFF8 - 16 * i) = 7 - (0xEFFFF - v) mod 16"
    if "(0xEFFFF - v) div 16 = i" "(0xEFFFF - v) mod 16 < 8"
    using that split assms(1) d(1,2) unfolding d(3) by linarith
qed

lemma kstack_fold:
  "m \<le> 8 \<Longrightarrow> foldl add_region f (map (kstack_region s) [0..<m]) v =
    (if kstack_view s m v \<noteq> None then kstack_view s m v else f v)"
proof (induction m)
  case 0
  then show ?case by (simp add: kstack_view_def)
next
  case (Suc m)
  then have m: "m < 8" by simp
  let ?d = "0xEFFFF - v"
  show ?case
  proof (cases "v \<le> 0xEFFFF \<and> ?d div 16 = m \<and> ?d mod 16 < 8")
    case True
    then have "?d < 16 * Suc m"
      using div_mult_mod_eq [of ?d 16] by auto
    with True show ?thesis
      using kstack_slot [OF m, of v] by (simp add: kstack_add [OF m] kstack_view_def)
  next
    case False
    then have "\<not> (0xEFFF8 - 16 * m \<le> v \<and> v < 0xEFFF8 - 16 * m + 8)"
      using kstack_slot(1) [OF m, of v] m by (cases "v \<le> 0xEFFFF") auto
    moreover have "kstack_view s (Suc m) v = kstack_view s m v"
      using False unfolding kstack_view_def Let_def by (auto simp: div_nat_eqI)
    ultimately show ?thesis using Suc by (auto simp: kstack_add [OF m])
  qed
qed

lemma upages_pages:
  assumes "n \<le> 65536"
  shows "unat (ROUNDUP (sizeof_PageInfo * of_nat n) PGSIZE) div 4096 = (n * 8 + 4095) div 4096"
proof -
  have u: "unat (sizeof_PageInfo * of_nat n) = n * 8"
    using assms by (simp add: sizeof_PageInfo_def unat_word_ariths unat_of_nat_small)
  then have "unat (sizeof_PageInfo * of_nat n) + 4095 < 2 ^ 32" using assms by simp
  then have "unat (ROUNDUP (sizeof_PageInfo * of_nat n) PGSIZE) = (n * 8 + 4095) div 4096 * 4096"
    by (simp only: ROUNDUP_unat u)
  then show ?thesis by simp
qed

lemma region_consts:
  "PGNUM UPAGES = 0xEF000" "PGNUM KERNBASE = 0xF0000" "PGNUM IOPHYSMEM = 0xA0"
  "PGNUM MMIOBASE = 0xEF800" "PGNUM MMIOLIM = 0xEFC00"
  "unat kern_window_size div 4096 = 0x10000"
  "unat (ROUNDUP (EXTPHYSMEM - IOPHYSMEM) PGSIZE) div 4096 = 0x60"
  "unat (ROUNDUP 4096 PGSIZE) div 4096 = 1" "unat KSTKSIZE div 4096 = 8"
  by (simp_all add: PGNUM_div layout_defs kern_window_size_def ROUNDUP_unat [unfolded PGSIZE_def])

lemma add_region_apply:
  "add_region f (va, sz, pa, perm) v =
     (if PGNUM va \<le> v \<and> v < PGNUM va + unat sz div 4096
      then Some (region_entry pa perm (v - PGNUM va)) else f v)"
  by (simp add: add_region_def map_range_def)

lemma kern_regions_view:
  assumes "npages s \<le> 65536"
  shows "foldl add_region (\<lambda>_. None) (kern_regions s) = kern_view s"
proof
  fix v
  show "foldl add_region (\<lambda>_. None) (kern_regions s) v = kern_view s v"
    unfolding kern_regions_def NCPU_def foldl_append foldl.simps add_region_apply kern_view_def
      kstack_fold [OF order_refl] region_consts upages_pages [OF assms]
    by (auto simp: add_region_apply region_consts upages_pages [OF assms])
qed

lemma kern_region_cases:
  assumes "r \<in> set (kern_regions s)"
  obtains "r = (UPAGES, ROUNDUP (sizeof_PageInfo * of_nat (npages s)) PGSIZE, pages_va s - KERNBASE, PTE_U)"
  | "r = (KERNBASE, kern_window_size, 0, PTE_W)"
  | "r = (IOPHYSMEM, ROUNDUP (EXTPHYSMEM - IOPHYSMEM) PGSIZE, IOPHYSMEM, PTE_W)"
  | i where "i < 8" "r = kstack_region s i"
  | "r = (lapic s, ROUNDUP 4096 PGSIZE, lapicaddr s, PTE_W OR PTE_PCD OR PTE_PWT)"
  using assms by (auto simp: kern_regions_def NCPU_def)

lemma kern_region_tables:
  assumes n: "npages s \<le> 65536" and ok: "kern_ok s" and r: "r \<in> set (kern_regions s)"
  shows "region_tables r \<subseteq> {0, 0x3BC, 0x3BE, 0x3BF} \<union> {0x3C0..<0x400} \<and>
    PGNUM (fst r) + region_pages r \<le> 1048576"
  using r
proof (cases rule: kern_region_cases)
  case 1
  have "(npages s * 8 + 4095) div 4096 \<le> 128" using n by linarith
  with 1 range_tables_one [of "0xEF000" "(npages s * 8 + 4095) div 4096"] show ?thesis
    by (auto simp: region_tables_def region_pages_def region_consts upages_pages [OF n])
next
  case 2
  with range_tables_bound [of "0xF0000" "0x10000"] show ?thesis
    by (auto simp: region_tables_def region_pages_def region_consts)
next
  case 3
  with range_tables_one [of "0xA0" "0x60"] show ?thesis
    by (auto simp: region_tables_def region_pages_def region_consts)
next
  case (4 i)
  have d: "(0xEFFF8 - 16 * i) div 1024 = 0x3BF" using 4(1) by linarith
  then have "(0xEFFF8 - 16 * i) mod 1024 + 8 \<le> 1024"
    using div_mult_mod_eq [of "0xEFFF8 - 16 * i" 1024] 4(1) by linarith
  from 4 d range_tables_one [OF this] show ?thesis
    by (auto simp: region_tables_def region_pages_def region_consts kstack_region_def kstack_base)
next
  case 5
  have "0xEF800 \<le> PGNUM (lapic s)" "PGNUM (lapic s) < 0xEFC00"
    using ok by (auto simp: kern_ok_def region_consts)
  moreover from this have "PGNUM (lapic s) div 1024 = 0x3BE" by linarith
  moreover have "PGNUM (lapic s) mod 1024 + 1 \<le> 1024" by (simp add: Suc_le_eq)
  ultimately show ?thesis
    using 5 range_tables_one [of "PGNUM (lapic s)" 1]
    by (auto simp: region_tables_def region_pages_def region_consts)
qed

abbreviation all_tables :: "nat set" where "all_tables \<equiv> {..<1024}"

lemma kern_regions_cards:
  assumes "npages s \<le> 65536" and "kern_ok s"
  shows "card (\<Union> (region_tables ` set (kern_regions s)) - T) \<le> 68"
    and "\<forall>r \<in> set (kern_regions s). region_ok all_tables r"
proof -
  let ?B = "{0, 0x3BC, 0x3BE, 0x3BF} \<union> {0x3C0..<0x400} :: nat set"
  have sub: "region_tables r \<subseteq> ?B \<and> PGNUM (fst r) + region_pages r \<le> 1048576"
    if "r \<in> set (kern_regions s)" for r
    by (rule kern_region_tables [OF assms that])
  then have "\<Union> (region_tables ` set (kern_regions s)) - T \<subseteq> ?B" by blast
  then have "card (\<Union> (region_tables ` set (kern_regions s)) - T) \<le> card ?B"
    by (intro card_mono) simp_all
  also have "\<dots> \<le> card {0, 0x3BC, 0x3BE, 0x3BF :: nat} + card {0x3C0..<0x400 :: nat}"
    by (rule card_Un_le)
  also have "\<dots> = 68" by simp
  finally show "card (\<Union> (region_tables ` set (kern_regions s)) - T) \<le> 68" .
  have "?B \<subseteq> all_tables" by auto
  with sub show "\<forall>r \<in> set (kern_regions s). region_ok all_tables r"
    unfolding region_ok_def by blast
qed

lemma kern_view_frame: "mem_frame s t \<Longrightarrow> kern_view t = kern_view s"
  unfolding fun_eq_iff kern_view_def kstack_view_def by (simp only: mem_frame_D simp_thms)

text \<open>A cleared frame is a directory that maps nothing.\<close>

lemma empty_directory:
  assumes "pmem s pgdir = (\<lambda>_. 0)"
  shows "pt_tables D (pmem s) pgdir = {}" "pt_frames D (pmem s) pgdir = {}"
    "pt_view D (pmem s) pgdir = (\<lambda>_. None)"
  using assms by (auto simp: pt_tables_def pt_frames_def pt_view_def fun_eq_iff)

lemma empty_directory_wf:
  assumes "pmem s pgdir = (\<lambda>_. 0)" and "pgdir < npages s" and "pgdir \<notin> set fl" and "D \<subseteq> all_tables"
  shows "pt_wf D s pgdir fl"
  using assms(2-4) by (simp add: pt_wf_def empty_directory [OF assms(1)])

lemma map_kern_regions:
  assumes ok: "kern_ok s"
    and run: "kfor (kern_regions s) (map_region pgdir) s = Inr ((), t)"
  shows "kbind (PADDR (pages_va s)) (\<lambda>ppa.
     kbind (boot_map_region pgdir UPAGES (ROUNDUP (sizeof_PageInfo * of_nat (npages s)) PGSIZE) ppa PTE_U) (\<lambda>_.
     kbind (boot_map_region pgdir KERNBASE kern_window_size 0 PTE_W) (\<lambda>_.
     kbind (boot_map_region pgdir IOPHYSMEM (ROUNDUP (EXTPHYSMEM - IOPHYSMEM) PGSIZE)
              IOPHYSMEM PTE_W) (\<lambda>_.
     kbind (kfor [0..<NCPU] (map_kstack pgdir)) (\<lambda>_.
     kbind (kgets (\<lambda>s. (lapic s, lapicaddr s))) (\<lambda>(lva, lpa).
     kbind (boot_map_region pgdir lva (ROUNDUP 4096 PGSIZE) lpa
              (PTE_W OR PTE_PCD OR PTE_PWT)) (\<lambda>_.
     kreturn (Some pgdir)))))))) s = Inr (Some pgdir, t)"
proof -
  from run obtain a b c d where
    steps: "boot_map_region pgdir UPAGES (ROUNDUP (sizeof_PageInfo * of_nat (npages s)) PGSIZE)
        (pages_va s - KERNBASE) PTE_U s = Inr ((), a)"
      "boot_map_region pgdir KERNBASE kern_window_size 0 PTE_W a = Inr ((), b)"
      "boot_map_region pgdir IOPHYSMEM (ROUNDUP (EXTPHYSMEM - IOPHYSMEM) PGSIZE) IOPHYSMEM PTE_W b =
        Inr ((), c)"
      "kfor (map (kstack_region s) [0..<NCPU]) (map_region pgdir) c = Inr ((), d)"
      "boot_map_region pgdir (lapic s) (ROUNDUP 4096 PGSIZE) (lapicaddr s)
        (PTE_W OR PTE_PCD OR PTE_PWT) d = Inr ((), t)"
    by (auto simp: kern_regions_def kfor_append map_region_def kbind_eq_Inr)
  have frame: "mem_frame u v" if "boot_map_region pgdir va sz pa perm u = Inr ((), v)" for u v va sz pa perm
    using that kframe_boot_map_region unfolding kframe_def by blast
  have sc: "mem_frame s c" using steps(1-3) by (blast intro: frame mem_frame_trans)
  have "kfor xs (map_region pgdir) u = Inr ((), v) \<Longrightarrow> mem_frame u v" for xs u v
    by (induction xs arbitrary: u) (auto simp: kbind_eq_Inr dest: map_region_frame intro: mem_frame_trans)
  with steps(4) have "mem_frame c d" by blast
  with sc have sd: "mem_frame s d" by (rule mem_frame_trans)
  have "kstack_region c = kstack_region s" "percpu_kstacks c = percpu_kstacks s"
    using sc by (auto simp: mem_frame_def kstack_region_def)
  then have ks: "kfor [0..<NCPU] (map_kstack pgdir) c = Inr ((), d)"
    using map_kstacks [of "[0..<NCPU]" c pgdir] steps(4) ok by (simp add: kern_ok_def)
  have lap: "lapic d = lapic s" "lapicaddr d = lapicaddr s" using sd by (auto simp: mem_frame_def)
  have "KERNBASE \<le> pages_va s" using ok by (simp add: kern_ok_def)
  then show ?thesis
    using steps(1-3,5) ks lap by (simp add: kbind_apply)
qed

lemma setupkvm_ok:
  assumes inv: "pages_inv s (pg # fl)" and ok: "kern_ok s" and mem: "68 \<le> length fl"
  shows "\<exists>s' k. setupkvm s = Inr (Some pg, s') \<and> k \<le> 68 \<and> pages_inv s' (drop k fl) \<and>
    pt_wf all_tables s' pg (drop k fl) \<and> pt_view all_tables (pmem s') pg = kern_view s \<and>
    mem_frame s s' \<and> tlb s' = tlb s \<and>
    (\<forall>i. i \<notin> set (pg # fl) \<longrightarrow> pages s' ! i = pages s ! i \<and> pmem s' i = pmem s i) \<and>
    pp_refs s' pg = 0 \<and> pt_frames all_tables (pmem s') pg \<subseteq> set fl"
proof -
  from page_alloc_Some [OF inv, of ALLOC_ZERO] obtain l where
    al: "page_alloc ALLOC_ZERO s = Inr (Some pg, with_lock l (alloc_state ALLOC_ZERO pg s))"
    and l: "lock_free l" by blast
  let ?t = "with_lock l (alloc_state ALLOC_ZERO pg s)"
  have fr: "mem_frame s ?t" by simp
  have ti: "pages_inv ?t fl" using inv l by (rule pages_inv_alloc)
  have n: "npages s \<le> 65536" "pg < npages s" "pg \<notin> set fl" "length (pages s) = npages s"
    "pp_ref (pages s ! pg) = 0"
    using inv pages_inv_distinct [OF inv] by (auto simp: pages_inv_def)
  have zero: "pmem ?t pg = (\<lambda>_. 0)" by (simp add: ALLOC_ZERO_def)
  have twf: "pt_wf all_tables ?t pg fl" using n by (intro empty_directory_wf [OF zero]) simp_all
  have tok: "kern_ok ?t" "npages ?t \<le> 65536" using ok n by (simp_all add: kern_ok_def)
  let ?R = "\<Union> (region_tables ` set (kern_regions ?t))"
  let ?k = "card (?R - pt_tables all_tables (pmem ?t) pg)"
  have k: "?k \<le> 68" by (rule kern_regions_cards(1) [OF tok(2,1)])
  from map_regions_ok [OF ti twf kern_regions_cards(2) [OF tok(2,1)]] k mem obtain u where
    u: "kfor (kern_regions ?t) (map_region pg) ?t = Inr ((), u)"
      "pt_extend all_tables pg ?t fl ?R u"
      "pt_view all_tables (pmem u) pg = foldl add_region (pt_view all_tables (pmem ?t) pg) (kern_regions ?t)"
    using order_trans by blast
  have "setupkvm s = Inr (Some pg, u)"
    using al map_kern_regions [OF tok(1) u(1)] n(1,2) by (simp add: setupkvm_def kbind_apply)
  moreover have "pt_view all_tables (pmem u) pg = kern_view ?t"
    unfolding u(3) empty_directory(3) [OF zero] by (rule kern_regions_view [OF tok(2)])
  moreover have "kern_view ?t = kern_view s" using fr by (rule kern_view_frame)
  moreover have "mem_frame s u"
    using u(2) fr unfolding pt_extend_def by (blast intro: mem_frame_trans)
  moreover have "pages u ! i = pages s ! i \<and> pmem u i = pmem s i" if "i \<notin> set (pg # fl)" for i
    using that u(2) unfolding pt_extend_def empty_directory(2) [OF zero] by simp
  moreover have "pp_refs u pg = 0"
    using n u(2) unfolding pt_extend_def pp_refs_def by simp
  moreover have "pt_frames all_tables (pmem u) pg \<subseteq> set fl"
    using u(2) unfolding pt_extend_def empty_directory(2) [OF zero] by simp
  moreover have "pages_inv u (drop ?k fl)" "pt_wf all_tables u pg (drop ?k fl)" "tlb u = tlb s"
    using u(2) by (simp_all add: pt_extend_def)
  ultimately show ?thesis using k by (intro exI [of _ u] exI [of _ ?k]) simp
qed

lemma check_va2pa_view:
  assumes inv: "pages_inv s fl" and wf: "pt_wf D s pgdir fl" and va: "PDX va \<in> D"
  shows "check_va2pa pgdir va s =
    Inr (case pt_view D (pmem s) pgdir (PGNUM va) of None \<Rightarrow> NOT 0 | Some e \<Rightarrow> PTE_ADDR e, s)"
proof (cases "present (pmem s pgdir (PDX va))")
  case True
  then show ?thesis
    using pt_wf_table(1) [OF wf va True] pages_inv_n(1) [OF inv] va
    by (simp add: check_va2pa_def kread_def kbind_apply present_def KADDR_frame_entry pt_view_PGNUM)
next
  case False
  then show ?thesis
    by (simp add: check_va2pa_def kread_def kbind_apply present_def pt_view_PGNUM)
qed

section \<open>Properties\<close>

text \<open>
  C2. \<^verbatim>\<open>page_insert\<close> fails with \<^verbatim>\<open>-E_NO_MEM\<close>, changing no mapping and no reference count, exactly when
  the page table is missing and no page is free. Otherwise it returns 0, and afterwards \<open>va\<close>
  maps to \<open>pp\<close> with the given permissions, every other page number is mapped as before, \<open>pp\<close> has
  one reference more and the page mapped there before one less, unless it is \<open>pp\<close> itself.
\<close>

theorem page_insert_correct:
  assumes inv: "pages_inv s fl" and wf: "pt_wf D s pgdir fl" and va: "PDX va \<in> D"
    and pp: "pp < npages s" "pp \<notin> set fl"
    and old: "\<And>e. pt_view D (pmem s) pgdir (PGNUM va) = Some e \<Longrightarrow> PGNUM e \<noteq> pp \<Longrightarrow>
      user_page D s pgdir fl (PGNUM e) \<and> pte_slot s \<noteq> None"
  shows "if \<not> present (pmem s pgdir (PDX va)) \<and> fl = []
    then \<exists>s'. page_insert pgdir pp va perm s = Inr (- E_NO_MEM, s') \<and> pages_inv s' [] \<and>
      pmem s' = pmem s \<and> pp_refs s' = pp_refs s
    else \<exists>s' fl'. page_insert pgdir pp va perm s = Inr (0, s') \<and> pages_inv s' fl' \<and>
      pt_wf D s' pgdir fl' \<and>
      pt_view D (pmem s') pgdir =
        (pt_view D (pmem s) pgdir)(PGNUM va \<mapsto> page2pa pp OR perm OR PTE_P) \<and>
      (\<forall>i. i \<notin> set fl \<longrightarrow> pp_refs s' i =
        mapped_refs (pp_refs s) (pt_view D (pmem s) pgdir (PGNUM va)) pp i)"
proof (cases "pt_view D (pmem s) pgdir (PGNUM va)")
  case None
  show ?thesis
  proof (cases "present (pmem s pgdir (PDX va)) \<or> fl \<noteq> []")
    case True
    from page_insert_unmapped [OF inv wf va True pp None, of perm] True None show ?thesis
      by (auto simp: mapped_refs_def)
  next
    case False
    then have "\<not> present (pmem s pgdir (PDX va))" and fl: "fl = []" by auto
    from walk_no_memory [OF inv [unfolded fl] this(1)] obtain l where
      "pgdir_walk pgdir va True s = Inr (None, with_lock l s)" "lock_free l" by blast
    then show ?thesis
      using False inv
      by (auto simp: page_insert_def kbind_apply pages_inv_def pp_refs_def fun_eq_iff)
  qed
next
  case (Some e)
  note p = walk_view(2) [OF inv wf va Some]
  show ?thesis
  proof (cases "PGNUM e = pp")
    case True
    let ?e = "page2pa pp OR perm OR PTE_P"
    have "pt_view D (set_entry pgdir va ?e (pmem s)) pgdir = (pt_view D (pmem s) pgdir)(PGNUM va \<mapsto> ?e)"
      using pt_view_set_entry [OF wf va p, of ?e] by simp
    with page_insert_same [OF inv wf va pp(1) Some True, of perm] pt_wf_set_entry [OF wf va p, of ?e]
    show ?thesis using p inv Some True by (auto simp: mapped_refs_def)
  next
    case False
    from page_insert_other [OF inv wf va pp Some False] old [OF Some False] obtain s' where
      "page_insert pgdir pp va perm s = Inr (0, s')"
      "pages_inv s' (if pp_refs s (PGNUM e) = 1 then PGNUM e # fl else fl)"
      "pt_wf D s' pgdir (if pp_refs s (PGNUM e) = 1 then PGNUM e # fl else fl)"
      "pt_view D (pmem s') pgdir =
        (pt_view D (pmem s) pgdir)(PGNUM va \<mapsto> page2pa pp OR perm OR PTE_P)"
      "pp_refs s' = (pp_refs s)(PGNUM e := pp_refs s (PGNUM e) - 1, pp := pp_refs s pp + 1)"
      by blast
    with p False Some show ?thesis by (auto simp: mapped_refs_def simp del: if_split)
  qed
qed

text \<open>
  A machine for the examples: the directory in frame 8 has one table, in frame 2, which maps page
  number 2 to frame 6 for the user.
\<close>

definition pt_mem :: kmem where
  "pt_mem = small_mem\<lparr>
     pages := (pages small_mem)[6 := unused_page\<lparr>pp_ref := 1\<rparr>],
     pmem := (\<lambda>fr i. if fr = 8 \<and> i = 0 then page2pa 2 OR 7
                     else if fr = 2 \<and> i = 2 then page2pa 6 OR 7 else 0)\<rparr>"

lemma pt_mem_inv: "pages_inv pt_mem [3, 5, 4]"
  unfolding pages_inv_def
  by (simp add: pt_mem_def small_mem_def unused_page_def free_lock_def lock_free_def nth_list_update)

lemma pt_mem_tables: "pt_tables all_tables (pmem pt_mem) 8 = {0}"
  by (auto simp: pt_tables_def pt_mem_def present_def PTE_P_def page2pa_def PGSHIFT_def split: if_splits)

lemma pt_mem_frames: "pt_frames all_tables (pmem pt_mem) 8 = {2}"
proof -
  have "PGNUM (page2pa 2 OR 7) = 2" by simp
  then show ?thesis by (simp add: pt_frames_def pt_mem_tables) (simp add: pt_mem_def)
qed

lemma pt_mem_wf: "pt_wf all_tables pt_mem 8 [3, 5, 4]"
  unfolding pt_wf_def pt_mem_frames pt_mem_tables by (simp add: pt_mem_def small_mem_def)

lemma pt_mem_view: "pt_view all_tables (pmem pt_mem) 8 = [2 \<mapsto> page2pa 6 OR 7]"
proof
  fix v :: nat
  have e: "PGNUM (page2pa 2 OR 7) = 2" "present (page2pa 2 OR 7)" "present (page2pa 6 OR 7)"
    by (simp_all add: PGNUM_or PGNUM_div present_def PTE_P_def page2pa_def PGSHIFT_def)
  have "v = 2" if "v div 1024 = 0" "v mod 1024 = 2"
    using that div_mult_mod_eq [of v 1024] by simp
  then show "pt_view all_tables (pmem pt_mem) 8 v = [2 \<mapsto> page2pa 6 OR 7] v"
    using e by (auto simp: pt_view_def pt_mem_def)
qed

theorem page_insert_correct_witness:
  "(\<exists>s' fl'. page_insert 8 7 0x2000 PTE_U pt_mem = Inr (0, s') \<and> pages_inv s' fl' \<and>
     pt_view all_tables (pmem s') 8 2 = Some (page2pa 7 OR PTE_U OR PTE_P) \<and>
     pp_refs s' 7 = 1 \<and> pp_refs s' 6 = 0) \<and>
   (\<exists>s'. page_insert 0 0 0x2000 PTE_U (small_mem\<lparr>page_free_list := None, num_free_pages := 0,
       pages := replicate 9 unused_page, pmem := \<lambda>_ _. 0\<rparr>) = Inr (- E_NO_MEM, s'))"
proof
  have c: "PGNUM 0x2000 = 2" "PDX 0x2000 = 0" by (simp_all add: PGNUM_div PDX_div)
  have pgs: "PGNUM (page2pa 6 OR 7) = 6" by simp
  have old: "user_page all_tables pt_mem 8 [3, 5, 4] (PGNUM e) \<and> pte_slot pt_mem \<noteq> None"
    if "pt_view all_tables (pmem pt_mem) 8 (PGNUM 0x2000) = Some e" "PGNUM e \<noteq> 7" for e
    using that pgs by (simp add: pt_mem_view c user_page_def pt_mem_frames)
      (simp add: pt_mem_def small_mem_def)
  have p: "present (pmem pt_mem 8 (PDX 0x2000))" using pt_mem_tables c by (auto simp: pt_tables_def)
  have n: "PDX 0x2000 \<in> all_tables" "7 < npages pt_mem" "(7 :: nat) \<notin> set [3, 5, 4]"
    by (simp_all add: c pt_mem_def small_mem_def)
  from page_insert_correct [OF pt_mem_inv pt_mem_wf n old, of PTE_U] p obtain s' fl' where
    s': "page_insert 8 7 0x2000 PTE_U pt_mem = Inr (0, s')" "pages_inv s' fl'"
      "pt_view all_tables (pmem s') 8 =
        (pt_view all_tables (pmem pt_mem) 8)(PGNUM 0x2000 \<mapsto> page2pa 7 OR PTE_U OR PTE_P)"
      "\<forall>i. i \<notin> set [3, 5, 4] \<longrightarrow> pp_refs s' i = mapped_refs (pp_refs pt_mem)
        (pt_view all_tables (pmem pt_mem) 8 (PGNUM 0x2000)) 7 i"
    by auto
  have "pp_refs s' 7 = 1 \<and> pp_refs s' 6 = 0"
    using s'(4) pgs by (simp add: mapped_refs_def pt_mem_view c)
      (simp add: pp_refs_def pt_mem_def small_mem_def unused_page_def)
  with s'(1-3) show "\<exists>s' fl'. page_insert 8 7 0x2000 PTE_U pt_mem = Inr (0, s') \<and> pages_inv s' fl' \<and>
     pt_view all_tables (pmem s') 8 2 = Some (page2pa 7 OR PTE_U OR PTE_P) \<and>
     pp_refs s' 7 = 1 \<and> pp_refs s' 6 = 0"
    by (intro exI [of _ s'] exI [of _ fl']) (simp add: c)
  let ?s = "small_mem\<lparr>page_free_list := None, num_free_pages := 0,
       pages := replicate 9 unused_page, pmem := \<lambda>_ _. 0\<rparr>"
  have inv: "pages_inv ?s []"
    by (simp add: pages_inv_def small_mem_def free_lock_def lock_free_def unused_page_def)
  have wf: "pt_wf all_tables ?s 0 []" by (rule empty_directory_wf) (simp_all add: small_mem_def)
  have view: "pt_view all_tables (pmem ?s) 0 = (\<lambda>_. None)" by (rule empty_directory(3)) simp
  have n0: "0 < npages ?s" by (simp add: small_mem_def)
  have "(0 :: nat) \<notin> set []" by simp
  note ins = page_insert_correct [OF inv wf n(1) n0 this, of PTE_U]
  have "\<not> present (pmem ?s 0 (PDX 0x2000))" by simp
  with ins view show "\<exists>s'. page_insert 0 0 0x2000 PTE_U ?s = Inr (- E_NO_MEM, s')"
    by (simp only: option.simps simp_thms if_True) blast
qed

text \<open>
  C21. \<^verbatim>\<open>page_remove\<close> leaves an unmapped address alone. At a mapped one it removes that mapping and no
  other, flushes the address from the translation cache, and takes one reference from the page,
  which returns to the free list with its last reference.
\<close>

theorem page_remove_correct:
  assumes inv: "pages_inv s fl" and wf: "pt_wf D s pgdir fl" and va: "PDX va \<in> D"
    and old: "\<And>e. pt_view D (pmem s) pgdir (PGNUM va) = Some e \<Longrightarrow>
      user_page D s pgdir fl (PGNUM e) \<and> pte_slot s \<noteq> None"
  shows "\<exists>s' fl'. page_remove pgdir va s = Inr ((), s') \<and> pages_inv s' fl' \<and> pt_wf D s' pgdir fl' \<and>
    pt_view D (pmem s') pgdir = (pt_view D (pmem s) pgdir)(PGNUM va := None) \<and>
    (case pt_view D (pmem s) pgdir (PGNUM va) of
       None \<Rightarrow> s' = s \<and> fl' = fl
     | Some e \<Rightarrow> tlb s' (PGNUM va) = None \<and>
         pp_refs s' = (pp_refs s)(PGNUM e := pp_refs s (PGNUM e) - 1) \<and>
         fl' = (if pp_refs s (PGNUM e) = 1 then PGNUM e # fl else fl))"
proof (cases "pt_view D (pmem s) pgdir (PGNUM va)")
  case None
  then have "(pt_view D (pmem s) pgdir)(PGNUM va := None) = pt_view D (pmem s) pgdir" by auto
  with page_remove_None [OF inv wf va None] inv wf None show ?thesis
    by (intro exI [of _ s] exI [of _ fl]) simp
next
  case (Some e)
  from page_remove_Some [OF inv wf va Some] old [OF Some] obtain s' where
    "page_remove pgdir va s = Inr ((), s')"
    "pages_inv s' (if pp_refs s (PGNUM e) = 1 then PGNUM e # fl else fl)"
    "pt_wf D s' pgdir (if pp_refs s (PGNUM e) = 1 then PGNUM e # fl else fl)"
    "pt_view D (pmem s') pgdir = (pt_view D (pmem s) pgdir)(PGNUM va := None)"
    "tlb s' = (tlb s)(PGNUM va := None)"
    "pp_refs s' = (pp_refs s)(PGNUM e := pp_refs s (PGNUM e) - 1)" by blast
  with Some show ?thesis
    by (intro exI [of _ s'] exI [of _ "if pp_refs s (PGNUM e) = 1 then PGNUM e # fl else fl"])
      (simp del: if_split)
qed

lemma pt_mem_old:
  "pt_view all_tables (pmem pt_mem) 8 (PGNUM 0x2000) = Some e \<Longrightarrow>
    user_page all_tables pt_mem 8 [3, 5, 4] (PGNUM e) \<and> pte_slot pt_mem \<noteq> None"
proof -
  have "PGNUM 0x2000 = 2" "PGNUM (page2pa 6 OR 7) = 6" by (simp_all add: PGNUM_div [of "0x2000"])
  then show "pt_view all_tables (pmem pt_mem) 8 (PGNUM 0x2000) = Some e \<Longrightarrow> ?thesis"
    by (simp add: pt_mem_view user_page_def pt_mem_frames) (simp add: pt_mem_def small_mem_def)
qed

theorem page_remove_correct_witness:
  "\<exists>s'. page_remove 8 0x2000 pt_mem = Inr ((), s') \<and> pages_inv s' [6, 3, 5, 4] \<and>
    pt_view all_tables (pmem s') 8 2 = None \<and> pp_refs s' 6 = 0"
proof -
  have c: "PGNUM 0x2000 = 2" "PGNUM (page2pa 6 OR 7) = 6" by (simp_all add: PGNUM_div [of "0x2000"])
  have n: "PDX 0x2000 \<in> all_tables" by simp
  have r: "pp_refs pt_mem 6 = 1" by (simp add: pp_refs_def pt_mem_def small_mem_def)
  from page_remove_correct [OF pt_mem_inv pt_mem_wf n pt_mem_old] r c show ?thesis
    by (auto simp: pt_mem_view)
qed

text \<open>
  C29. \<^verbatim>\<open>page_lookup\<close> stores the entry's address only when the variable it is given already holds a
  non-null pointer. \<^verbatim>\<open>page_remove\<close> passes an uninitialised variable: when that happens to be null,
  removing a mapped page dereferences null, after the page has lost its reference.
\<close>

theorem page_remove_null_slot:
  assumes inv: "pages_inv s fl" and wf: "pt_wf D s pgdir fl" and va: "PDX va \<in> D"
    and e: "pt_view D (pmem s) pgdir (PGNUM va) = Some e"
    and pp: "user_page D s pgdir fl (PGNUM e)" and slot: "pte_slot s = None"
  shows "page_remove pgdir va s = Inl NullDeref"
proof -
  from pp have n: "PGNUM e < npages s" "PGNUM e \<notin> set fl" by (auto simp: user_page_def)
  from page_decref_ok [OF inv n] obtain t where "page_decref (PGNUM e) s = Inr ((), t)" by blast
  with page_lookup_Some [OF inv wf va e n(1), of None] slot show ?thesis
    by (simp add: page_remove_def kbind_apply)
qed

theorem page_remove_null_slot_witness:
  "page_remove 8 0x2000 (pt_mem\<lparr>pte_slot := None\<rparr>) = Inl NullDeref"
proof -
  let ?s = "pt_mem\<lparr>pte_slot := None\<rparr>"
  have "pages_inv ?s [3, 5, 4]" using pt_mem_inv by (simp add: pages_inv_def)
  moreover have "pt_wf all_tables ?s 8 [3, 5, 4]" using pt_mem_wf by (simp add: pt_wf_def)
  moreover have "pt_view all_tables (pmem ?s) 8 (PGNUM 0x2000) = Some (page2pa 6 OR 7)"
    by (simp add: pt_mem_view) (simp add: PGNUM_div)
  moreover from this have "user_page all_tables ?s 8 [3, 5, 4] (PGNUM (page2pa 6 OR 7))"
    using pt_mem_old [of "page2pa 6 OR 7"] by (simp add: user_page_def)
  ultimately show ?thesis
    by (intro page_remove_null_slot [of ?s "[3, 5, 4]" all_tables 8 "0x2000" "page2pa 6 OR 7"]) simp_all
qed

text \<open>
  C30. Inserting a page again where it is already mapped changes the entry's permissions but does
  not flush the translation cache, although the requirements above \<^verbatim>\<open>page_insert\<close> ask for it: a
  cached entry with the old permissions stays.
\<close>

theorem page_insert_stale_tlb:
  assumes inv: "pages_inv s fl" and wf: "pt_wf D s pgdir fl" and va: "PDX va \<in> D"
    and pp: "pp < npages s" and e: "pt_view D (pmem s) pgdir (PGNUM va) = Some e" "PGNUM e = pp"
    and cached: "tlb s (PGNUM va) = Some e"
  shows "\<exists>s'. page_insert pgdir pp va perm s = Inr (0, s') \<and>
    pt_view D (pmem s') pgdir (PGNUM va) = Some (page2pa pp OR perm OR PTE_P) \<and>
    tlb s' (PGNUM va) = Some e"
  using page_insert_same [OF inv wf va pp e, of perm] cached
    pt_view_set_entry [OF wf va walk_view(2) [OF inv wf va e(1)], of "page2pa pp OR perm OR PTE_P"]
  by simp

theorem page_insert_stale_tlb_witness:
  "\<exists>s'. page_insert 8 6 0x2000 0 (pt_mem\<lparr>tlb := [2 \<mapsto> page2pa 6 OR 7]\<rparr>) = Inr (0, s') \<and>
    pt_view all_tables (pmem s') 8 2 = Some (page2pa 6 OR 0 OR PTE_P) \<and>
    tlb s' 2 = Some (page2pa 6 OR 7)"
proof -
  let ?s = "pt_mem\<lparr>tlb := [2 \<mapsto> page2pa 6 OR 7]\<rparr>"
  have c: "PGNUM 0x2000 = 2" by (simp add: PGNUM_div)
  have "pages_inv ?s [3, 5, 4]" using pt_mem_inv by simp
  moreover have "pt_wf all_tables ?s 8 [3, 5, 4]" using pt_mem_wf by (simp add: pt_wf_def)
  moreover have "PDX 0x2000 \<in> all_tables" by simp
  moreover have "6 < npages ?s" by (simp add: pt_mem_def small_mem_def)
  moreover have "pt_view all_tables (pmem ?s) 8 (PGNUM 0x2000) = Some (page2pa 6 OR 7)"
    by (simp add: pt_mem_view c)
  moreover have "PGNUM (page2pa 6 OR 7) = 6" by simp
  moreover have "tlb ?s (PGNUM 0x2000) = Some (page2pa 6 OR 7)" by (simp add: c)
  ultimately have "\<exists>s'. page_insert 8 6 0x2000 0 ?s = Inr (0, s') \<and>
    pt_view all_tables (pmem s') 8 (PGNUM 0x2000) = Some (page2pa 6 OR 0 OR PTE_P) \<and>
    tlb s' (PGNUM 0x2000) = Some (page2pa 6 OR 7)"
    by (rule page_insert_stale_tlb)
  then show ?thesis by (simp only: c)
qed

text \<open>
  C20. \<^verbatim>\<open>boot_map_region\<close> maps exactly the whole pages of the region, each to its physical page with
  the given permissions, and no other page number changes; it needs one free page for each table
  the directory lacks there, and takes no more.
\<close>

theorem boot_map_region_correct:
  assumes "pages_inv s fl" and "pt_wf D s pgdir fl"
    and "PGNUM va + unat sz div 4096 \<le> 1048576"
    and "range_tables (PGNUM va) (unat sz div 4096) \<subseteq> D"
    and "card (range_tables (PGNUM va) (unat sz div 4096) - pt_tables D (pmem s) pgdir) = k"
    and "k \<le> length fl"
  shows "\<exists>s'. boot_map_region pgdir va sz pa perm s = Inr ((), s') \<and>
    pages_inv s' (drop k fl) \<and> pt_wf D s' pgdir (drop k fl) \<and>
    (\<forall>v. pt_view D (pmem s') pgdir v =
      (if PGNUM va \<le> v \<and> v < PGNUM va + unat sz div 4096
       then Some ((pa + of_nat (v - PGNUM va) * PGSIZE) OR perm OR PTE_P)
       else pt_view D (pmem s) pgdir v))"
proof -
  from assms(5,6) have "card (range_tables (PGNUM va) (unat sz div 4096) - pt_tables D (pmem s) pgdir) \<le> length fl"
    by simp
  from boot_map_region_ok [OF assms(1,2) refl assms(3,4) this, of pa perm] obtain s' where
    "boot_map_region pgdir va sz pa perm s = Inr ((), s')"
    "pt_extend D pgdir s fl (range_tables (PGNUM va) (unat sz div 4096)) s'"
    "pt_view D (pmem s') pgdir =
      map_range (pt_view D (pmem s) pgdir) (PGNUM va) (unat sz div 4096) (region_entry pa perm)"
    by blast
  then show ?thesis
    using assms(5) by (intro exI [of _ s']) (simp add: pt_extend_def map_range_def region_entry_def)
qed

theorem boot_map_region_correct_witness:
  "\<exists>s'. boot_map_region 8 0x3FF000 0x2000 0x5000 PTE_W pt_mem = Inr ((), s') \<and>
    pages_inv s' [5, 4] \<and>
    pt_view all_tables (pmem s') 8 0x400 = Some (0x6000 OR PTE_W OR PTE_P) \<and>
    pt_view all_tables (pmem s') 8 2 = Some (page2pa 6 OR 7)"
proof -
  have c: "PGNUM 0x3FF000 = 0x3FF" "unat (0x2000 :: u32) div 4096 = 2" by (simp_all add: PGNUM_div)
  have R: "range_tables 0x3FF 2 = {0, 1}"
    by (auto simp: numeral_2_eq_2 range_tables_Suc)
  have k: "card (range_tables (PGNUM 0x3FF000) (unat (0x2000 :: u32) div 4096) -
      pt_tables all_tables (pmem pt_mem) 8) = 1"
    unfolding c R pt_mem_tables by simp
  have "PGNUM 0x3FF000 + unat (0x2000 :: u32) div 4096 \<le> 1048576"
    "range_tables (PGNUM 0x3FF000) (unat (0x2000 :: u32) div 4096) \<subseteq> all_tables"
    unfolding c R by auto
  from boot_map_region_correct [OF pt_mem_inv pt_mem_wf this k, of "0x5000" PTE_W]
  obtain s' where s': "boot_map_region 8 0x3FF000 0x2000 0x5000 PTE_W pt_mem = Inr ((), s')"
    "pages_inv s' [5, 4]"
    "\<And>v. pt_view all_tables (pmem s') 8 v =
      (if PGNUM 0x3FF000 \<le> v \<and> v < PGNUM 0x3FF000 + unat (0x2000 :: u32) div 4096
       then Some ((0x5000 + of_nat (v - PGNUM 0x3FF000) * PGSIZE) OR PTE_W OR PTE_P)
       else pt_view all_tables (pmem pt_mem) 8 v)" by auto
  have "pt_view all_tables (pmem s') 8 0x400 = Some (0x6000 OR PTE_W OR PTE_P)"
    "pt_view all_tables (pmem s') 8 2 = Some (page2pa 6 OR 7)"
    unfolding s'(3) c pt_mem_view by (simp_all add: PGSIZE_def)
  with s'(1,2) show ?thesis by blast
qed

text \<open>
  C3. With 69 free pages \<^verbatim>\<open>setupkvm\<close> returns a new directory whose view is exactly the kernel's
  part of an address space (\<open>kern_view\<close>): physical memory at \<^verbatim>\<open>KERNBASE\<close> although its size is
  written \<^verbatim>\<open>(2^32)-KERNBASE\<close>, the page structures, the I/O hole, the stacks with their guard
  pages, and the local APIC. It changes no frame that was in use.
\<close>

theorem setupkvm_correct:
  assumes "pages_inv s (pg # fl)" and "kern_ok s" and "68 \<le> length fl"
  shows "\<exists>s' fl'. setupkvm s = Inr (Some pg, s') \<and> pages_inv s' fl' \<and> set fl' \<subseteq> set fl \<and>
    pt_wf all_tables s' pg fl' \<and> pt_view all_tables (pmem s') pg = kern_view s \<and>
    (\<forall>i. i \<notin> set (pg # fl) \<longrightarrow> pmem s' i = pmem s i)"
proof -
  from setupkvm_ok [OF assms] obtain s' k where
    "setupkvm s = Inr (Some pg, s')" "pages_inv s' (drop k fl)" "pt_wf all_tables s' pg (drop k fl)"
    "pt_view all_tables (pmem s') pg = kern_view s"
    "\<forall>i. i \<notin> set (pg # fl) \<longrightarrow> pages s' ! i = pages s ! i \<and> pmem s' i = pmem s i" by blast
  moreover have "set (drop k fl) \<subseteq> set fl" by (rule set_drop_subset)
  ultimately show ?thesis by blast
qed

text \<open>A machine of 80 frames, those from 8 on free.\<close>

definition kvm_mem :: kmem where
  "kvm_mem = small_mem\<lparr>npages := 80,
     pages := map (\<lambda>i. \<lparr>pp_link = if 8 \<le> i \<and> i < 79 then Some (Suc i) else None, pp_ref = 0\<rparr>) [0..<80],
     page_free_list := Some 8, num_free_pages := 72, pages_va := KERNBASE + 0x2000,
     lapic := MMIOBASE, lapicaddr := 0xFEE00000\<rparr>"

lemma pplist_upt:
  assumes "\<And>i. k \<le> i \<Longrightarrow> i < n \<Longrightarrow> pp_link (ps ! i) = (if Suc i < n then Some (Suc i) else None)"
    and "n \<le> length ps"
  shows "k < n \<Longrightarrow> pplist ps (Some k) [k..<n]"
  using assms
proof (induction "n - k" arbitrary: k)
  case (Suc d)
  show ?case
  proof (cases "Suc k < n")
    case True
    then have "pplist ps (Some (Suc k)) [Suc k..<n]"
      using Suc.hyps Suc.prems by (intro Suc.hyps(1)) auto
    with Suc.prems True show ?thesis by (simp add: upt_conv_Cons [of k])
  next
    case False
    with Suc.prems have "n = Suc k" by simp
    with Suc.prems show ?thesis by (simp add: upt_conv_Cons [of k])
  qed
qed simp

lemma kvm_mem_inv: "pages_inv kvm_mem [8..<80]"
proof -
  have len: "length (pages kvm_mem) = 80" by (simp add: kvm_mem_def)
  have link: "pages kvm_mem ! i = \<lparr>pp_link = if 8 \<le> i \<and> i < 79 then Some (Suc i) else None, pp_ref = 0\<rparr>"
    if "i < 80" for i
    using that by (simp add: kvm_mem_def del: upt_rec_numeral upt_Suc)
  have "pplist (pages kvm_mem) (Some 8) [8..<80]"
    by (rule pplist_upt) (simp_all add: link len)
  then show ?thesis
    unfolding pages_inv_def using link len
    by (simp add: kvm_mem_def small_mem_def free_lock_def lock_free_def
        del: upt_rec_numeral upt_Suc) 
qed

theorem setupkvm_correct_witness:
  "\<exists>s' fl'. setupkvm kvm_mem = Inr (Some 8, s') \<and> pages_inv s' fl' \<and>
    pt_view all_tables (pmem s') 8 0xF0005 = Some (0x5000 OR PTE_W OR PTE_P) \<and>
    pt_view all_tables (pmem s') 8 0xEFFF7 = None"
proof -
  have "[8..<80] = 8 # [9..<80]" by (simp add: upt_conv_Cons)
  then have inv: "pages_inv kvm_mem (8 # [9..<80])" using kvm_mem_inv by simp
  have ok: "kern_ok kvm_mem"
    by (simp add: kern_ok_def kvm_mem_def small_mem_def region_consts KERNBASE_def)
  from setupkvm_correct [OF inv ok] obtain s' fl' where
    s': "setupkvm kvm_mem = Inr (Some 8, s')" "pages_inv s' fl'"
      "pt_view all_tables (pmem s') 8 = kern_view kvm_mem" by auto
  have l: "PGNUM (lapic kvm_mem) = 0xEF800" "npages kvm_mem = 80"
    by (simp_all add: kvm_mem_def region_consts)
  have "pt_view all_tables (pmem s') 8 0xF0005 = Some (0x5000 OR PTE_W OR PTE_P)"
    "pt_view all_tables (pmem s') 8 0xEFFF7 = None"
    unfolding s'(3) kern_view_def kstack_view_def l
    by (simp_all add: region_entry_def PGSIZE_def NCPU_def)
  with s' show ?thesis by blast
qed

definition page_aligned :: "u32 \<Rightarrow> bool" where
  "page_aligned a \<longleftrightarrow> PGOFF a = 0"

lemma page_aligned_unat: "page_aligned a \<longleftrightarrow> unat a mod 4096 = 0"
  by (simp add: page_aligned_def unat_eq_zero [symmetric] PGOFF_mod)

lemma page_aligned_arith:
  assumes "page_aligned a"
  shows "page_aligned (a - KERNBASE)" "page_aligned (a + of_nat k * PGSIZE)"
proof -
  have plus: "page_aligned (a + of_nat k * PGSIZE)" for k
  proof -
    have "unat (of_nat k * PGSIZE :: u32) mod 4096 = 0"
      by (simp add: PGSIZE_def unat_word_ariths mod_mod_cancel)
    moreover have "unat (a + b) mod 4096 = (unat a mod 4096 + unat b mod 4096) mod 4096" for b
      by (simp add: unat_word_ariths mod_mod_cancel mod_add_eq)
    ultimately show ?thesis using assms by (simp add: page_aligned_unat)
  qed
  then show "page_aligned (a + of_nat k * PGSIZE)" .
  have "a - KERNBASE = a + of_nat 65536 * PGSIZE" by (simp add: KERNBASE_def PGSIZE_def)
  then show "page_aligned (a - KERNBASE)" using plus [of 65536] by (simp only:)
qed

lemma page_aligned_and_low:
  assumes "page_aligned a" and "PGNUM m = 0"
  shows "a AND m = 0"
proof -
  have "unat m < 2 ^ 12" using assms(2) by (simp add: PGNUM_0_iff)
  then have m: "m AND mask 12 = m" by (simp add: word_unat_eq_iff unat_mask_and)
  have "a AND m = a AND (m AND mask 12)" by (simp only: m)
  also have "\<dots> = (a AND mask 12) AND m" by (simp only: and.assoc and.commute and.left_commute)
  also have "a AND mask 12 = 0" using assms(1) by (simp add: page_aligned_def PGOFF_def mask_12)
  finally show ?thesis by simp
qed

lemma region_entry_perm:
  assumes "page_aligned pa" and "PGNUM m = 0" and "m AND PTE_P = 0"
  shows "region_entry pa perm k AND m = perm AND m"
proof -
  have "PTE_P AND m = 0" using assms(3) by (simp add: and.commute)
  then show ?thesis
    using page_aligned_and_low [OF page_aligned_arith(2) [OF assms(1), of k] assms(2)]
    by (simp add: region_entry_def bit.conj_disj_distrib2)
qed

text \<open>The kernel's tables, stacks and devices start at page boundaries.\<close>

definition kern_aligned :: "'a kmem_scheme \<Rightarrow> bool" where
  "kern_aligned s \<longleftrightarrow> page_aligned (pages_va s) \<and> page_aligned (lapicaddr s) \<and>
     (\<forall>i. page_aligned (percpu_kstacks s i))"

lemma kern_view_user:
  assumes al: "kern_aligned s" and n: "npages s \<le> 65536"
    and e: "kern_view s v = Some e" and u: "e AND PTE_U \<noteq> 0"
  shows "0xEF000 \<le> v \<and> v < 0xEF400 \<and> e AND PTE_W = 0"
proof -
  have bits: "PGNUM PTE_U = 0" "PGNUM PTE_W = 0" "PTE_U AND PTE_P = 0" "PTE_W AND PTE_P = 0"
    by (simp_all add: PGNUM_0_iff PTE_U_def PTE_W_def PTE_P_def)
  have nou: "region_entry pa perm k AND PTE_U = 0" if "page_aligned pa" "perm AND PTE_U = 0" for pa perm k
    using region_entry_perm [OF that(1) bits(1,3)] that(2) by simp
  have perms: "(PTE_W OR PTE_PCD OR PTE_PWT) AND PTE_U = 0" "PTE_W AND PTE_U = 0" "PTE_U AND PTE_W = 0"
    by (simp_all add: PTE_U_def PTE_W_def PTE_PCD_def PTE_PWT_def)
  have zero: "page_aligned 0" "page_aligned IOPHYSMEM"
    by (simp_all add: page_aligned_unat IOPHYSMEM_def)
  have kst: "kstack_view s NCPU v \<noteq> Some e"
    using u nou [OF page_aligned_arith(1) perms(2)] al
    by (auto simp: kstack_view_def Let_def kern_aligned_def split: if_splits)
  have lap: "e \<noteq> region_entry (lapicaddr s) (PTE_W OR PTE_PCD OR PTE_PWT) k" for k
    using u nou [OF _ perms(1)] al by (auto simp: kern_aligned_def)
  have io: "e \<noteq> region_entry IOPHYSMEM PTE_W k" "e \<noteq> region_entry 0 PTE_W k" for k
    using u nou [OF _ perms(2)] zero by auto
  have up: "0xEF000 \<le> v \<and> v < 0xEF000 + (npages s * 8 + 4095) div 4096 \<and>
      e = region_entry (pages_va s - KERNBASE) PTE_U (v - 0xEF000)"
    using e kst lap io unfolding kern_view_def by (auto split: if_splits)
  have "(npages s * 8 + 4095) div 4096 \<le> 128" using n by linarith
  moreover have "e AND PTE_W = 0"
    using up region_entry_perm [OF page_aligned_arith(1) bits(2,4)] al perms(3)
    by (simp add: kern_aligned_def)
  ultimately show ?thesis using up by simp
qed

text \<open>
  C22. In the address space \<^verbatim>\<open>setupkvm\<close> returns, a user program reaches only the page structures,
  and those it cannot write: every entry with \<^verbatim>\<open>PTE_U\<close> lies in their region and lacks \<^verbatim>\<open>PTE_W\<close>.
\<close>

theorem setupkvm_user_isolation:
  assumes "pages_inv s (pg # fl)" and "kern_ok s" and "68 \<le> length fl" and "kern_aligned s"
  shows "\<exists>s'. setupkvm s = Inr (Some pg, s') \<and>
    (\<forall>v e. pt_view all_tables (pmem s') pg v = Some e \<longrightarrow> e AND PTE_U \<noteq> 0 \<longrightarrow>
      PGNUM UPAGES \<le> v \<and> v < PGNUM UVPT \<and> e AND PTE_W = 0)"
proof -
  have "PGNUM UVPT = 0xEF400" by (simp add: PGNUM_div layout_defs)
  then show ?thesis
    using setupkvm_ok [OF assms(1-3)] kern_view_user [OF assms(4) pages_inv_n(1) [OF assms(1)]]
    by (fastforce simp: region_consts)
qed

theorem setupkvm_user_isolation_witness:
  "\<exists>s'. setupkvm kvm_mem = Inr (Some 8, s') \<and>
    (\<forall>v e. pt_view all_tables (pmem s') 8 v = Some e \<longrightarrow> e AND PTE_U \<noteq> 0 \<longrightarrow>
      PGNUM UPAGES \<le> v \<and> v < PGNUM UVPT \<and> e AND PTE_W = 0)"
proof -
  have "[8..<80] = 8 # [9..<80]" by (simp add: upt_conv_Cons)
  then have "pages_inv kvm_mem (8 # [9..<80])" using kvm_mem_inv by simp
  moreover have "kern_ok kvm_mem"
    by (simp add: kern_ok_def kvm_mem_def small_mem_def region_consts KERNBASE_def)
  moreover have "kern_aligned kvm_mem"
    by (simp add: kern_aligned_def kvm_mem_def small_mem_def page_aligned_unat KERNBASE_def)
  moreover have "68 \<le> length [9..<80]" by (simp del: upt_rec_numeral)
  ultimately show ?thesis by (intro setupkvm_user_isolation)
qed

text \<open>
  A reservation that starts in the device region and ends there still ends there when its size is
  rounded up, and one table covers it.
\<close>

lemma mmio_reservation:
  assumes base: "MMIOBASE \<le> b" "b \<le> MMIOLIM" "page_aligned b" and fits: "unat b + unat sz \<le> unat MMIOLIM"
  defines "z \<equiv> ROUNDUP sz PGSIZE"
  shows "PGNUM (b + z) - PGNUM b = unat z div 4096" "page_aligned (b + z)" "b + sz \<le> b + z"
    "b + z \<le> MMIOLIM" "PGNUM b + unat z div 4096 \<le> 1048576"
    "range_tables (PGNUM b) (unat z div 4096) \<subseteq> {PDX MMIOBASE}"
proof -
  define q where "q = unat b div 4096"
  have q: "unat b = q * 4096"
    using base(3) div_mult_mod_eq [of "unat b" 4096] by (simp add: page_aligned_unat q_def)
  have c: "unat MMIOBASE = 0xEF800 * 4096" "unat MMIOLIM = 0xEFC00 * 4096"
    by (simp_all add: layout_defs)
  have le: "q * 4096 + unat sz \<le> 0xEFC00 * 4096" using fits unfolding c q .
  have bs: "0xEF800 \<le> q" "q \<le> 0xEFC00" "unat sz \<le> 1024 * 4096"
    using base(1,2) le unfolding word_le_nat_alt c q by simp_all
  then have bsz: "unat (b + sz) = q * 4096 + unat sz"
    using le by (simp add: unat_word_ariths q)
  define n where "n = (unat sz + 4095) div 4096"
  have n: "unat sz \<le> n * 4096" "q + n \<le> 0xEFC00"
    using le unfolding n_def by linarith+
  have "unat sz + 4095 < 2 ^ 32" using bs(3) by simp
  then have z: "unat z = n * 4096" unfolding n_def z_def by (rule ROUNDUP_unat)
  have b': "unat (b + z) = (q + n) * 4096"
  proof -
    have "q * 4096 + n * 4096 < 2 ^ 32" using n(2) by simp
    then have "unat (b + z) = q * 4096 + n * 4096" by (simp add: unat_word_ariths q z)
    then show ?thesis by (simp only: add_mult_distrib)
  qed
  have pq: "PGNUM b = q" "PGNUM (b + z) = q + n" "unat z div 4096 = n"
    using q b' z by (simp_all add: PGNUM_div)
  show "PGNUM (b + z) - PGNUM b = unat z div 4096" "PGNUM b + unat z div 4096 \<le> 1048576"
    using pq n(2) by simp_all
  show "page_aligned (b + z)" by (simp add: page_aligned_unat b')
  show "b + sz \<le> b + z" "b + z \<le> MMIOLIM" using bsz b' n by (simp_all add: word_le_nat_alt c)
  show "range_tables (PGNUM b) (unat z div 4096) \<subseteq> {PDX MMIOBASE}"
  proof (cases "n = 0")
    case False
    then have d: "q div 1024 = 0x3BE" using bs n(2) by linarith
    then have "q mod 1024 + n \<le> 1024" using div_mult_mod_eq [of q 1024] n(2) by linarith
    from range_tables_one [OF this] d show ?thesis
      unfolding pq by (simp add: PDX_div layout_defs)
  qed (simp add: pq)
qed

lemma mmio_check:
  assumes "b \<le> MMIOLIM"
  shows "b + sz > MMIOLIM \<longleftrightarrow> unat MMIOLIM < unat b + unat sz \<and> unat b + unat sz < 2 ^ 32"
proof -
  have b: "unat b \<le> 0xEFC00000" "unat MMIOLIM = 0xEFC00000"
    using assms unfolding word_le_nat_alt by (simp_all add: layout_defs)
  have z: "unat sz < 4294967296" using unsigned_less [of sz] by simp
  have wrap: "(unat b + unat sz) mod 4294967296 \<le> unat b" if "4294967296 \<le> unat b + unat sz"
  proof -
    define k where "k = unat b + unat sz - 4294967296"
    have k: "unat b + unat sz = k + 4294967296" using that by (simp add: k_def)
    have "k \<le> unat b" "k < 4294967296" using k b(1) z by linarith+
    then show ?thesis unfolding k by simp
  qed
  show ?thesis
  proof (cases "unat b + unat sz < 4294967296")
    case True
    then have "unat (b + sz) = unat b + unat sz" by (simp add: unat_word_ariths)
    then show ?thesis using True unfolding word_less_nat_alt by simp
  next
    case False
    then have "unat (b + sz) \<le> unat b" using wrap by (simp add: unat_word_ariths)
    then show ?thesis using False b unfolding word_less_nat_alt by simp
  qed
qed

lemma mmio_map_region_fits:
  assumes inv: "pages_inv s fl" and wf: "pt_wf D s (kern_pgdir s) fl" and D: "PDX MMIOBASE \<in> D"
    and base: "MMIOBASE \<le> mmio_base s" "mmio_base s \<le> MMIOLIM" "page_aligned (mmio_base s)"
    and mem: "PDX MMIOBASE \<in> pt_tables D (pmem s) (kern_pgdir s) \<or> fl \<noteq> []"
    and fits: "unat (mmio_base s) + unat sz \<le> unat MMIOLIM"
  shows "\<exists>s' fl'. mmio_map_region pa sz s = Inr (mmio_base s, s') \<and> pages_inv s' fl' \<and>
      pt_wf D s' (kern_pgdir s') fl' \<and> kern_pgdir s' = kern_pgdir s \<and> page_aligned (mmio_base s') \<and>
      mmio_base s + sz \<le> mmio_base s' \<and> mmio_base s' \<le> MMIOLIM \<and>
      pt_view D (pmem s') (kern_pgdir s') =
        map_range (pt_view D (pmem s) (kern_pgdir s)) (PGNUM (mmio_base s))
          (PGNUM (mmio_base s') - PGNUM (mmio_base s))
          (region_entry pa (PTE_W OR PTE_PCD OR PTE_PWT))"
proof -
  let ?b = "mmio_base s" and ?pg = "kern_pgdir s" and ?z = "ROUNDUP sz PGSIZE"
  let ?R = "range_tables (PGNUM ?b) (unat ?z div 4096)" and ?T = "pt_tables D (pmem s) (kern_pgdir s)"
  note r = mmio_reservation [OF base fits]
  have False: "\<not> ?b + sz > MMIOLIM" using mmio_check [OF base(2), of sz] fits by simp
  have RD: "?R \<subseteq> D" using D r(6) by blast
  have "card (?R - ?T) \<le> card ({PDX MMIOBASE} - ?T)"
    using r(6) by (intro card_mono) auto
  also have "\<dots> \<le> length fl"
    using mem by (cases fl) (auto simp: insert_Diff_if)
  finally have "card (?R - ?T) \<le> length fl" .
  from boot_map_region_ok [OF inv wf refl r(5) RD this, of pa "PTE_W OR PTE_PCD OR PTE_PWT"] obtain t where
    t: "boot_map_region ?pg ?b ?z pa (PTE_W OR PTE_PCD OR PTE_PWT) s = Inr ((), t)"
      "pt_extend D ?pg s fl ?R t"
      "pt_view D (pmem t) ?pg = map_range (pt_view D (pmem s) ?pg) (PGNUM ?b) (unat ?z div 4096)
         (region_entry pa (PTE_W OR PTE_PCD OR PTE_PWT))"
    by blast
  let ?fl = "drop (card (?R - ?T)) fl"
  let ?s' = "t\<lparr>mmio_base := ?b + ?z\<rparr>"
  have t_inv: "pages_inv t ?fl" "pt_wf D t ?pg ?fl" "kern_pgdir t = ?pg"
    using t(2) by (simp_all add: pt_extend_def mem_frame_D)
  have "mmio_map_region pa sz s = Inr (?b, ?s')"
    using False t(1) by (simp add: mmio_map_region_def kbind_apply)
  moreover have "pages_inv ?s' ?fl" "pt_wf D ?s' (kern_pgdir ?s') ?fl"
    using t_inv by (simp_all add: pages_inv_def pt_wf_def)
  ultimately show ?thesis
    using t(3) t_inv(3) r(1-4) by (intro exI [of _ ?s'] exI [of _ ?fl]) simp
qed

text \<open>
  C24. \<^verbatim>\<open>mmio_map_region\<close> for every size. When the reservation ends at or below \<^verbatim>\<open>MMIOLIM\<close> it returns the first
  free address of the region, maps the device's pages there uncached and writable, and advances past
  them, so that later reservations are disjoint from this one. When it would pass \<^verbatim>\<open>MMIOLIM\<close> and its end is
  an address, it panics. When its end lies beyond the address space, the sum wraps around and the code's check misses
  it: the mapping goes ahead.
\<close>

theorem mmio_map_region_correct:
  assumes inv: "pages_inv s fl" and wf: "pt_wf D s (kern_pgdir s) fl" and D: "PDX MMIOBASE \<in> D"
    and base: "MMIOBASE \<le> mmio_base s" "mmio_base s \<le> MMIOLIM" "page_aligned (mmio_base s)"
    and mem: "PDX MMIOBASE \<in> pt_tables D (pmem s) (kern_pgdir s) \<or> fl \<noteq> []"
  shows "if unat (mmio_base s) + unat sz \<le> unat MMIOLIM
    then \<exists>s' fl'. mmio_map_region pa sz s = Inr (mmio_base s, s') \<and> pages_inv s' fl' \<and>
      pt_wf D s' (kern_pgdir s') fl' \<and> kern_pgdir s' = kern_pgdir s \<and> page_aligned (mmio_base s') \<and>
      mmio_base s + sz \<le> mmio_base s' \<and> mmio_base s' \<le> MMIOLIM \<and>
      pt_view D (pmem s') (kern_pgdir s') =
        map_range (pt_view D (pmem s) (kern_pgdir s)) (PGNUM (mmio_base s))
          (PGNUM (mmio_base s') - PGNUM (mmio_base s))
          (region_entry pa (PTE_W OR PTE_PCD OR PTE_PWT))
    else if unat (mmio_base s) + unat sz < 2 ^ 32
    then mmio_map_region pa sz s = Inl (Panic ''mmio_map_region(): reservation overflow MMIOLIM'')
    else mmio_map_region pa sz s =
      (case boot_map_region (kern_pgdir s) (mmio_base s) (ROUNDUP sz PGSIZE) pa (PTE_W OR PTE_PCD OR PTE_PWT) s of
         Inl e \<Rightarrow> Inl e | Inr (_, t) \<Rightarrow> Inr (mmio_base s, t\<lparr>mmio_base := mmio_base s + ROUNDUP sz PGSIZE\<rparr>))"
proof (cases "unat (mmio_base s) + unat sz \<le> unat MMIOLIM")
  case True
  then show ?thesis using mmio_map_region_fits [OF assms, of sz pa] by simp
next
  case False
  then show ?thesis
    using mmio_check [OF base(2), of sz] by (auto simp: mmio_map_region_def kbind_apply split: sum.splits)
qed

theorem mmio_map_region_correct_witness:
  "(\<exists>s'. mmio_map_region 0xFEE00000 4096 (pt_mem\<lparr>kern_pgdir := 8\<rparr>) = Inr (MMIOBASE, s') \<and>
     pt_view all_tables (pmem s') 8 0xEF800 =
       Some (0xFEE00000 OR (PTE_W OR PTE_PCD OR PTE_PWT) OR PTE_P)) \<and>
   mmio_map_region 0 4096 (pt_mem\<lparr>kern_pgdir := 8, mmio_base := MMIOLIM\<rparr>) =
     Inl (Panic ''mmio_map_region(): reservation overflow MMIOLIM'')"
proof
  let ?s = "pt_mem\<lparr>kern_pgdir := 8\<rparr>"
  have inv: "pages_inv ?s [3, 5, 4]" "pt_wf all_tables ?s (kern_pgdir ?s) [3, 5, 4]"
    using pt_mem_inv pt_mem_wf by (simp_all add: pages_inv_def pt_wf_def)
  have b: "mmio_base ?s = MMIOBASE" by (simp add: pt_mem_def small_mem_def)
  have c: "page_aligned MMIOBASE" "page_aligned MMIOLIM" "MMIOBASE \<le> MMIOLIM"
    "unat MMIOBASE + unat (4096 :: u32) \<le> unat MMIOLIM" "unat MMIOLIM = 0xEFC00000"
    by (simp_all add: page_aligned_unat layout_defs)
  have s: "kern_pgdir ?s = 8" "PDX MMIOBASE \<in> all_tables" by simp_all
  have "MMIOBASE \<le> mmio_base ?s" "mmio_base ?s \<le> MMIOLIM" "page_aligned (mmio_base ?s)"
    using b c by simp_all
  from mmio_map_region_correct [OF inv s(2) this, of 4096 "0xFEE00000", unfolded b if_P [OF c(4)] s(1)]
  obtain s' where
    s': "mmio_map_region 0xFEE00000 4096 ?s = Inr (MMIOBASE, s')" "kern_pgdir s' = 8"
      "MMIOBASE + 4096 \<le> mmio_base s'" "mmio_base s' \<le> MMIOLIM"
      "pt_view all_tables (pmem s') (kern_pgdir s') =
        map_range (pt_view all_tables (pmem ?s) 8) (PGNUM MMIOBASE)
          (PGNUM (mmio_base s') - PGNUM MMIOBASE)
          (region_entry 0xFEE00000 (PTE_W OR PTE_PCD OR PTE_PWT))" by auto
  have "unat MMIOBASE + 4096 \<le> unat (mmio_base s')"
    using s'(3) by (simp add: word_le_nat_alt MMIOBASE_def MMIOLIM_def KSTACKTOP_def KERNBASE_def
        PTSIZE_def PGSIZE_def)
  then have "0xEF800 < PGNUM (mmio_base s')" by (simp add: PGNUM_div layout_defs)
  with s'(1,2,5) show "\<exists>s'. mmio_map_region 0xFEE00000 4096 ?s = Inr (MMIOBASE, s') \<and>
     pt_view all_tables (pmem s') 8 0xEF800 =
       Some (0xFEE00000 OR (PTE_W OR PTE_PCD OR PTE_PWT) OR PTE_P)"
    by (intro exI [of _ s']) (simp add: map_range_def region_consts region_entry_def)
  let ?t = "pt_mem\<lparr>kern_pgdir := 8, mmio_base := MMIOLIM\<rparr>"
  have invt: "pages_inv ?t [3, 5, 4]" "pt_wf all_tables ?t (kern_pgdir ?t) [3, 5, 4]"
    using pt_mem_inv pt_mem_wf by (simp_all add: pages_inv_def pt_wf_def)
  have "MMIOBASE \<le> mmio_base ?t" "mmio_base ?t \<le> MMIOLIM" "page_aligned (mmio_base ?t)"
    using c by simp_all
  from mmio_map_region_correct [OF invt s(2) this, of 4096 0] c(5)
  show "mmio_map_region 0 4096 ?t = Inl (Panic ''mmio_map_region(): reservation overflow MMIOLIM'')"
    by simp
qed

lemma page2pa_PGNUM: "page_aligned a \<Longrightarrow> page2pa (PGNUM a) = a"
proof -
  assume "page_aligned a"
  then have "PGNUM a * 4096 = unat a"
    using div_mult_mod_eq [of "unat a" 4096] by (simp add: page_aligned_unat PGNUM_div)
  then show ?thesis by (simp add: word_unat_eq_iff unat_page2pa)
qed

lemma setupvm_ok:
  assumes inv: "pages_inv s fl" and wf: "pt_wf D s pgdir fl"
    and start: "KERNBASE \<le> start" "page_aligned start" and sz: "sz \<noteq> 0"
    and n: "n = (unat sz + 4095) div 4096" "PGNUM start + n \<le> 1048576"
    and R: "range_tables (PGNUM start) n \<subseteq> D"
      "card (range_tables (PGNUM start) n - pt_tables D (pmem s) pgdir) \<le> length fl"
  shows "\<exists>s'. setupvm pgdir start sz s = Inr ((), s') \<and>
    pt_extend D pgdir s fl (range_tables (PGNUM start) n) s' \<and>
    pt_view D (pmem s') pgdir = map_range (pt_view D (pmem s) pgdir) (PGNUM start) n
      (region_entry (start - KERNBASE) (PTE_W OR PTE_U))"
proof -
  let ?v = "PGNUM start" and ?pa = "start - KERNBASE"
  have "unat KERNBASE \<le> unat start" using start(1) by (simp add: word_le_nat_alt)
  then have "0xF0000 \<le> ?v" by (simp add: PGNUM_div KERNBASE_def)
  then have n_le: "n \<le> 0x10000" and n_pos: "0 < n" using n sz 
    by (simp_all add: unat_gt_0 [symmetric] div_greater_zero_iff Suc_le_eq)
  have "unat sz + 4095 < (n + 1) * 4096" 
    unfolding n(1) using dividend_less_div_times [of 4096 "unat sz + 4095"] by simp
  also have "\<dots> \<le> (0x10000 + 1) * 4096" using n_le by simp
  finally have "unat sz + 4095 < 2 ^ 32" by simp
  then have z: "unat (ROUNDUP sz PGSIZE) div 4096 = n" using ROUNDUP_unat n(1) by simp
  from boot_map_region_ok [OF inv wf z n(2) R, of ?pa "PTE_W OR PTE_U"] obtain t where
    t: "boot_map_region pgdir start (ROUNDUP sz PGSIZE) ?pa (PTE_W OR PTE_U) s = Inr ((), t)"
      "pt_extend D pgdir s fl (range_tables ?v n) t"
      "pt_view D (pmem t) pgdir = map_range (pt_view D (pmem s) pgdir) ?v n
         (region_entry ?pa (PTE_W OR PTE_U))" by blast
  let ?e = "region_entry ?pa (PTE_W OR PTE_U) 0"
  have "?v div 1024 \<in> range_tables ?v n" using n_pos by (auto simp: range_tables_def)
  then have va: "PDX start \<in> D" using R(1) by (auto simp: PDX_PGNUM)
  have "pt_view D (pmem t) pgdir ?v = Some ?e" using t(3) n_pos by (simp add: map_range_def)
  moreover have "pages_inv t (drop (card (range_tables ?v n - pt_tables D (pmem s) pgdir)) fl)"
    "pt_wf D t pgdir (drop (card (range_tables ?v n - pt_tables D (pmem s) pgdir)) fl)"
    using t(2) by (simp_all add: pt_extend_def)
  ultimately have chk: "check_va2pa pgdir start t = Inr (PTE_ADDR ?e, t)"
    using check_va2pa_view va by fastforce
  have "PGNUM ?e = PGNUM ?pa"
    by (simp add: region_entry_def PGNUM_or PTE_W_def PTE_U_def PTE_P_def)
  then have "PTE_ADDR ?e = ?pa"
    using page2pa_PGNUM [OF page_aligned_arith(1) [OF start(2)]] by (simp add: PTE_ADDR_page2pa)
  with chk t start(1) show ?thesis by (simp add: setupvm_def kbind_apply kassert_apply)
qed

text \<open>
  C23. \<^verbatim>\<open>setupvm\<close> on a non-empty, page-aligned image at or above \<^verbatim>\<open>KERNBASE\<close> passes its final
  assertion, and makes exactly the pages that the image touches accessible to the user, each at
  the physical page it is loaded in.
\<close>

theorem setupvm_correct:
  assumes "pages_inv s fl" and "pt_wf D s pgdir fl"
    and "KERNBASE \<le> start" and "page_aligned start" and "sz \<noteq> 0"
    and "n = (unat sz + 4095) div 4096" and "PGNUM start + n \<le> 1048576"
    and "range_tables (PGNUM start) n \<subseteq> D"
    and "card (range_tables (PGNUM start) n - pt_tables D (pmem s) pgdir) \<le> length fl"
  shows "\<exists>s' fl'. setupvm pgdir start sz s = Inr ((), s') \<and> pages_inv s' fl' \<and>
    pt_wf D s' pgdir fl' \<and>
    (\<forall>v. pt_view D (pmem s') pgdir v =
      (if PGNUM start \<le> v \<and> v < PGNUM start + n
       then Some ((start - KERNBASE + of_nat (v - PGNUM start) * PGSIZE) OR (PTE_W OR PTE_U) OR PTE_P)
       else pt_view D (pmem s) pgdir v))"
proof -
  from setupvm_ok [OF assms] obtain s' where
    s': "setupvm pgdir start sz s = Inr ((), s')"
      "pt_extend D pgdir s fl (range_tables (PGNUM start) n) s'"
      "pt_view D (pmem s') pgdir = map_range (pt_view D (pmem s) pgdir) (PGNUM start) n
        (region_entry (start - KERNBASE) (PTE_W OR PTE_U))" by blast
  moreover have "pt_view D (pmem s') pgdir v =
      (if PGNUM start \<le> v \<and> v < PGNUM start + n
       then Some ((start - KERNBASE + of_nat (v - PGNUM start) * PGSIZE) OR (PTE_W OR PTE_U) OR PTE_P)
       else pt_view D (pmem s) pgdir v)" for v
    unfolding s'(3) map_range_def region_entry_def ..
  ultimately show ?thesis unfolding pt_extend_def by blast
qed

theorem setupvm_correct_witness:
  "\<exists>s' fl'. setupvm 8 0xF0005000 100 pt_mem = Inr ((), s') \<and> pages_inv s' fl' \<and>
    pt_view all_tables (pmem s') 8 0xF0005 = Some (0x5000 OR (PTE_W OR PTE_U) OR PTE_P)"
proof -
  have c: "PGNUM 0xF0005000 = 0xF0005" "KERNBASE \<le> 0xF0005000" "page_aligned 0xF0005000"
    by (simp_all add: PGNUM_div KERNBASE_def page_aligned_unat)
  have R: "range_tables 0xF0005 1 \<subseteq> {0x3C0}" using range_tables_one [of "0xF0005" 1] by simp
  have "card (range_tables (PGNUM 0xF0005000) 1 - pt_tables all_tables (pmem pt_mem) 8) \<le>
      card {0x3C0 :: nat}"
    unfolding c using R by (intro card_mono) auto
  then have k: "card (range_tables (PGNUM 0xF0005000) 1 - pt_tables all_tables (pmem pt_mem) 8) \<le>
      length [3, 5, 4 :: nat]" by simp
  have D: "range_tables (PGNUM 0xF0005000) 1 \<subseteq> all_tables" unfolding c using R by auto
  have n: "(100 :: u32) \<noteq> 0" "1 = (unat (100 :: u32) + 4095) div 4096" "PGNUM 0xF0005000 + 1 \<le> 1048576"
    by (simp_all add: c)
  from setupvm_correct [OF pt_mem_inv pt_mem_wf c(2,3) n D k] obtain s' fl' where
    "setupvm 8 0xF0005000 100 pt_mem = Inr ((), s')" "pages_inv s' fl'"
    "\<forall>v. pt_view all_tables (pmem s') 8 v =
      (if PGNUM 0xF0005000 \<le> v \<and> v < PGNUM 0xF0005000 + 1
       then Some ((0xF0005000 - KERNBASE + of_nat (v - PGNUM 0xF0005000) * PGSIZE) OR
         (PTE_W OR PTE_U) OR PTE_P)
       else pt_view all_tables (pmem pt_mem) 8 v)" by blast
  then show ?thesis
    by (intro exI [of _ s'] exI [of _ fl']) (simp add: c KERNBASE_def)
qed

end
