(* ===== verification/MemCheck.thy ===== *)
theory MemCheck
  imports PageTable
begin

text \<open>
  The checks \<^verbatim>\<open>kernel/mem.c\<close> runs on its own memory manager while the machine starts:
  \<^verbatim>\<open>check_page_free_list\<close>, \<^verbatim>\<open>check_page_alloc\<close>, \<^verbatim>\<open>check_kern_pgdir\<close>, \<^verbatim>\<open>check_page\<close> and
  \<^verbatim>\<open>check_page_installed_pgdir\<close>. A failed assertion is a panic. The loads and stores through virtual
  addresses that the last one makes go through a model of the processor's translation.
\<close>

section \<open>Virtual memory accesses\<close>

definition lcr3 :: "u32 \<Rightarrow> ('a kmem_scheme, unit) kfun" where
  "lcr3 v = kmodify (\<lambda>s. s\<lparr>cr3 := v, tlb := (\<lambda>_. None)\<rparr>)"

text \<open>
  The entry that translates \<open>va\<close> comes from the translation cache or from the current directory,
  and is then kept in the cache. A missing entry is a page fault, whose handler never returns.
\<close>

definition mmu_entry :: "u32 \<Rightarrow> ('a kmem_scheme, u32) kfun" where
  "mmu_entry va = (\<lambda>s. case tlb s (PGNUM va) of
     Some e \<Rightarrow> Inr (e, s)
   | None \<Rightarrow>
       let pde = pmem s (PGNUM (cr3 s)) (PDX va); pte = pmem s (PGNUM pde) (PTX va)
       in if pde AND PTE_P = 0 \<or> pte AND PTE_P = 0 then Inl Hang
          else Inr (pte, s\<lparr>tlb := (tlb s)(PGNUM va \<mapsto> pte)\<rparr>))"

definition vload32 :: "u32 \<Rightarrow> ('a kmem_scheme, u32) kfun" where
  "vload32 va = kbind (mmu_entry va) (\<lambda>e. kread (PGNUM e, unat (PGOFF va) div 4))"

definition vstore32 :: "u32 \<Rightarrow> u32 \<Rightarrow> ('a kmem_scheme, unit) kfun" where
  "vstore32 va v = kbind (mmu_entry va) (\<lambda>e. kwrite (PGNUM e, unat (PGOFF va) div 4) v)"

definition vload8 :: "u32 \<Rightarrow> ('a kmem_scheme, u8) kfun" where
  "vload8 va = kbind (mmu_entry va) (\<lambda>e.
     kbind (kread (PGNUM e, unat (PGOFF va) div 4)) (\<lambda>w.
     kreturn (ucast (drop_bit (8 * (unat (PGOFF va) mod 4)) w))))"

section \<open>The free list\<close>

definition c_assert :: "bool \<Rightarrow> string \<Rightarrow> ('s, unit) kfun" where
  "c_assert b what = kassert b (''assertion failed: '' @ what)"

definition quoted :: "string \<Rightarrow> string" where
  "quoted x = CHR 0x27 # x @ [CHR 0x27]"

text \<open>
  A loop that follows \<^verbatim>\<open>pp_link\<close> from \<open>pp\<close>. It is given the number of page structures as a bound on
  its length; a longer chain has a cycle, and the loop does not end.
\<close>

fun for_free_list :: "nat \<Rightarrow> nat option \<Rightarrow> (nat \<Rightarrow> ('a kmem_scheme, unit) kfun) \<Rightarrow> ('a kmem_scheme, unit) kfun" where
  "for_free_list n None body = kreturn ()"
| "for_free_list 0 (Some pp) body = kfail Hang"
| "for_free_list (Suc n) (Some pp) body =
     kbind (body pp) (\<lambda>_. kbind (get_pp pp) (\<lambda>p. for_free_list n (pp_link p) body))"

definition on_free_list :: "(nat \<Rightarrow> ('a kmem_scheme, unit) kfun) \<Rightarrow> ('a kmem_scheme, unit) kfun" where
  "on_free_list body =
     kbind (kgets (\<lambda>s. (length (pages s), page_free_list s))) (\<lambda>(n, fl). for_free_list n fl body)"

text \<open>
  The loop that splits the list. \<open>tp0\<close> and \<open>tp1\<close> are the two pointers of \<^verbatim>\<open>tp\<close>: \<open>None\<close> points to the local
  \<^verbatim>\<open>pp1\<close> or \<^verbatim>\<open>pp2\<close>, \<open>Some q\<close> to the link of page \<open>q\<close>.
\<close>

record split_vars =
  tp0 :: "nat option"
  tp1 :: "nat option"
  lpp1 :: "nat option"
  lpp2 :: "nat option"

definition store_tp0 :: "nat option \<Rightarrow> split_vars \<Rightarrow> ('a kmem_scheme, split_vars) kfun" where
  "store_tp0 v b = (case tp0 b of
     None \<Rightarrow> kreturn (b\<lparr>lpp1 := v\<rparr>)
   | Some q \<Rightarrow> kbind (set_pp q (\<lambda>p. p\<lparr>pp_link := v\<rparr>)) (\<lambda>_. kreturn b))"

definition store_tp1 :: "nat option \<Rightarrow> split_vars \<Rightarrow> ('a kmem_scheme, split_vars) kfun" where
  "store_tp1 v b = (case tp1 b of
     None \<Rightarrow> kreturn (b\<lparr>lpp2 := v\<rparr>)
   | Some q \<Rightarrow> kbind (set_pp q (\<lambda>p. p\<lparr>pp_link := v\<rparr>)) (\<lambda>_. kreturn b))"

fun split_list :: "nat \<Rightarrow> nat \<Rightarrow> nat option \<Rightarrow> split_vars \<Rightarrow> ('a kmem_scheme, split_vars) kfun" where
  "split_list pdx_limit n None b = kreturn b"
| "split_list pdx_limit 0 (Some pp) b = kfail Hang"
| "split_list pdx_limit (Suc n) (Some pp) b =
     kbind (if PDX (page2pa pp) \<ge> pdx_limit
            then kbind (store_tp1 (Some pp) b) (\<lambda>b. kreturn (b\<lparr>tp1 := Some pp\<rparr>))
            else kbind (store_tp0 (Some pp) b) (\<lambda>b. kreturn (b\<lparr>tp0 := Some pp\<rparr>))) (\<lambda>b.
     kbind (get_pp pp) (\<lambda>p. split_list pdx_limit n (pp_link p) b))"

definition low_pages_first :: "nat \<Rightarrow> ('a kmem_scheme, unit) kfun" where
  "low_pages_first pdx_limit =
     kbind (kgets (\<lambda>s. (length (pages s), page_free_list s))) (\<lambda>(n, fl).
     kbind (split_list pdx_limit n fl \<lparr>tp0 = None, tp1 = None, lpp1 = None, lpp2 = None\<rparr>) (\<lambda>b.
     kbind (store_tp1 None b) (\<lambda>b.
     kbind (store_tp0 (lpp2 b) b) (\<lambda>b.
     kmodify (\<lambda>s. s\<lparr>page_free_list := lpp1 b\<rparr>)))))"

text \<open>\<^verbatim>\<open>memset\<close> of the first \<open>4 * n\<close> bytes of a frame.\<close>

definition memset_words :: "nat \<Rightarrow> u32 \<Rightarrow> nat \<Rightarrow> ('a kmem_scheme, unit) kfun" where
  "memset_words fr c n =
     kmodify (\<lambda>s. s\<lparr>pmem := (pmem s)(fr := (\<lambda>i. if i < n then memset_word c else pmem s fr i))\<rparr>)"

definition check_free_page :: "u32 \<Rightarrow> nat \<Rightarrow> ('a kmem_scheme, unit) kfun" where
  "check_free_page first_free_page pp =
     kbind (kgets npages) (\<lambda>n.
     kbind (c_assert (pp < n) ''pp < pages + npages'') (\<lambda>_.
     kbind (c_assert (page2pa pp \<noteq> 0) ''page2pa(pp) != 0'') (\<lambda>_.
     kbind (c_assert (page2pa pp \<noteq> IOPHYSMEM) ''page2pa(pp) != IOPHYSMEM'') (\<lambda>_.
     kbind (c_assert (page2pa pp \<noteq> EXTPHYSMEM - PGSIZE) ''page2pa(pp) != EXTPHYSMEM - PGSIZE'') (\<lambda>_.
     kbind (c_assert (page2pa pp \<noteq> EXTPHYSMEM) ''page2pa(pp) != EXTPHYSMEM'') (\<lambda>_.
     kbind (if page2pa pp < EXTPHYSMEM then kreturn ()
            else kbind (page2kva pp) (\<lambda>fr. c_assert (frame_kva fr \<ge> first_free_page)
              ''page2pa(pp) < EXTPHYSMEM || (char *) page2kva(pp) >= first_free_page'')) (\<lambda>_.
     c_assert (page2pa pp \<noteq> MPENTRY_PADDR) ''page2pa(pp) != MPENTRY_PADDR'')))))))"

fun count_free :: "nat \<Rightarrow> nat option \<Rightarrow> u32 \<Rightarrow> int \<times> int \<Rightarrow> ('a kmem_scheme, int \<times> int) kfun" where
  "count_free n None ffp c = kreturn c"
| "count_free 0 (Some pp) ffp c = kfail Hang"
| "count_free (Suc n) (Some pp) ffp (nb, ne) =
     kbind (check_free_page ffp pp) (\<lambda>_.
     kbind (get_pp pp) (\<lambda>p.
     count_free n (pp_link p) ffp (if page2pa pp < EXTPHYSMEM then (nb + 1, ne) else (nb, ne + 1))))"

text \<open>
  The assertions that \<open>pp\<close> does not point below \<^verbatim>\<open>pages\<close> or between two elements hold of every
  index and are left out.
\<close>

definition check_page_free_list :: "u32 \<Rightarrow> bool \<Rightarrow> ('a kmem_scheme, unit) kfun" where
  "check_page_free_list kend only_low_memory =
     (let pdx_limit = (if only_low_memory then 1 else NPDENTRIES) in
     kbind (kgets page_free_list) (\<lambda>fl.
     kbind (kassert (fl \<noteq> None) (quoted ''page_free_list'' @ '' is a null pointer!'')) (\<lambda>_.
     kbind (kwhen only_low_memory (low_pages_first pdx_limit)) (\<lambda>_.
     kbind (on_free_list (\<lambda>pp.
       kwhen (PDX (page2pa pp) < pdx_limit)
         (kbind (page2kva pp) (\<lambda>fr. memset_words fr 0x97 32)))) (\<lambda>_.
     kbind (boot_alloc kend 0) (\<lambda>first_free_page.
     kbind (kgets (\<lambda>s. (length (pages s), page_free_list s))) (\<lambda>(n, fl).
     kbind (count_free n fl first_free_page (0, 0)) (\<lambda>(nb, ne).
     kbind (c_assert (nb > 0) ''nfree_basemem > 0'') (\<lambda>_.
     kbind (c_assert (ne > 0) ''nfree_extmem > 0'') (\<lambda>_.
     kbind (printk (''check_page_free_list() succeeded!'' @ nl) []) (\<lambda>_.
     kreturn ())))))))))))"

section \<open>The allocator\<close>

definition ck_alloc :: "u32 \<Rightarrow> string \<Rightarrow> ('a kmem_scheme, nat) kfun" where
  "ck_alloc flags what =
     kbind (page_alloc flags) (\<lambda>r.
     case r of None \<Rightarrow> kfail (Panic (''assertion failed: '' @ what)) | Some pp \<Rightarrow> kreturn pp)"

definition no_more_pages :: "('a kmem_scheme, unit) kfun" where
  "no_more_pages = kbind (page_alloc 0) (\<lambda>r. c_assert (r = None) ''!page_alloc(0)'')"

text \<open>Three allocations that must succeed and give different pages.\<close>

definition alloc_three :: "('a kmem_scheme, nat \<times> nat \<times> nat) kfun" where
  "alloc_three =
     kbind (ck_alloc 0 ''(pp0 = page_alloc(0))'') (\<lambda>pp0.
     kbind (ck_alloc 0 ''(pp1 = page_alloc(0))'') (\<lambda>pp1.
     kbind (ck_alloc 0 ''(pp2 = page_alloc(0))'') (\<lambda>pp2.
     kbind (c_assert (pp1 \<noteq> pp0) ''pp1 && pp1 != pp0'') (\<lambda>_.
     kbind (c_assert (pp2 \<noteq> pp1 \<and> pp2 \<noteq> pp0) ''pp2 && pp2 != pp1 && pp2 != pp0'') (\<lambda>_.
     kreturn (pp0, pp1, pp2))))))"

definition free_three :: "nat \<times> nat \<times> nat \<Rightarrow> ('a kmem_scheme, unit) kfun" where
  "free_three = (\<lambda>(pp0, pp1, pp2).
     kbind (page_free pp0) (\<lambda>_. kbind (page_free pp1) (\<lambda>_. page_free pp2)))"

fun list_count :: "nat \<Rightarrow> nat option \<Rightarrow> int \<Rightarrow> ('a kmem_scheme, int) kfun" where
  "list_count n None c = kreturn c"
| "list_count 0 (Some pp) c = kfail Hang"
| "list_count (Suc n) (Some pp) c = kbind (get_pp pp) (\<lambda>p. list_count n (pp_link p) (c + 1))"

definition free_count :: "('a kmem_scheme, int) kfun" where
  "free_count = kbind (kgets (\<lambda>s. (length (pages s), page_free_list s))) (\<lambda>(n, fl). list_count n fl 0)"

definition frame_byte :: "nat \<Rightarrow> nat \<Rightarrow> ('a kmem_scheme, u8) kfun" where
  "frame_byte fr i = kbind (kread (fr, i div 4)) (\<lambda>w. kreturn (ucast (drop_bit (8 * (i mod 4)) w)))"

definition in_memory :: "nat \<Rightarrow> string \<Rightarrow> ('a kmem_scheme, unit) kfun" where
  "in_memory pp what = kbind (kgets npages) (\<lambda>n. c_assert (page2pa pp < of_nat n * PGSIZE) what)"

definition check_page_alloc :: "('a kmem_scheme, unit) kfun" where
  "check_page_alloc =
     kbind (kgets pages_va) (\<lambda>pva.
     kbind (kassert (pva \<noteq> 0) (quoted ''pages'' @ '' is a null pointer!'')) (\<lambda>_.
     kbind free_count (\<lambda>nfree.
     kbind alloc_three (\<lambda>(pp0, pp1, pp2).
     kbind (in_memory pp0 ''page2pa(pp0) < npages*PGSIZE'') (\<lambda>_.
     kbind (in_memory pp1 ''page2pa(pp1) < npages*PGSIZE'') (\<lambda>_.
     kbind (in_memory pp2 ''page2pa(pp2) < npages*PGSIZE'') (\<lambda>_.
     kbind (kgets page_free_list) (\<lambda>fl.
     kbind (kmodify (\<lambda>s. s\<lparr>page_free_list := None\<rparr>)) (\<lambda>_.
     kbind no_more_pages (\<lambda>_.
     kbind (free_three (pp0, pp1, pp2)) (\<lambda>_.
     kbind alloc_three (\<lambda>(pp0, pp1, pp2).
     kbind no_more_pages (\<lambda>_.
     kbind (page2kva pp0) (\<lambda>fr.
     kbind (memset_page fr 1) (\<lambda>_.
     kbind (page_free pp0) (\<lambda>_.
     kbind (ck_alloc ALLOC_ZERO ''(pp = page_alloc(ALLOC_ZERO))'') (\<lambda>pp.
     kbind (c_assert (pp0 = pp) ''pp && pp0 == pp'') (\<lambda>_.
     kbind (page2kva pp) (\<lambda>c.
     kbind (kfor [0..<unat PGSIZE] (\<lambda>i. kbind (frame_byte c i) (\<lambda>b. c_assert (b = 0) ''c[i] == 0''))) (\<lambda>_.
     kbind (kmodify (\<lambda>s. s\<lparr>page_free_list := fl\<rparr>)) (\<lambda>_.
     kbind (free_three (pp0, pp1, pp2)) (\<lambda>_.
     kbind free_count (\<lambda>n.
     kbind (c_assert (nfree - n = 0) ''nfree == 0'') (\<lambda>_.
     kbind (printk (''check_page_alloc() succeeded!'' @ nl) []) (\<lambda>_.
     kreturn ())))))))))))))))))))))))))"

section \<open>The kernel's page directory\<close>

definition check_map :: "nat \<Rightarrow> u32 \<Rightarrow> u32 \<Rightarrow> string \<Rightarrow> ('a kmem_scheme, unit) kfun" where
  "check_map pgdir va pa what = kbind (check_va2pa pgdir va) (\<lambda>r. c_assert (r = pa) what)"

text \<open>The values \<^verbatim>\<open>i\<close> takes in a loop that goes up to \<open>n\<close> in steps of a page.\<close>

definition page_steps :: "u32 \<Rightarrow> u32 list" where
  "page_steps n = map (\<lambda>k. of_nat k * PGSIZE) [0..<(unat n + 4095) div 4096]"

definition check_kstack :: "nat \<Rightarrow> nat \<Rightarrow> ('a kmem_scheme, unit) kfun" where
  "check_kstack pgdir n =
     (let base = KSTACKTOP - (KSTKSIZE + KSTKGAP) * (of_nat n + 1) in
     kbind (kgets (\<lambda>s. percpu_kstacks s n)) (\<lambda>kva.
     kbind (kfor (page_steps KSTKSIZE) (\<lambda>i.
       kbind (PADDR kva) (\<lambda>pa.
       check_map pgdir (base + KSTKGAP + i) (pa + i)
         ''check_va2pa(pgdir, base + KSTKGAP + i) == PADDR(percpu_kstacks[n]) + i''))) (\<lambda>_.
     kfor (page_steps KSTKGAP) (\<lambda>i.
       check_map pgdir (base + i) (NOT 0) ''check_va2pa(pgdir, base + i) == ~0''))))"

definition check_pde :: "nat \<Rightarrow> nat \<Rightarrow> ('a kmem_scheme, unit) kfun" where
  "check_pde pgdir i =
     kbind (kread (pgdir, i)) (\<lambda>e.
     if i \<in> set [PDX IOPHYSMEM, PDX UVPT, PDX (KSTACKTOP - 1), PDX UPAGES, PDX MMIOBASE]
     then c_assert (e AND PTE_P \<noteq> 0) ''pgdir[i] & PTE_P''
     else if i \<ge> PDX KERNBASE then
       kbind (c_assert (e AND PTE_P \<noteq> 0) ''pgdir[i] & PTE_P'') (\<lambda>_.
       c_assert (e AND PTE_W \<noteq> 0) ''pgdir[i] & PTE_W'')
     else c_assert (e = 0) ''pgdir[i] == 0'')"

definition check_kern_pgdir :: "('a kmem_scheme, unit) kfun" where
  "check_kern_pgdir =
     kbind (kgets kern_pgdir) (\<lambda>pgdir.
     kbind (kfor (page_steps (ROUNDUP EXTPHYSMEM PGSIZE - IOPHYSMEM)) (\<lambda>k.
       check_map pgdir (IOPHYSMEM + k) (IOPHYSMEM + k) ''check_va2pa(pgdir, i) == i'')) (\<lambda>_.
     kbind (kgets (\<lambda>s. (of_nat (npages s) :: u32, pages_va s))) (\<lambda>(np, pva).
     kbind (kfor (page_steps (ROUNDUP (np * sizeof_PageInfo) PGSIZE)) (\<lambda>i.
       kbind (PADDR pva) (\<lambda>pa.
       check_map pgdir (UPAGES + i) (pa + i) ''check_va2pa(pgdir, UPAGES + i) == PADDR(pages) + i''))) (\<lambda>_.
     kbind (kfor (page_steps (np * PGSIZE)) (\<lambda>i.
       check_map pgdir (KERNBASE + i) i ''check_va2pa(pgdir, KERNBASE + i) == i'')) (\<lambda>_.
     kbind (kfor [0..<NCPU] (check_kstack pgdir)) (\<lambda>_.
     kbind (kfor [0..<NPDENTRIES] (check_pde pgdir)) (\<lambda>_.
     kbind (printk (''check_kern_pgdir() succeeded!'' @ nl) []) (\<lambda>_.
     kreturn ()))))))))"

section \<open>Insertion and removal\<close>

text \<open>The assertions of \<^verbatim>\<open>check_page\<close> have a few forms; all are about the kernel's directory.\<close>

definition ck_insert :: "nat \<Rightarrow> u32 \<Rightarrow> u32 \<Rightarrow> (int \<Rightarrow> bool) \<Rightarrow> string \<Rightarrow> ('a kmem_scheme, unit) kfun" where
  "ck_insert pp va perm P what =
     kbind (kgets kern_pgdir) (\<lambda>kp. kbind (page_insert kp pp va perm) (\<lambda>e. c_assert (P e) what))"

definition ck_remove :: "u32 \<Rightarrow> ('a kmem_scheme, unit) kfun" where
  "ck_remove va = kbind (kgets kern_pgdir) (\<lambda>kp. page_remove kp va)"

definition ck_map :: "u32 \<Rightarrow> u32 \<Rightarrow> string \<Rightarrow> ('a kmem_scheme, unit) kfun" where
  "ck_map va pa what = kbind (kgets kern_pgdir) (\<lambda>kp. check_map kp va pa what)"

definition ck_refs :: "nat \<Rightarrow> u16 \<Rightarrow> string \<Rightarrow> ('a kmem_scheme, unit) kfun" where
  "ck_refs pp n what = kbind (get_pp pp) (\<lambda>p. c_assert (pp_ref p = n) what)"

definition ck_walk :: "u32 \<Rightarrow> bool \<Rightarrow> ('a kmem_scheme, (nat \<times> nat) option) kfun" where
  "ck_walk va create = kbind (kgets kern_pgdir) (\<lambda>kp. pgdir_walk kp va create)"

definition ck_pte :: "u32 \<Rightarrow> ('a kmem_scheme, nat \<times> nat) kfun" where
  "ck_pte va = kbind (ck_walk va False) (\<lambda>r. case r of None \<Rightarrow> kfail NullDeref | Some pte \<Rightarrow> kreturn pte)"

definition ck_perm :: "u32 \<Rightarrow> (u32 \<Rightarrow> bool) \<Rightarrow> string \<Rightarrow> ('a kmem_scheme, unit) kfun" where
  "ck_perm va P what = kbind (ck_pte va) (\<lambda>pte. kbind (kread pte) (\<lambda>e. c_assert (P e) what))"

definition ck_pde :: "nat \<Rightarrow> (u32 \<Rightarrow> bool) \<Rightarrow> string \<Rightarrow> ('a kmem_scheme, unit) kfun" where
  "ck_pde i P what = kbind (kgets kern_pgdir) (\<lambda>kp. kbind (kread (kp, i)) (\<lambda>e. c_assert (P e) what))"

definition clear_pde :: "nat \<Rightarrow> ('a kmem_scheme, unit) kfun" where
  "clear_pde i = kbind (kgets kern_pgdir) (\<lambda>kp. kwrite (kp, i) 0)"

definition ck_table :: "u32 \<Rightarrow> ('a kmem_scheme, nat) kfun" where
  "ck_table va = kbind (kgets kern_pgdir) (\<lambda>kp. kbind (kread (kp, PDX va)) (\<lambda>e. KADDR_frame (PTE_ADDR e)))"

definition ck_realloc :: "nat \<Rightarrow> string \<Rightarrow> ('a kmem_scheme, unit) kfun" where
  "ck_realloc pp what = kbind (page_alloc 0) (\<lambda>r. c_assert (r = Some pp) what)"

definition check_page_insert :: "nat \<Rightarrow> nat \<Rightarrow> nat \<Rightarrow> ('a kmem_scheme, unit) kfun" where
  "check_page_insert pp0 pp1 pp2 =
     kbind (kgets kern_pgdir) (\<lambda>kp.
     kbind (kgets pte_slot) (\<lambda>ptep.
     kbind (page_lookup kp 0 (Some ptep)) (\<lambda>(r, _).
     kbind (c_assert (r = None) ''page_lookup(kern_pgdir, (void *) 0x0, &ptep) == NULL'') (\<lambda>_.
     kbind (ck_insert pp1 0 PTE_W (\<lambda>e. e < 0) ''page_insert(kern_pgdir, pp1, 0x0, PTE_W) < 0'') (\<lambda>_.
     kbind (page_free pp0) (\<lambda>_.
     kbind (ck_insert pp1 0 PTE_W (\<lambda>e. e = 0) ''page_insert(kern_pgdir, pp1, 0x0, PTE_W) == 0'') (\<lambda>_.
     kbind (ck_pde 0 (\<lambda>e. PTE_ADDR e = page2pa pp0) ''PTE_ADDR(kern_pgdir[0]) == page2pa(pp0)'') (\<lambda>_.
     kbind (ck_map 0 (page2pa pp1) ''check_va2pa(kern_pgdir, 0x0) == page2pa(pp1)'') (\<lambda>_.
     kbind (ck_refs pp1 1 ''pp1->pp_ref == 1'') (\<lambda>_.
     kbind (ck_refs pp0 1 ''pp0->pp_ref == 1'') (\<lambda>_.
     kbind (ck_insert pp2 PGSIZE PTE_W (\<lambda>e. e = 0) ''page_insert(kern_pgdir, pp2, (void*) PGSIZE, PTE_W) == 0'') (\<lambda>_.
     kbind (ck_map PGSIZE (page2pa pp2) ''check_va2pa(kern_pgdir, PGSIZE) == page2pa(pp2)'') (\<lambda>_.
     kbind (ck_refs pp2 1 ''pp2->pp_ref == 1'') (\<lambda>_.
     kbind no_more_pages (\<lambda>_.
     kbind (ck_insert pp2 PGSIZE PTE_W (\<lambda>e. e = 0) ''page_insert(kern_pgdir, pp2, (void*) PGSIZE, PTE_W) == 0'') (\<lambda>_.
     kbind (ck_map PGSIZE (page2pa pp2) ''check_va2pa(kern_pgdir, PGSIZE) == page2pa(pp2)'') (\<lambda>_.
     kbind (ck_refs pp2 1 ''pp2->pp_ref == 1'') (\<lambda>_.
     no_more_pages))))))))))))))))))"

definition check_page_perms :: "nat \<Rightarrow> nat \<Rightarrow> nat \<Rightarrow> ('a kmem_scheme, unit) kfun" where
  "check_page_perms pp0 pp1 pp2 =
     kbind (ck_table PGSIZE) (\<lambda>pt.
     kbind (ck_walk PGSIZE False) (\<lambda>r.
     kbind (c_assert (r = Some (pt, PTX PGSIZE)) ''pgdir_walk(kern_pgdir, (void*)PGSIZE, 0) == ptep+PTX(PGSIZE)'') (\<lambda>_.
     kbind (ck_insert pp2 PGSIZE (PTE_W OR PTE_U) (\<lambda>e. e = 0) ''page_insert(kern_pgdir, pp2, (void*) PGSIZE, PTE_W|PTE_U) == 0'') (\<lambda>_.
     kbind (ck_map PGSIZE (page2pa pp2) ''check_va2pa(kern_pgdir, PGSIZE) == page2pa(pp2)'') (\<lambda>_.
     kbind (ck_refs pp2 1 ''pp2->pp_ref == 1'') (\<lambda>_.
     kbind (ck_perm PGSIZE (\<lambda>e. e AND PTE_U \<noteq> 0) ''*pgdir_walk(kern_pgdir, (void*) PGSIZE, 0) & PTE_U'') (\<lambda>_.
     kbind (ck_pde 0 (\<lambda>e. e AND PTE_U \<noteq> 0) ''kern_pgdir[0] & PTE_U'') (\<lambda>_.
     kbind (ck_insert pp2 PGSIZE PTE_W (\<lambda>e. e = 0) ''page_insert(kern_pgdir, pp2, (void*) PGSIZE, PTE_W) == 0'') (\<lambda>_.
     kbind (ck_perm PGSIZE (\<lambda>e. e AND PTE_W \<noteq> 0) ''*pgdir_walk(kern_pgdir, (void*) PGSIZE, 0) & PTE_W'') (\<lambda>_.
     kbind (ck_perm PGSIZE (\<lambda>e. e AND PTE_U = 0) ''!(*pgdir_walk(kern_pgdir, (void*) PGSIZE, 0) & PTE_U)'') (\<lambda>_.
     kbind (ck_insert pp0 PTSIZE PTE_W (\<lambda>e. e < 0) ''page_insert(kern_pgdir, pp0, (void*) PTSIZE, PTE_W) < 0'') (\<lambda>_.
     kbind (ck_insert pp1 PGSIZE PTE_W (\<lambda>e. e = 0) ''page_insert(kern_pgdir, pp1, (void*) PGSIZE, PTE_W) == 0'') (\<lambda>_.
     kbind (ck_perm PGSIZE (\<lambda>e. e AND PTE_U = 0) ''!(*pgdir_walk(kern_pgdir, (void*) PGSIZE, 0) & PTE_U)'') (\<lambda>_.
     kbind (ck_map 0 (page2pa pp1) ''check_va2pa(kern_pgdir, 0) == page2pa(pp1)'') (\<lambda>_.
     kbind (ck_map PGSIZE (page2pa pp1) ''check_va2pa(kern_pgdir, PGSIZE) == page2pa(pp1)'') (\<lambda>_.
     kbind (ck_refs pp1 2 ''pp1->pp_ref == 2'') (\<lambda>_.
     kbind (ck_refs pp2 0 ''pp2->pp_ref == 0'') (\<lambda>_.
     ck_realloc pp2 ''(pp = page_alloc(0)) && pp == pp2''))))))))))))))))))"

definition check_page_remove :: "nat \<Rightarrow> nat \<Rightarrow> nat \<Rightarrow> ('a kmem_scheme, unit) kfun" where
  "check_page_remove pp0 pp1 pp2 =
     kbind (ck_remove 0) (\<lambda>_.
     kbind (ck_map 0 (NOT 0) ''check_va2pa(kern_pgdir, 0x0) == ~0'') (\<lambda>_.
     kbind (ck_map PGSIZE (page2pa pp1) ''check_va2pa(kern_pgdir, PGSIZE) == page2pa(pp1)'') (\<lambda>_.
     kbind (ck_refs pp1 1 ''pp1->pp_ref == 1'') (\<lambda>_.
     kbind (ck_refs pp2 0 ''pp2->pp_ref == 0'') (\<lambda>_.
     kbind (ck_insert pp1 PGSIZE 0 (\<lambda>e. e = 0) ''page_insert(kern_pgdir, pp1, (void*) PGSIZE, 0) == 0'') (\<lambda>_.
     kbind (get_pp pp1) (\<lambda>p.
     kbind (c_assert (pp_ref p \<noteq> 0) ''pp1->pp_ref'') (\<lambda>_.
     kbind (c_assert (pp_link p = None) ''pp1->pp_link == NULL'') (\<lambda>_.
     kbind (ck_remove PGSIZE) (\<lambda>_.
     kbind (ck_map 0 (NOT 0) ''check_va2pa(kern_pgdir, 0x0) == ~0'') (\<lambda>_.
     kbind (ck_map PGSIZE (NOT 0) ''check_va2pa(kern_pgdir, PGSIZE) == ~0'') (\<lambda>_.
     kbind (ck_refs pp1 0 ''pp1->pp_ref == 0'') (\<lambda>_.
     kbind (ck_refs pp2 0 ''pp2->pp_ref == 0'') (\<lambda>_.
     kbind (ck_realloc pp1 ''(pp = page_alloc(0)) && pp == pp1'') (\<lambda>_.
     kbind no_more_pages (\<lambda>_.
     kbind (ck_pde 0 (\<lambda>e. PTE_ADDR e = page2pa pp0) ''PTE_ADDR(kern_pgdir[0]) == page2pa(pp0)'') (\<lambda>_.
     kbind (clear_pde 0) (\<lambda>_.
     kbind (ck_refs pp0 1 ''pp0->pp_ref == 1'') (\<lambda>_.
     set_pp pp0 (\<lambda>p. p\<lparr>pp_ref := 0\<rparr>))))))))))))))))))))"

definition check_page_walk :: "nat \<Rightarrow> ('a kmem_scheme, unit) kfun" where
  "check_page_walk pp0 =
     (let va = PGSIZE * of_nat NPDENTRIES + PGSIZE in
     kbind (page_free pp0) (\<lambda>_.
     kbind (ck_walk va True) (\<lambda>ptep.
     kbind (ck_table va) (\<lambda>ptep1.
     kbind (c_assert (ptep = Some (ptep1, PTX va)) ''ptep == ptep1 + PTX(va)'') (\<lambda>_.
     kbind (clear_pde (PDX va)) (\<lambda>_.
     kbind (set_pp pp0 (\<lambda>p. p\<lparr>pp_ref := 0\<rparr>)) (\<lambda>_.
     kbind (page2kva pp0) (\<lambda>fr.
     kbind (memset_page fr 0xFF) (\<lambda>_.
     kbind (page_free pp0) (\<lambda>_.
     kbind (ck_walk 0 True) (\<lambda>_.
     kbind (page2kva pp0) (\<lambda>fr.
     kbind (kfor [0..<NPTENTRIES] (\<lambda>i.
       kbind (kread (fr, i)) (\<lambda>e. c_assert (e AND PTE_P = 0) ''(ptep[i] & PTE_P) == 0''))) (\<lambda>_.
     kbind (clear_pde 0) (\<lambda>_.
     set_pp pp0 (\<lambda>p. p\<lparr>pp_ref := 0\<rparr>)))))))))))))))"

definition check_mmio :: "('a kmem_scheme, unit) kfun" where
  "check_mmio =
     kbind (mmio_map_region 0 4097) (\<lambda>mm1.
     kbind (mmio_map_region 0 4096) (\<lambda>mm2.
     kbind (c_assert (mm1 \<ge> MMIOBASE \<and> mm1 + 8192 < MMIOLIM) ''mm1 >= MMIOBASE && mm1 + 8192 < MMIOLIM'') (\<lambda>_.
     kbind (c_assert (mm2 \<ge> MMIOBASE \<and> mm2 + 4096 < MMIOLIM) ''mm2 >= MMIOBASE && mm2 + 4096 < MMIOLIM'') (\<lambda>_.
     kbind (c_assert (mm1 mod PGSIZE = 0 \<and> mm2 mod PGSIZE = 0) ''mm1 % PGSIZE == 0 && mm2 % PGSIZE == 0'') (\<lambda>_.
     kbind (c_assert (mm1 + 8192 \<le> mm2) ''mm1 + 8192 <= mm2'') (\<lambda>_.
     kbind (ck_map mm1 0 ''check_va2pa(kern_pgdir, mm1) == 0'') (\<lambda>_.
     kbind (ck_map (mm1 + PGSIZE) PGSIZE ''check_va2pa(kern_pgdir, mm1+PGSIZE) == PGSIZE'') (\<lambda>_.
     kbind (ck_map mm2 0 ''check_va2pa(kern_pgdir, mm2) == 0'') (\<lambda>_.
     kbind (ck_map (mm2 + PGSIZE) (NOT 0) ''check_va2pa(kern_pgdir, mm2+PGSIZE) == ~0'') (\<lambda>_.
     kbind (ck_perm mm1 (\<lambda>e. e AND (PTE_W OR PTE_PWT OR PTE_PCD) \<noteq> 0)
              ''*pgdir_walk(kern_pgdir, (void*) mm1, 0) & (PTE_W|PTE_PWT|PTE_PCD)'') (\<lambda>_.
     kbind (ck_perm mm1 (\<lambda>e. e AND PTE_U = 0) ''!(*pgdir_walk(kern_pgdir, (void*) mm1, 0) & PTE_U)'') (\<lambda>_.
     kbind (ck_pte mm1) (\<lambda>e. kbind (kwrite e 0) (\<lambda>_.
     kbind (ck_pte (mm1 + PGSIZE)) (\<lambda>e. kbind (kwrite e 0) (\<lambda>_.
     kbind (ck_pte mm2) (\<lambda>e. kwrite e 0)))))))))))))))))"

definition check_page :: "('a kmem_scheme, unit) kfun" where
  "check_page =
     kbind alloc_three (\<lambda>(pp0, pp1, pp2).
     kbind (kgets page_free_list) (\<lambda>fl.
     kbind (kmodify (\<lambda>s. s\<lparr>page_free_list := None\<rparr>)) (\<lambda>_.
     kbind no_more_pages (\<lambda>_.
     kbind (check_page_insert pp0 pp1 pp2) (\<lambda>_.
     kbind (check_page_perms pp0 pp1 pp2) (\<lambda>_.
     kbind (check_page_remove pp0 pp1 pp2) (\<lambda>_.
     kbind (check_page_walk pp0) (\<lambda>_.
     kbind (kmodify (\<lambda>s. s\<lparr>page_free_list := fl\<rparr>)) (\<lambda>_.
     kbind (free_three (pp0, pp1, pp2)) (\<lambda>_.
     kbind check_mmio (\<lambda>_.
     kbind (printk (''check_page() succeeded!'' @ nl) []) (\<lambda>_.
     kreturn ()))))))))))))"

definition check_page_installed_pgdir :: "('a kmem_scheme, unit) kfun" where
  "check_page_installed_pgdir =
     kbind (ck_alloc 0 ''(pp0 = page_alloc(0))'') (\<lambda>pp0.
     kbind (ck_alloc 0 ''(pp1 = page_alloc(0))'') (\<lambda>pp1.
     kbind (ck_alloc 0 ''(pp2 = page_alloc(0))'') (\<lambda>pp2.
     kbind (page_free pp0) (\<lambda>_.
     kbind (page2kva pp1) (\<lambda>fr1.
     kbind (memset_page fr1 1) (\<lambda>_.
     kbind (page2kva pp2) (\<lambda>fr2.
     kbind (memset_page fr2 2) (\<lambda>_.
     kbind (ck_insert pp1 EXTPHYSMEM PTE_W (\<lambda>_. True) []) (\<lambda>_.
     kbind (ck_refs pp1 1 ''pp1->pp_ref == 1'') (\<lambda>_.
     kbind (vload32 EXTPHYSMEM) (\<lambda>v.
     kbind (c_assert (v = 0x01010101) ''*(uint32_t *)EXTPHYSMEM == 0x01010101U'') (\<lambda>_.
     kbind (ck_insert pp2 EXTPHYSMEM PTE_W (\<lambda>_. True) []) (\<lambda>_.
     kbind (vload32 EXTPHYSMEM) (\<lambda>v.
     kbind (c_assert (v = 0x02020202) ''*(uint32_t *)EXTPHYSMEM == 0x02020202U'') (\<lambda>_.
     kbind (ck_refs pp2 1 ''pp2->pp_ref == 1'') (\<lambda>_.
     kbind (ck_refs pp1 0 ''pp1->pp_ref == 0'') (\<lambda>_.
     kbind (vstore32 EXTPHYSMEM 0x03030303) (\<lambda>_.
     kbind (page2kva pp2) (\<lambda>fr2.
     kbind (kread (fr2, 0)) (\<lambda>v.
     kbind (c_assert (v = 0x03030303) ''*(uint32_t *)page2kva(pp2) == 0x03030303U'') (\<lambda>_.
     kbind (ck_remove EXTPHYSMEM) (\<lambda>_.
     kbind (ck_refs pp2 0 ''pp2->pp_ref == 0'') (\<lambda>_.
     kbind (printk (''check_page_installed_pgdir() succeeded!'' @ nl) []) (\<lambda>_.
     kreturn ()))))))))))))))))))))))))"

end
