(* ===== verification/Gates.thy ===== *)
theory Gates
  imports PageAlloc
begin

text \<open>
  Segment descriptors, the global descriptor table, gate descriptors and the interrupt descriptor
  table (\<^verbatim>\<open>inc/mmu.h\<close>, \<^verbatim>\<open>kernel/task.c\<close>, \<^verbatim>\<open>kernel/trap.c\<close>). Bit fields are words of their widths. A
  handler (a function pointer of the source) is a constructor of \<open>handler\<close>, an assembly entry
  point one of \<open>isr\<close>; \<open>isr_addr\<close> is the address the linker gives it.
\<close>

section \<open>Segment descriptors\<close>

record Segdesc =
  sd_lim_15_0 :: "16 word"
  sd_base_15_0 :: "16 word"
  sd_base_23_16 :: "8 word"
  sd_type :: "4 word"
  sd_s :: "1 word"
  sd_dpl :: "2 word"
  sd_p :: "1 word"
  sd_lim_19_16 :: "4 word"
  sd_avl :: "1 word"
  sd_rsv1 :: "1 word"
  sd_db :: "1 word"
  sd_g :: "1 word"
  sd_base_31_24 :: "8 word"

definition STA_X :: "4 word" where "STA_X = 0x8"
definition STA_W :: "4 word" where "STA_W = 0x2"
definition STA_R :: "4 word" where "STA_R = 0x2"
definition STS_T32A :: "4 word" where "STS_T32A = 0x9"
definition STS_IG32 :: "4 word" where "STS_IG32 = 0xE"
definition STS_TG32 :: "4 word" where "STS_TG32 = 0xF"

definition SEG_NULL :: Segdesc where
  "SEG_NULL = \<lparr>sd_lim_15_0 = 0, sd_base_15_0 = 0, sd_base_23_16 = 0, sd_type = 0, sd_s = 0,
     sd_dpl = 0, sd_p = 0, sd_lim_19_16 = 0, sd_avl = 0, sd_rsv1 = 0, sd_db = 0, sd_g = 0,
     sd_base_31_24 = 0\<rparr>"

definition SEG :: "4 word \<Rightarrow> u32 \<Rightarrow> u32 \<Rightarrow> 2 word \<Rightarrow> Segdesc" where
  "SEG type base lim dpl =
     \<lparr>sd_lim_15_0 = ucast (drop_bit 12 lim AND 0xFFFF), sd_base_15_0 = ucast (base AND 0xFFFF),
      sd_base_23_16 = ucast (drop_bit 16 base AND 0xFF), sd_type = type, sd_s = 1, sd_dpl = dpl,
      sd_p = 1, sd_lim_19_16 = ucast (drop_bit 28 lim), sd_avl = 0, sd_rsv1 = 0, sd_db = 1,
      sd_g = 1, sd_base_31_24 = ucast (drop_bit 24 base)\<rparr>"

definition SEG16 :: "4 word \<Rightarrow> u32 \<Rightarrow> u32 \<Rightarrow> 2 word \<Rightarrow> Segdesc" where
  "SEG16 type base lim dpl =
     \<lparr>sd_lim_15_0 = ucast (lim AND 0xFFFF), sd_base_15_0 = ucast (base AND 0xFFFF),
      sd_base_23_16 = ucast (drop_bit 16 base AND 0xFF), sd_type = type, sd_s = 1, sd_dpl = dpl,
      sd_p = 1, sd_lim_19_16 = ucast (drop_bit 16 lim), sd_avl = 0, sd_rsv1 = 0, sd_db = 1,
      sd_g = 0, sd_base_31_24 = ucast (drop_bit 24 base)\<rparr>"

text \<open>The base address, the limit in bytes and the privilege the processor reads from a descriptor.\<close>

definition seg_base :: "Segdesc \<Rightarrow> u32" where
  "seg_base d = push_bit 24 (ucast (sd_base_31_24 d)) OR push_bit 16 (ucast (sd_base_23_16 d)) OR
     ucast (sd_base_15_0 d)"

definition seg_limit :: "Segdesc \<Rightarrow> u32" where
  "seg_limit d = (let l = push_bit 16 (ucast (sd_lim_19_16 d)) OR ucast (sd_lim_15_0 d)
     in if sd_g d = 1 then push_bit 12 l OR 0xFFF else l)"

definition gdt_init :: "Segdesc list" where
  "gdt_init =
     [SEG_NULL,
      SEG (STA_X OR STA_R) 0 0xFFFFFFFF 0,
      SEG STA_W 0 0xFFFFFFFF 0,
      SEG (STA_X OR STA_R) 0 0xFFFFFFFF 3,
      SEG STA_W 0 0xFFFFFFFF 3] @ replicate 8 SEG_NULL"

section \<open>Gates\<close>

record Gatedesc =
  gd_off_15_0 :: "16 word"
  gd_sel :: "16 word"
  gd_args :: "5 word"
  gd_rsv1 :: "3 word"
  gd_type :: "4 word"
  gd_s :: "1 word"
  gd_dpl :: "2 word"
  gd_p :: "1 word"
  gd_off_31_16 :: "16 word"

definition zero_gate :: Gatedesc where
  "zero_gate = \<lparr>gd_off_15_0 = 0, gd_sel = 0, gd_args = 0, gd_rsv1 = 0, gd_type = 0, gd_s = 0,
     gd_dpl = 0, gd_p = 0, gd_off_31_16 = 0\<rparr>"

definition SETGATE :: "bool \<Rightarrow> u32 \<Rightarrow> u32 \<Rightarrow> 2 word \<Rightarrow> Gatedesc" where
  "SETGATE istrap sel off dpl =
     \<lparr>gd_off_15_0 = ucast (off AND 0xFFFF), gd_sel = ucast sel, gd_args = 0, gd_rsv1 = 0,
      gd_type = (if istrap then STS_TG32 else STS_IG32), gd_s = 0, gd_dpl = dpl, gd_p = 1,
      gd_off_31_16 = ucast (drop_bit 16 off)\<rparr>"

definition gate_off :: "Gatedesc \<Rightarrow> u32" where
  "gate_off g = push_bit 16 (ucast (gd_off_31_16 g)) OR ucast (gd_off_15_0 g)"

section \<open>Trap numbers, handlers and entry points\<close>

definition T_STACK :: nat where "T_STACK = 12"
definition T_GPFLT :: nat where "T_GPFLT = 13"
definition T_PGFLT :: nat where "T_PGFLT = 14"
definition T_SYSCALL :: nat where "T_SYSCALL = 48"
definition T_DEFAULT :: nat where "T_DEFAULT = 500"

datatype handler = H_page_fault | H_kbd | H_timer | H_syscall

datatype isr = Default_ISR | GPFLT | STACK_ISR | PGFLT | KBD_Input | TIM_ISR | SYSCALL

record kgates = kmem +
  idt :: "Gatedesc list"
  trap_hnd :: "handler option list"
  isr_addr :: "isr \<Rightarrow> u32"
  idtr_loaded :: bool

definition trapname :: "int \<Rightarrow> string" where
  "trapname trapno =
     (let excnames = [''Divide error'', ''Debug'', ''Non-Maskable Interrupt'', ''Breakpoint'',
        ''Overflow'', ''BOUND Range Exceeded'', ''Invalid Opcode'', ''Device Not Available'',
        ''Double Fault'', ''Coprocessor Segment Overrun'', ''Invalid TSS'', ''Segment Not Present'',
        ''Stack Fault'', ''General Protection'', ''Page Fault'', ''(unknown trap)'',
        ''x87 FPU Floating-Point Error'', ''Alignment Check'', ''Machine-Check'',
        ''SIMD Floating-Point Exception''] in
      if 0 \<le> trapno \<and> trapno < int (length excnames) then excnames ! nat trapno
      else if trapno = int T_SYSCALL then ''System call''
      else if int IRQ_OFFSET \<le> trapno \<and> trapno < int IRQ_OFFSET + 16 then ''Hardware Interrupt''
      else ''(unknown trap)'')"

definition set_idt :: "nat \<Rightarrow> Gatedesc \<Rightarrow> ('a kgates_scheme, unit) kfun" where
  "set_idt i g = (\<lambda>s. if i < length (idt s) then Inr ((), s\<lparr>idt := (idt s)[i := g]\<rparr>) else Inl BadIndex)"

definition set_trap_hnd :: "nat \<Rightarrow> handler option \<Rightarrow> ('a kgates_scheme, unit) kfun" where
  "set_trap_hnd i h =
     (\<lambda>s. if i < length (trap_hnd s) then Inr ((), s\<lparr>trap_hnd := (trap_hnd s)[i := h]\<rparr>) else Inl BadIndex)"

definition register_handler :: "int \<Rightarrow> handler \<Rightarrow> isr \<Rightarrow> bool \<Rightarrow> 2 word \<Rightarrow> ('a kgates_scheme, unit) kfun" where
  "register_handler trapno hnd trap_entry isTrap dpl =
     kbind (kgets isr_addr) (\<lambda>addr.
     kwhen (0 \<le> trapno \<and> trapno < 256 \<and> addr trap_entry \<noteq> 0)
       (kbind (set_trap_hnd (nat trapno) (Some hnd)) (\<lambda>_.
        set_idt (nat trapno) (SETGATE isTrap GD_KT (addr trap_entry) dpl))))"

definition trap_init :: "('a kgates_scheme, unit) kfun" where
  "trap_init =
     kbind (kgets isr_addr) (\<lambda>addr.
     kbind (kfor [0..<256] (\<lambda>i.
       kbind (set_idt i (SETGATE True GD_KT (addr Default_ISR) 0)) (\<lambda>_. set_trap_hnd i None))) (\<lambda>_.
     kbind (set_idt T_GPFLT (SETGATE True GD_KT (addr GPFLT) 0)) (\<lambda>_.
     kbind (set_idt T_STACK (SETGATE True GD_KT (addr STACK_ISR) 0)) (\<lambda>_.
     kbind (register_handler (int T_PGFLT) H_page_fault PGFLT True 0) (\<lambda>_.
     kmodify (\<lambda>s. s\<lparr>idtr_loaded := True\<rparr>))))))"

section \<open>Descriptors hold what they were built from\<close>

lemma seg_base_split: fixes base :: u32
  shows "push_bit 24 (ucast (ucast (drop_bit 24 base) :: 8 word)) OR
    push_bit 16 (ucast (ucast (drop_bit 16 base AND 0xFF) :: 8 word)) OR
    ucast (ucast (base AND 0xFFFF) :: 16 word) = base" (is "?l = _")
proof (rule bit_eqI)
  fix n
  assume "possible_bit TYPE(u32) n"
  then have "n < 32" by simp
  have m: "(0xFF :: u32) = mask 8" "(0xFFFF :: u32) = mask 16" by (simp_all add: mask_eq_exp_minus_1)
  consider "n < 16" | "16 \<le> n" "n < 24" | "24 \<le> n" by linarith
  then show "bit ?l n = bit base n"
    using \<open>n < 32\<close> unfolding m by cases (auto simp: bit_simps)
qed

lemma seg_base_SEG: "seg_base (SEG type base lim dpl) = base"
  by (simp add: seg_base_def SEG_def seg_base_split)

lemma seg_base_SEG16: "seg_base (SEG16 type base lim dpl) = base"
  by (simp add: seg_base_def SEG16_def seg_base_split)

lemma gate_off_SETGATE: "gate_off (SETGATE istrap sel off dpl) = off"
proof (rule bit_eqI)
  fix n
  assume "possible_bit TYPE(u32) n"
  then have "n < 32" by simp
  have m: "(0xFFFF :: u32) = mask 16" by (simp add: mask_eq_exp_minus_1)
  consider "n < 16" | "16 \<le> n" by linarith
  then show "bit (gate_off (SETGATE istrap sel off dpl)) n = bit off n"
    using \<open>n < 32\<close> unfolding m gate_off_def SETGATE_def by cases (auto simp: bit_simps)
qed

lemma SETGATE_sel [simp]:
  "gd_dpl (SETGATE istrap sel off dpl) = dpl" "gd_p (SETGATE istrap sel off dpl) = 1"
  "gd_sel (SETGATE istrap sel off dpl) = ucast sel"
  "gd_type (SETGATE istrap sel off dpl) = (if istrap then STS_TG32 else STS_IG32)"
  by (simp_all add: SETGATE_def)

section \<open>The tables\<close>

definition gates_ok :: "'a kgates_scheme \<Rightarrow> bool" where
  "gates_ok s \<longleftrightarrow> length (idt s) = 256 \<and> length (trap_hnd s) = 256 \<and> (\<forall>e. isr_addr s e \<noteq> 0)"

lemma register_handler_ok:
  assumes "gates_ok s" and "n < 256"
  shows "register_handler (int n) h e t d s = Inr ((), s\<lparr>trap_hnd := (trap_hnd s)[n := Some h],
    idt := (idt s)[n := SETGATE t GD_KT (isr_addr s e) d]\<rparr>)"
  using assms
  by (simp add: register_handler_def kbind_apply kwhen_apply set_trap_hnd_def set_idt_def gates_ok_def)

lemma register_handler_gates_ok:
  "gates_ok s \<Longrightarrow> gates_ok (s\<lparr>trap_hnd := (trap_hnd s)[n := h], idt := (idt s)[m := g]\<rparr>)"
  by (simp add: gates_ok_def)

lemma update_prefix:
  "n < length xs \<Longrightarrow> (replicate n v @ drop n xs)[n := v] = replicate (Suc n) v @ drop (Suc n) xs"
  by (simp add: list_update_append Cons_nth_drop_Suc [symmetric] replicate_append_same)

lemma trap_init_loop:
  assumes "n \<le> length (idt s)" and "n \<le> length (trap_hnd s)"
  shows "kfor [0..<n] (\<lambda>i. kbind (set_idt i g) (\<lambda>_. set_trap_hnd i h)) s =
    Inr ((), s\<lparr>idt := replicate n g @ drop n (idt s), trap_hnd := replicate n h @ drop n (trap_hnd s)\<rparr>)"
  using assms
proof (induction n)
  case (Suc n)
  then show ?case
    by (simp add: kfor_append kbind_apply set_idt_def set_trap_hnd_def update_prefix [symmetric]
        del: replicate_Suc drop_Suc)
qed simp

lemma trap_init_ok:
  assumes "gates_ok s"
  shows "trap_init s = Inr ((), s\<lparr>
    trap_hnd := (replicate 256 None)[T_PGFLT := Some H_page_fault],
    idt := (replicate 256 (SETGATE True GD_KT (isr_addr s Default_ISR) 0))
      [T_GPFLT := SETGATE True GD_KT (isr_addr s GPFLT) 0,
       T_STACK := SETGATE True GD_KT (isr_addr s STACK_ISR) 0,
       T_PGFLT := SETGATE True GD_KT (isr_addr s PGFLT) 0],
    idtr_loaded := True\<rparr>)"
proof -
  have len: "256 \<le> length (idt s)" "256 \<le> length (trap_hnd s)"
    "drop 256 (idt s) = []" "drop 256 (trap_hnd s) = []"
    using assms by (simp_all add: gates_ok_def)
  let ?d = "SETGATE True GD_KT (isr_addr s Default_ISR) 0"
  let ?t = "s\<lparr>trap_hnd := replicate 256 None,
     idt := (replicate 256 ?d)[T_GPFLT := SETGATE True GD_KT (isr_addr s GPFLT) 0,
       T_STACK := SETGATE True GD_KT (isr_addr s STACK_ISR) 0]\<rparr>"
  have t: "gates_ok ?t" using assms by (simp add: gates_ok_def)
  have "T_PGFLT < 256" by (simp add: T_PGFLT_def)
  note reg = register_handler_ok [OF t this, of H_page_fault PGFLT True 0]
  show ?thesis
    unfolding trap_init_def
    using reg len trap_init_loop [OF len(1,2), of ?d None]
    by (simp add: kbind_apply set_idt_def T_GPFLT_def T_STACK_def del: upt_rec_numeral)
qed

end
