(* ===== verification/Kbd.thy ===== *)
theory Kbd
  imports Gates
begin

text \<open>
  The keyboard driver and the console input buffer (\<^verbatim>\<open>kernel/kbd.c\<close>). The keyboard controller is
  the list \<open>kbq\<close> of bytes it has pending: the status port shows whether there is one, reading the
  data port takes the first, and with none pending it returns \<open>kb_idle\<close>. No byte arrives while the
  driver runs, so its loop makes at most one call more than there are bytes.
\<close>

section \<open>Key maps\<close>

definition SHIFT :: u32 where "SHIFT = 0x01"
definition CTL :: u32 where "CTL = 0x02"
definition ALT :: u32 where "ALT = 0x04"
definition CAPSLOCK :: u32 where "CAPSLOCK = 0x08"
definition NUMLOCK :: u32 where "NUMLOCK = 0x10"
definition SCROLLLOCK :: u32 where "SCROLLLOCK = 0x20"

definition KEY_HOME :: u8 where "KEY_HOME = 0xE0"
definition KEY_END :: u8 where "KEY_END = 0xE1"
definition KEY_UP :: u8 where "KEY_UP = 0xE2"
definition KEY_DN :: u8 where "KEY_DN = 0xE3"
definition KEY_LF :: u8 where "KEY_LF = 0xE4"
definition KEY_RT :: u8 where "KEY_RT = 0xE5"
definition KEY_PGUP :: u8 where "KEY_PGUP = 0xE6"
definition KEY_PGDN :: u8 where "KEY_PGDN = 0xE7"
definition KEY_INS :: u8 where "KEY_INS = 0xE8"
definition KEY_DEL :: u8 where "KEY_DEL = 0xE9"

lemmas key_defs = SHIFT_def CTL_def ALT_def CAPSLOCK_def NUMLOCK_def SCROLLLOCK_def KEY_HOME_def
  KEY_END_def KEY_UP_def KEY_DN_def KEY_LF_def KEY_RT_def KEY_PGUP_def KEY_PGDN_def KEY_INS_def
  KEY_DEL_def

definition asc :: "string \<Rightarrow> u8 list" where
  "asc = map of_char"

definition shiftcode :: "u8 \<Rightarrow> u32" where
  "shiftcode d =
     (if d = 0x1D then CTL else if d = 0x2A then SHIFT else if d = 0x36 then SHIFT
      else if d = 0x38 then ALT else if d = 0x9D then CTL else if d = 0xB8 then ALT else 0)"

definition togglecode :: "u8 \<Rightarrow> u32" where
  "togglecode d =
     (if d = 0x3A then CAPSLOCK else if d = 0x45 then NUMLOCK else if d = 0x46 then SCROLLLOCK else 0)"

text \<open>The designated initialisers shared by the tables for the normal and the shifted keys.\<close>

definition keypad :: "u8 \<Rightarrow> u8" where
  "keypad d =
     (if d = 0xC7 then KEY_HOME else if d = 0x9C then 10 else if d = 0xB5 then 0x2F
      else if d = 0xC8 then KEY_UP else if d = 0xC9 then KEY_PGUP else if d = 0xCB then KEY_LF
      else if d = 0xCD then KEY_RT else if d = 0xCF then KEY_END else if d = 0xD0 then KEY_DN
      else if d = 0xD1 then KEY_PGDN else if d = 0xD2 then KEY_INS else if d = 0xD3 then KEY_DEL
      else 0)"

definition normalmap_rows :: "u8 list" where
  "normalmap_rows =
     [0, 0x1B] @ asc ''1234567890-='' @ [8, 9] @ asc ''qwertyuiop[]'' @ [10, 0] @
     asc ''asdfghjkl;'' @ [0x27, 0x60, 0, 0x5C] @ asc ''zxcvbnm,./'' @ [0] @ asc ''*'' @
     [0] @ asc '' '' @ replicate 13 0 @ asc ''789-456+1230.'' @ [0, 0, 0, 0]"

definition shiftmap_rows :: "u8 list" where
  "shiftmap_rows =
     [0, 0x1B] @ asc ''!@#$%^&*()_+'' @ [8, 9] @ asc ''QWERTYUIOP{}'' @ [10, 0] @
     asc ''ASDFGHJKL:'' @ [0x22, 0x7E, 0, 0x7C] @ asc ''ZXCVBNM<>?'' @ [0] @ asc ''*'' @
     [0] @ asc '' '' @ replicate 13 0 @ asc ''789-456+1230.'' @ [0, 0, 0, 0]"

definition ctl :: "string \<Rightarrow> u8 list" where
  "ctl cs = map (\<lambda>c. of_char c - 0x40) cs"

definition ctlmap_rows :: "u8 list" where
  "ctlmap_rows =
     replicate 16 0 @ ctl ''QWERTYUIOP'' @ [0, 0, 13, 0] @ ctl ''ASDFGHJKL'' @ [0, 0, 0, 0] @
     [0x5C - 0x40] @ ctl ''ZXCVBNM'' @ [0, 0] @ ctl ''/'' @ [0, 0]"

definition normalmap :: "u8 \<Rightarrow> u8" where
  "normalmap d = (if unat d < length normalmap_rows then normalmap_rows ! unat d else keypad d)"

definition shiftmap :: "u8 \<Rightarrow> u8" where
  "shiftmap d = (if unat d < length shiftmap_rows then shiftmap_rows ! unat d else keypad d)"

definition ctlmap :: "u8 \<Rightarrow> u8" where
  "ctlmap d =
     (if unat d < length ctlmap_rows then ctlmap_rows ! unat d
      else if d = 0x97 then KEY_HOME else if d = 0xB5 then 0x2F - 0x40
      else if d = 0xC8 then KEY_UP else if d = 0xC9 then KEY_PGUP else if d = 0xCB then KEY_LF
      else if d = 0xCD then KEY_RT else if d = 0xCF then KEY_END else if d = 0xD0 then KEY_DN
      else if d = 0xD1 then KEY_PGDN else if d = 0xD2 then KEY_INS else if d = 0xD3 then KEY_DEL
      else 0)"

definition charcode :: "u32 \<Rightarrow> u8 \<Rightarrow> u8" where
  "charcode i = (if i = 0 then normalmap else if i = 1 then shiftmap else ctlmap)"

section \<open>The driver\<close>

definition CONSBUFSIZE :: nat where "CONSBUFSIZE = 512"

record kkbd = kgates +
  kbq :: "u8 list"
  kb_idle :: u8
  kbd_shift :: u32
  cons_buf :: "u8 list"
  cons_rpos :: nat
  cons_wpos :: nat

definition kbd_status :: "('a kkbd_scheme, u8) kfun" where
  "kbd_status = kgets (\<lambda>s. if kbq s = [] then 0 else 1)"

definition kbd_data :: "('a kkbd_scheme, u8) kfun" where
  "kbd_data = (\<lambda>s. case kbq s of [] \<Rightarrow> Inr (kb_idle s, s) | d # q \<Rightarrow> Inr (d, s\<lparr>kbq := q\<rparr>))"

definition capslock_swap :: "int \<Rightarrow> int" where
  "capslock_swap c =
     (if 0x61 \<le> c \<and> c \<le> 0x7A then c + (0x41 - 0x61)
      else if 0x41 \<le> c \<and> c \<le> 0x5A then c + (0x61 - 0x41) else c)"

definition key_char :: "u32 \<Rightarrow> u8 \<Rightarrow> int" where
  "key_char sh d =
     (let c = uint (charcode (sh AND (CTL OR SHIFT)) d)
      in if sh AND CAPSLOCK \<noteq> 0 then capslock_swap c else c)"

text \<open>The part of \<^verbatim>\<open>kbd_proc_data\<close> after the scan code has been read and found to be a key press.\<close>

definition kbd_key :: "u8 \<Rightarrow> ('a kkbd_scheme, int) kfun" where
  "kbd_key d =
     kbind (kmodify (\<lambda>s. s\<lparr>kbd_shift := kbd_shift s OR shiftcode d\<rparr>)) (\<lambda>_.
     kbind (kmodify (\<lambda>s. s\<lparr>kbd_shift := kbd_shift s XOR togglecode d\<rparr>)) (\<lambda>_.
     kbind (kgets kbd_shift) (\<lambda>sh.
     let c = key_char sh d in
     kbind (kwhen (NOT sh AND (CTL OR ALT) = 0 \<and> c = uint KEY_DEL)
       (kbind (printk (''Rebooting!'' @ nl) []) (\<lambda>_. outb 0x92 0x3))) (\<lambda>_.
     kreturn c))))"

definition kbd_proc_data :: "('a kkbd_scheme, int) kfun" where
  "kbd_proc_data =
     kbind kbd_status (\<lambda>st.
     if st AND 1 = 0 then kreturn (- 1)
     else
       kbind kbd_data (\<lambda>d.
       if d = 0xE0 then
         kbind kbd_data (\<lambda>d.
         if d AND 0x80 \<noteq> 0 then kreturn 0 else kbd_key (d OR 0x80))
       else if d AND 0x80 \<noteq> 0 then
         kbind (kmodify (\<lambda>s. s\<lparr>kbd_shift := kbd_shift s AND NOT (shiftcode (d AND 0x7F))\<rparr>)) (\<lambda>_.
         kreturn 0)
       else kbd_key d))"

definition cons_put :: "u8 \<Rightarrow> ('a kkbd_scheme, unit) kfun" where
  "cons_put c = (\<lambda>s.
     if cons_wpos s < length (cons_buf s) then
       Inr ((), s\<lparr>cons_buf := (cons_buf s)[cons_wpos s := c],
                  cons_wpos := (if cons_wpos s + 1 = CONSBUFSIZE then 0 else cons_wpos s + 1)\<rparr>)
     else Inl BadIndex)"

text \<open>\<open>n\<close> bounds the calls of \<open>proc\<close>; exhausting it would be a handler that never returns.\<close>

fun cons_intr :: "nat \<Rightarrow> ('a kkbd_scheme, int) kfun \<Rightarrow> ('a kkbd_scheme, unit) kfun" where
  "cons_intr 0 proc = kfail Hang"
| "cons_intr (Suc n) proc =
     kbind proc (\<lambda>c.
     if c = - 1 then kreturn ()
     else if c = 0 then cons_intr n proc
     else cons_put (of_int c))"

definition cons_getc :: "('a kkbd_scheme, int) kfun" where
  "cons_getc = (\<lambda>s.
     if cons_rpos s \<noteq> cons_wpos s then
       if cons_rpos s < length (cons_buf s) then
         Inr (uint (cons_buf s ! cons_rpos s),
           s\<lparr>cons_rpos := (if cons_rpos s + 1 = CONSBUFSIZE then 0 else cons_rpos s + 1)\<rparr>)
       else Inl BadIndex
     else Inr (0, s))"

definition kbd_intr :: "('a kkbd_scheme, unit) kfun" where
  "kbd_intr = (\<lambda>s. cons_intr (Suc (length (kbq s))) kbd_proc_data s)"

definition kbd_init :: "('a kkbd_scheme, unit) kfun" where
  "kbd_init =
     kbind kbd_intr (\<lambda>_.
     kbind (irq_enable IRQ_KBD) (\<lambda>_.
     register_handler (int IRQ_OFFSET + int IRQ_KBD) H_kbd KBD_Input False 0))"

definition k_getc :: "('a kkbd_scheme, int) kfun" where
  "k_getc = cons_getc"

section \<open>The console buffer as a bounded queue\<close>

text \<open>
  What a reader and a writer of a bounded queue rely on. A value is read as \<open>val x\<close>; \<open>none\<close> says
  that there is nothing to read.
\<close>

locale bounded_fifo =
  fixes inv :: "'s \<Rightarrow> bool"
    and queue :: "'s \<Rightarrow> 'x list"
    and cap :: nat
    and put :: "'x \<Rightarrow> ('s, unit) kfun"
    and get :: "('s, 'r) kfun"
    and val :: "'x \<Rightarrow> 'r"
    and none :: 'r
  assumes put_ok: "inv s \<Longrightarrow> length (queue s) < cap \<Longrightarrow>
      \<exists>t. put x s = Inr ((), t) \<and> inv t \<and> queue t = queue s @ [x]"
    and get_empty: "inv s \<Longrightarrow> queue s = [] \<Longrightarrow> get s = Inr (none, s)"
    and get_first: "inv s \<Longrightarrow> queue s = x # xs \<Longrightarrow>
      \<exists>t. get s = Inr (val x, t) \<and> inv t \<and> queue t = xs"

fun get_many :: "('s, 'r) kfun \<Rightarrow> nat \<Rightarrow> ('s, 'r list) kfun" where
  "get_many g 0 = kreturn []"
| "get_many g (Suc n) = kbind g (\<lambda>x. kbind (get_many g n) (\<lambda>xs. kreturn (x # xs)))"

context bounded_fifo
begin

lemma put_all:
  "inv s \<Longrightarrow> length (queue s) + length xs \<le> cap \<Longrightarrow>
    \<exists>t. kfor xs put s = Inr ((), t) \<and> inv t \<and> queue t = queue s @ xs"
proof (induction xs arbitrary: s)
  case (Cons x xs)
  then have "length (queue s) < cap" by simp
  from put_ok [OF Cons.prems(1) this, of x] obtain t where
    t: "put x s = Inr ((), t)" "inv t" "queue t = queue s @ [x]" by blast
  with Cons.IH [of t] Cons.prems(2) obtain u where
    "kfor xs put t = Inr ((), u)" "inv u" "queue u = queue t @ xs" by auto
  with t show ?case by (auto simp: kbind_apply)
qed simp

lemma get_all:
  "inv s \<Longrightarrow> \<exists>t. get_many get (length (queue s) + n) s =
    Inr (map val (queue s) @ replicate n none, t) \<and> inv t \<and> queue t = []"
proof (induction "queue s" arbitrary: s)
  case Nil
  then have "get_many get n s = Inr (replicate n none, s)"
    by (induction n) (auto simp: kbind_apply get_empty)
  with Nil show ?case by (intro exI [of _ s]) simp
next
  case (Cons x xs)
  from get_first [OF Cons.prems Cons.hyps(2) [symmetric]] obtain t where
    t: "get s = Inr (val x, t)" "inv t" "queue t = xs" by blast
  from Cons.hyps(1) [OF t(3) [symmetric] t(2)] obtain u where
    "get_many get (length xs + n) t = Inr (map val xs @ replicate n none, u)" "inv u" "queue u = []"
    unfolding t(3) by blast
  with t(1) Cons.hyps(2) [symmetric] show ?case by (auto simp: kbind_apply)
qed

lemma put_get:
  assumes "inv s" and "queue s = []" and "length xs \<le> cap"
  shows "\<exists>t. kbind (kfor xs put) (\<lambda>_. get_many get (length xs + n)) s =
    Inr (map val xs @ replicate n none, t) \<and> inv t \<and> queue t = []"
proof -
  from put_all [of s xs] assms obtain t where
    t: "kfor xs put s = Inr ((), t)" "inv t" "queue t = xs" by auto
  from get_all [OF t(2), of n] t show ?thesis by (auto simp: kbind_apply)
qed

end

definition cons_inv :: "'a kkbd_scheme \<Rightarrow> bool" where
  "cons_inv s \<longleftrightarrow> length (cons_buf s) = CONSBUFSIZE \<and> cons_rpos s < CONSBUFSIZE \<and> cons_wpos s < CONSBUFSIZE"

definition cons_count :: "'a kkbd_scheme \<Rightarrow> nat" where
  "cons_count s = (cons_wpos s + CONSBUFSIZE - cons_rpos s) mod CONSBUFSIZE"

text \<open>The bytes between the two positions, around the end of the buffer.\<close>

definition cons_queue :: "'a kkbd_scheme \<Rightarrow> u8 list" where
  "cons_queue s = map (\<lambda>i. cons_buf s ! ((cons_rpos s + i) mod CONSBUFSIZE)) [0..<cons_count s]"

lemma ring_count:
  fixes r w :: nat
  assumes "r < 512" and "w < 512"
  shows "(w + 512 - r) mod 512 = (if r \<le> w then w - r else w + 512 - r)"
proof (cases "r \<le> w")
  case True
  then have "w + 512 - r = (w - r) + 512" by simp
  then have "(w + 512 - r) mod 512 = (w - r) mod 512" by (simp only: mod_add_self2)
  with True assms show ?thesis by simp
qed (use assms in simp)

lemma ring_distance:
  fixes r w :: nat
  assumes "r < 512" and "w < 512"
  shows "(r + (w + 512 - r) mod 512) mod 512 = w" and "(w + 512 - r) mod 512 = 0 \<longleftrightarrow> r = w"
  unfolding ring_count [OF assms] using assms by (auto simp: mod_if)

lemma ring_next:
  fixes r w :: nat
  assumes r: "r < 512" and w: "w < 512"
  shows "((if w + 1 = 512 then 0 else w + 1) + 512 - r) mod 512 =
      (if (w + 512 - r) mod 512 = 511 then 0 else Suc ((w + 512 - r) mod 512))"
    and "r \<noteq> w \<Longrightarrow> (w + 512 - (if r + 1 = 512 then 0 else r + 1)) mod 512 = (w + 512 - r) mod 512 - 1"
proof -
  have w': "(if w + 1 = 512 then 0 else w + 1) < 512" using w by simp
  show "((if w + 1 = 512 then 0 else w + 1) + 512 - r) mod 512 =
      (if (w + 512 - r) mod 512 = 511 then 0 else Suc ((w + 512 - r) mod 512))"
    unfolding ring_count [OF r w'] ring_count [OF r w] using r w by auto
  have r': "(if r + 1 = 512 then 0 else r + 1) < 512" using r by simp
  show "r \<noteq> w \<Longrightarrow> (w + 512 - (if r + 1 = 512 then 0 else r + 1)) mod 512 = (w + 512 - r) mod 512 - 1"
    unfolding ring_count [OF r' w] ring_count [OF r w] using r w by auto
qed

lemma ring_inj:
  fixes r i j :: nat
  assumes "i < j" and "j < 512"
  shows "(r + i) mod 512 \<noteq> (r + j) mod 512"
proof
  assume "(r + i) mod 512 = (r + j) mod 512"
  then have "512 dvd (r + j) - (r + i)"
    using assms by (subst (asm) eq_commute, subst (asm) mod_eq_dvd_iff_nat) simp_all
  then have "512 dvd j - i" by simp
  with assms show False by (auto dest: dvd_imp_le)
qed

lemmas cons_defs = cons_inv_def cons_count_def cons_queue_def CONSBUFSIZE_def

lemma cons_count_less: "cons_inv s \<Longrightarrow> cons_count s < 512"
  by (simp add: cons_count_def CONSBUFSIZE_def)

lemma cons_put_ok:
  assumes inv: "cons_inv s"
  shows "\<exists>t. cons_put c s = Inr ((), t) \<and> cons_inv t \<and>
    cons_queue t = (if length (cons_queue s) < 511 then cons_queue s @ [c] else [])"
proof -
  let ?w = "cons_wpos s" and ?r = "cons_rpos s"
  let ?t = "s\<lparr>cons_buf := (cons_buf s)[?w := c],
    cons_wpos := (if ?w + 1 = CONSBUFSIZE then 0 else ?w + 1)\<rparr>"
  have rw: "?r < 512" "?w < 512" "length (cons_buf s) = 512" using inv by (simp_all add: cons_defs)
  have run: "cons_put c s = Inr ((), ?t)" using rw by (simp add: cons_put_def)
  have t_inv: "cons_inv ?t" using rw by (simp add: cons_defs)
  have cnt: "cons_count ?t = (if cons_count s = 511 then 0 else Suc (cons_count s))"
    using ring_next(1) [OF rw(1,2)] by (simp add: cons_count_def CONSBUFSIZE_def)
  have len: "length (cons_queue s) = cons_count s" by (simp add: cons_queue_def)
  have lt: "cons_count s < 512" using inv by (rule cons_count_less)
  show ?thesis
  proof (cases "cons_count s = 511")
    case True
    then have "cons_queue ?t = []" using cnt by (simp add: cons_queue_def)
    with run t_inv len True show ?thesis by auto
  next
    case False
    have pos: "(?r + cons_count s) mod 512 = ?w"
      using ring_distance(1) [OF rw(1,2)] by (simp add: cons_count_def CONSBUFSIZE_def)
    have "cons_buf ?t ! ((?r + i) mod 512) = cons_buf s ! ((?r + i) mod 512)" if "i < cons_count s" for i
      using ring_inj [OF that lt, of ?r] pos by simp
    moreover have "cons_buf ?t ! ?w = c" using rw by simp
    ultimately have "cons_queue ?t = cons_queue s @ [c]"
      using cnt False pos by (simp add: cons_queue_def CONSBUFSIZE_def)
    with run t_inv len False lt show ?thesis by auto
  qed
qed

lemma cons_getc_empty: "cons_inv s \<Longrightarrow> cons_queue s = [] \<Longrightarrow> cons_getc s = Inr (0, s)"
  using ring_distance(2) [of "cons_rpos s" "cons_wpos s"]
  by (simp add: cons_getc_def cons_queue_def cons_inv_def cons_count_def CONSBUFSIZE_def)

lemma cons_getc_first:
  assumes inv: "cons_inv s" and q: "cons_queue s = x # xs"
  shows "\<exists>t. cons_getc s = Inr (uint x, t) \<and> cons_inv t \<and> cons_queue t = xs"
proof -
  let ?w = "cons_wpos s" and ?r = "cons_rpos s"
  let ?t = "s\<lparr>cons_rpos := (if ?r + 1 = CONSBUFSIZE then 0 else ?r + 1)\<rparr>"
  have rw: "?r < 512" "?w < 512" "length (cons_buf s) = 512" using inv by (simp_all add: cons_defs)
  have n: "0 < cons_count s" using q by (cases "cons_count s") (auto simp: cons_queue_def)
  then have ne: "?r \<noteq> ?w"
    using ring_distance(2) [OF rw(1,2)] by (auto simp: cons_count_def CONSBUFSIZE_def)
  obtain m where m: "cons_count s = Suc m" using n by (cases "cons_count s") auto
  have upt: "[0..<Suc m] = 0 # map Suc [0..<m]" by (simp add: map_Suc_upt upt_conv_Cons)
  have x: "x = cons_buf s ! ?r" and
    xs: "xs = map (\<lambda>i. cons_buf s ! ((?r + Suc i) mod 512)) [0..<m]"
    using q rw unfolding cons_queue_def m upt by (auto simp: CONSBUFSIZE_def comp_def)
  have cnt: "cons_count ?t = m"
    using ring_next(2) [OF rw(1,2) ne] m by (simp add: cons_count_def CONSBUFSIZE_def)
  have "((if ?r + 1 = 512 then 0 else ?r + 1) + i) mod 512 = (?r + Suc i) mod 512" for i
  proof (cases "?r = 511")
    case True
    then have "?r + Suc i = 512 + i" by simp
    then show ?thesis using True by (simp only: mod_add_self1) simp
  qed simp
  then have "cons_queue ?t = xs"
    unfolding cons_queue_def cnt xs by (simp add: CONSBUFSIZE_def)
  moreover have "cons_getc s = Inr (uint x, ?t)" using rw ne x by (simp add: cons_getc_def)
  moreover have "cons_inv ?t" using inv by (auto simp: cons_defs)
  ultimately show ?thesis by blast
qed

interpretation cq: bounded_fifo cons_inv cons_queue 511 cons_put cons_getc uint 0
proof unfold_locales
  fix s :: "'a kkbd_scheme" and x xs
  show "\<exists>t. cons_put x s = Inr ((), t) \<and> cons_inv t \<and> cons_queue t = cons_queue s @ [x]"
    if "cons_inv s" "length (cons_queue s) < 511"
    using cons_put_ok [OF that(1), of x] that(2) by simp
  show "cons_getc s = Inr (0, s)" if "cons_inv s" "cons_queue s = []"
    using that by (rule cons_getc_empty)
  show "\<exists>t. cons_getc s = Inr (uint x, t) \<and> cons_inv t \<and> cons_queue t = xs"
    if "cons_inv s" "cons_queue s = x # xs"
    using that by (rule cons_getc_first)
qed

section \<open>The interrupt handler\<close>

text \<open>What the handling of one byte leaves alone: the console buffer and all but the pending bytes.\<close>

definition kbd_frame :: "'a kkbd_scheme \<Rightarrow> 'a kkbd_scheme \<Rightarrow> bool" where
  "kbd_frame s t \<longleftrightarrow> kb_idle t = kb_idle s \<and> cons_buf t = cons_buf s \<and> cons_rpos t = cons_rpos s \<and>
     cons_wpos t = cons_wpos s"

lemma screen_frame_kbd:
  assumes "screen_frame s (t :: 'a kkbd_scheme)"
  shows "kbd_frame s t" "kbq t = kbq s" "kbd_shift t = kbd_shift s"
  using assms by (auto simp: screen_frame_def kbd_frame_def)

lemma screen_ok_kbd [simp]:
  "screen_ok (s\<lparr>kbd_shift := x\<rparr>) = screen_ok s" "screen_ok (s\<lparr>kbq := q\<rparr>) = screen_ok s"
  "screen_ok (s\<lparr>cons_buf := b, cons_wpos := w\<rparr>) = screen_ok s" "screen_ok (s\<lparr>cons_rpos := r\<rparr>) = screen_ok s"
  "screen_ok (s\<lparr>port_log := pl\<rparr>) = screen_ok s"
  by (simp_all add: screen_ok_def)

lemma reboot_message: "format (str (''Rebooting!'' @ nl)) [] = Inr (map uint (str (''Rebooting!'' @ nl)))"
  by (rule format_plain) (simp add: str_def nl_def)

lemma capslock_swap_nonneg: "0 \<le> c \<Longrightarrow> 0 \<le> capslock_swap c"
  by (simp add: capslock_swap_def)

lemma key_char_nonneg: "0 \<le> key_char sh d"
  by (simp add: key_char_def Let_def capslock_swap_nonneg)

lemma kbd_key_ok:
  assumes "screen_ok s"
  shows "\<exists>t. kbd_key d s = Inr (key_char ((kbd_shift s OR shiftcode d) XOR togglecode d) d, t) \<and>
    screen_ok t \<and> kbd_frame s t \<and> kbq t = kbq s \<and> kbd_shift t = (kbd_shift s OR shiftcode d) XOR togglecode d"
proof -
  let ?sh = "(kbd_shift s OR shiftcode d) XOR togglecode d"
  let ?s = "s\<lparr>kbd_shift := ?sh\<rparr>"
  have "screen_ok ?s" using assms by simp
  from printk_ok [OF this reboot_message] obtain n t where
    t: "printk (''Rebooting!'' @ nl) [] ?s = Inr (n, t)" "screen_ok t" "screen_frame ?s t" by blast
  note f = screen_frame_kbd [OF t(3)]
  show ?thesis
  proof (cases "NOT ?sh AND (CTL OR ALT) = 0 \<and> key_char ?sh d = uint KEY_DEL")
    case True
    then have "kbd_key d s = Inr (key_char ?sh d, t\<lparr>port_log := port_log t @ [(0x92, 3)]\<rparr>)"
      using t(1) by (simp add: kbd_key_def kbind_apply kwhen_apply Let_def)
    with t(2) f show ?thesis by (auto simp: kbd_frame_def)
  next
    case False
    then have "kbd_key d s = Inr (key_char ?sh d, ?s)"
      by (auto simp: kbd_key_def kbind_apply kwhen_apply Let_def)
    with assms show ?thesis by (auto simp: kbd_frame_def)
  qed
qed

lemma kbd_proc_data_none: "kbq s = [] \<Longrightarrow> kbd_proc_data s = Inr (- 1, s)"
  by (simp add: kbd_proc_data_def kbd_status_def kbind_apply)

lemma kbd_proc_data_some:
  assumes "screen_ok s" and "kbq s \<noteq> []"
  shows "\<exists>c t. kbd_proc_data s = Inr (c, t) \<and> 0 \<le> c \<and> screen_ok t \<and> kbd_frame s t \<and>
    length (kbq t) < length (kbq s)"
proof -
  obtain d q where q: "kbq s = d # q" using assms(2) by (cases "kbq s") auto
  consider (ext) "d = 0xE0" | (rel) "d \<noteq> 0xE0" "d AND 0x80 \<noteq> 0" | (key) "d \<noteq> 0xE0" "d AND 0x80 = 0" by blast
  then show ?thesis
  proof cases
    case ext
    define e where "e = (case q of [] \<Rightarrow> kb_idle s | x # _ \<Rightarrow> x)"
    let ?u = "s\<lparr>kbq := tl q\<rparr>"
    have rd: "kbind kbd_data f (s\<lparr>kbq := q\<rparr>) = f e ?u" for f :: "u8 \<Rightarrow> ('a kkbd_scheme, int) kfun"
      by (cases q) (simp_all add: kbd_data_def kbind_apply e_def)
    have run: "kbd_proc_data s = (if e AND 0x80 \<noteq> 0 then kreturn 0 else kbd_key (e OR 0x80)) ?u"
      using q ext rd by (simp add: kbd_proc_data_def kbd_status_def kbd_data_def kbind_apply)
    have u: "screen_ok ?u" "kbd_frame s ?u" "length (kbq ?u) < length (kbq s)"
      using assms q by (simp_all add: kbd_frame_def)
    show ?thesis
    proof (cases "e AND 0x80 = 0")
      case True
      with run kbd_key_ok [OF u(1), of "e OR 0x80"] u key_char_nonneg show ?thesis
        by (auto simp: kbd_frame_def)
    qed (use run u in auto)
  next
    case rel
    then show ?thesis using assms q
      by (simp add: kbd_proc_data_def kbd_status_def kbd_data_def kbind_apply kbd_frame_def)
  next
    case key
    let ?u = "s\<lparr>kbq := q\<rparr>"
    have u: "screen_ok ?u" "kbd_frame s ?u" using assms q by (simp_all add: kbd_frame_def)
    have run: "kbd_proc_data s = kbd_key d ?u"
      using q key by (simp add: kbd_proc_data_def kbd_status_def kbd_data_def kbind_apply)
    with kbd_key_ok [OF u(1), of d] key_char_nonneg q u show ?thesis by (auto simp: kbd_frame_def)
  qed
qed

lemma kbd_intr_ok:
  assumes "screen_ok s" and "cons_inv s" and "length (kbq s) < n"
  shows "\<exists>t. cons_intr n kbd_proc_data s = Inr ((), t) \<and> screen_ok t \<and> cons_inv t \<and>
    length (kbq t) \<le> length (kbq s) \<and> cons_rpos t = cons_rpos s \<and>
    (kbq t = [] \<and> cons_wpos t = cons_wpos s \<or> length (kbq t) < length (kbq s) \<and> cons_wpos t = (cons_wpos s + 1) mod 512)"
  using assms
proof (induction n arbitrary: s)
  case (Suc n)
  show ?case
  proof (cases "kbq s = []")
    case True
    then show ?thesis using Suc.prems kbd_proc_data_none [OF True] by simp
  next
    case False
    from kbd_proc_data_some [OF Suc.prems(1) False] obtain c t where
      t: "kbd_proc_data s = Inr (c, t)" "0 \<le> c" "screen_ok t" "kbd_frame s t" "length (kbq t) < length (kbq s)" by blast
    have inv: "cons_inv t" using Suc.prems(2) t(4) by (simp add: cons_inv_def kbd_frame_def)
    show ?thesis
    proof (cases "c = 0")
      case True
      from Suc.IH [OF t(3) inv] t(4,5) Suc.prems(3) obtain u where
        "cons_intr n kbd_proc_data t = Inr ((), u)" "screen_ok u" "cons_inv u" "length (kbq u) \<le> length (kbq t)"
        "cons_rpos u = cons_rpos t" "kbq u = [] \<and> cons_wpos u = cons_wpos t \<or>
          length (kbq u) < length (kbq t) \<and> cons_wpos u = (cons_wpos t + 1) mod 512" by auto
      with t True show ?thesis by (auto simp: kbd_frame_def)
    next
      case nz: False
      let ?u = "t\<lparr>cons_buf := (cons_buf t)[cons_wpos t := of_int c],
        cons_wpos := (if cons_wpos t + 1 = CONSBUFSIZE then 0 else cons_wpos t + 1)\<rparr>"
      have w: "cons_wpos t < 512" "length (cons_buf t) = 512" using inv by (simp_all add: cons_defs)
      have "cons_intr (Suc n) kbd_proc_data s = Inr ((), ?u)"
        using t nz w by (simp add: cons_put_def)
      moreover have "cons_wpos ?u = (cons_wpos t + 1) mod 512" using w(1) by (auto simp: CONSBUFSIZE_def)
      moreover have "cons_inv ?u" using inv by (auto simp: cons_defs)
      ultimately show ?thesis using t by (auto simp: kbd_frame_def)
    qed
  qed
qed simp

section \<open>Letters\<close>

definition letter_key :: "u8 \<Rightarrow> bool" where
  "letter_key d \<longleftrightarrow> 0x61 \<le> normalmap d \<and> normalmap d \<le> 0x7A"

definition letter_row :: "u8 \<Rightarrow> u8 \<Rightarrow> u8 \<Rightarrow> bool" where
  "letter_row d a b \<longleftrightarrow> (0x61 \<le> a \<and> a \<le> 0x7A \<longrightarrow>
     b = a - 0x20 \<and> shiftcode d = 0 \<and> togglecode d = 0 \<and> d AND 0x80 = 0 \<and> d \<noteq> 0xE0)"

fun letter_rows :: "u8 \<Rightarrow> u8 list \<Rightarrow> u8 list \<Rightarrow> bool" where
  "letter_rows d (a # as) (b # bs) \<longleftrightarrow> letter_row d a b \<and> letter_rows (d + 1) as bs"
| "letter_rows d as bs \<longleftrightarrow> True"

lemma letter_rows_nth:
  "letter_rows d as bs \<Longrightarrow> k < length as \<Longrightarrow> k < length bs \<Longrightarrow> letter_row (d + of_nat k) (as ! k) (bs ! k)"
proof (induction d as bs arbitrary: k rule: letter_rows.induct)
  case (1 i a as b bs)
  then show ?case by (cases k) (auto simp: add.assoc)
qed simp_all

lemma replicate_13: "replicate 13 (0 :: u8) = [0, 0, 0, 0, 0, 0, 0, 0, 0, 0, 0, 0, 0]"
  by (simp add: numeral_eq_Suc)

lemma rows_length: "length normalmap_rows = 88" "length shiftmap_rows = 88"
  by (simp_all add: normalmap_rows_def shiftmap_rows_def asc_def)

lemma letter_rows: "letter_rows 0 normalmap_rows shiftmap_rows"
  by (simp add: normalmap_rows_def shiftmap_rows_def asc_def letter_row_def shiftcode_def togglecode_def
      key_defs replicate_13)

lemma letter_key_facts:
  assumes "letter_key d"
  shows "shiftmap d = normalmap d - 0x20" "shiftcode d = 0" "togglecode d = 0" "d AND 0x80 = 0" "d \<noteq> 0xE0"
proof -
  have "unat d < 88"
  proof (rule ccontr)
    assume "\<not> unat d < 88"
    then have "normalmap d = keypad d" by (simp add: normalmap_def rows_length)
    with assms show False by (auto simp: letter_key_def keypad_def key_defs split: if_splits)
  qed
  then have "letter_row d (normalmap d) (shiftmap d)"
    using letter_rows_nth [OF letter_rows, of "unat d"] by (simp add: rows_length normalmap_def shiftmap_def)
  with assms show "shiftmap d = normalmap d - 0x20" "shiftcode d = 0" "togglecode d = 0" "d AND 0x80 = 0" "d \<noteq> 0xE0"
    by (auto simp: letter_row_def letter_key_def)
qed

lemma upper_uint: "0x61 \<le> c \<Longrightarrow> uint (c - 0x20 :: u8) = uint c - 0x20"
  by (subst uint_minus_simple_alt [THEN iffD1]) (auto simp: word_le_def)

lemma key_char_letter:
  assumes "letter_key d" and "sh AND CTL = 0"
  shows "key_char sh d =
    uint (if (sh AND SHIFT \<noteq> 0) \<noteq> (sh AND CAPSLOCK \<noteq> 0) then normalmap d - 0x20 else normalmap d)"
proof -
  have c: "0x61 \<le> normalmap d" "normalmap d \<le> 0x7A" using assms(1) by (simp_all add: letter_key_def)
  have u: "0x61 \<le> uint (normalmap d)" "uint (normalmap d) \<le> 0x7A" using c by (simp_all add: word_le_def)
  have lo: "uint (normalmap d - 0x20) = uint (normalmap d) - 0x20" using upper_uint [OF c(1)] .
  have sh: "sh AND (CTL OR SHIFT) = sh AND SHIFT"
    using assms(2) by (simp add: bit.conj_disj_distrib)
  have "sh AND SHIFT = 0 \<or> sh AND SHIFT = 1" by (cases "even sh") (simp_all add: SHIFT_def and_one_eq even_iff_mod_2_eq_zero odd_iff_mod_2_eq_one)
  then show ?thesis
    using u lo letter_key_facts(1) [OF assms(1)]
    unfolding key_char_def sh by (auto simp: charcode_def capslock_swap_def)
qed

text \<open>One pending key press that gives a character.\<close>

lemma kbd_intr_key:
  assumes "screen_ok s" and "cons_inv s" and "kbq s = d # q" and "d \<noteq> 0xE0" and "d AND 0x80 = 0"
    and "key_char ((kbd_shift s OR shiftcode d) XOR togglecode d) d = uint c" and "c \<noteq> 0"
    and "length (cons_queue s) < 511"
  shows "\<exists>t. kbd_intr s = Inr ((), t) \<and> screen_ok t \<and> cons_inv t \<and> kbq t = q \<and>
    cons_queue t = cons_queue s @ [c] \<and> kbd_shift t = (kbd_shift s OR shiftcode d) XOR togglecode d"
proof -
  let ?sh = "(kbd_shift s OR shiftcode d) XOR togglecode d"
  let ?u = "s\<lparr>kbq := q\<rparr>"
  have "screen_ok ?u" using assms(1) by simp
  from kbd_key_ok [OF this, of d] assms(6) obtain t where
    t: "kbd_key d ?u = Inr (uint c, t)" "screen_ok t" "kbd_frame ?u t" "kbq t = q" "kbd_shift t = ?sh" by auto
  have p: "kbd_proc_data s = Inr (uint c, t)"
    using t(1) assms(3-5) by (simp add: kbd_proc_data_def kbd_status_def kbd_data_def kbind_apply)
  have inv: "cons_inv t" using assms(2) t(3) by (simp add: cons_inv_def kbd_frame_def)
  have q: "cons_queue t = cons_queue s" using t(3) by (simp add: cons_queue_def cons_count_def kbd_frame_def)
  from cons_put_ok [OF inv, of c] q assms(8) obtain v where
    v: "cons_put c t = Inr ((), v)" "cons_inv v" "cons_queue v = cons_queue s @ [c]" by auto
  have "screen_ok v \<and> kbq v = kbq t \<and> kbd_shift v = kbd_shift t"
    using v(1) t(2) by (auto simp: cons_put_def split: if_splits)
  moreover have "kbd_intr s = Inr ((), v)"
  proof -
    have "uint c \<noteq> - 1" using uint_ge_0 [of c] by linarith
    with p v(1) assms(7) show ?thesis by (simp add: kbd_intr_def uint_0_iff)
  qed
  ultimately show ?thesis using v t by auto
qed

section \<open>Properties\<close>

definition demo_gates :: kgates where
  "demo_gates = kmem.extend small_mem
     (kgates.fields (replicate 256 zero_gate) (replicate 256 None) (\<lambda>_. 0xF0101000) False)"

definition demo_kbd :: kkbd where
  "demo_kbd = kgates.extend demo_gates (kkbd.fields [0x1E] 0 CAPSLOCK (replicate 512 0) 500 500)"

lemmas demo_kbd_defs = demo_kbd_def demo_gates_def kkbd.defs kgates.defs kmem.defs small_mem_def

lemma demo_kbd_ok: "screen_ok demo_kbd" "cons_inv demo_kbd" "cons_queue demo_kbd = []"
proof -
  show "screen_ok demo_kbd"
    by (simp add: screen_ok_def demo_kbd_defs demo_screen_def vga_ok_def objects_ok_def lock_free_def)
  show "cons_inv demo_kbd" by (simp add: cons_defs demo_kbd_defs)
  show "cons_queue demo_kbd = []" by (simp add: cons_defs demo_kbd_defs)
qed

text \<open>
  C37. Characters stored in the console buffer are read back in order: after at most 511 characters
  have been stored in an empty buffer, wherever its two positions stand, that many reads return
  exactly them and every further read returns 0.
\<close>
theorem cons_buffer_fifo:
  assumes "cons_inv s" and "cons_queue s = []" and "length cs \<le> 511"
  shows "\<exists>t. kbind (kfor cs cons_put) (\<lambda>_. get_many k_getc (length cs + n)) s =
    Inr (map uint cs @ replicate n 0, t) \<and> cons_inv t \<and> cons_queue t = []"
  unfolding k_getc_def by (rule cq.put_get [OF assms])

theorem cons_buffer_fifo_witness:
  "\<exists>t. kbind (kfor [104, 105] cons_put) (\<lambda>_. get_many k_getc 3) demo_kbd =
    Inr ([104, 105, 0], t) \<and> cons_inv t \<and> cons_queue t = []"
  using cons_buffer_fifo [OF demo_kbd_ok(2,3), of "[104, 105]" 1] by (simp add: numeral_3_eq_3)

text \<open>
  C40. One character too many empties the buffer: with 511 characters pending, storing the next one
  makes the two positions equal and all 512 characters are lost.
\<close>
theorem cons_buffer_overflow:
  assumes "cons_inv s" and "length (cons_queue s) = 511"
  shows "\<exists>t. cons_put c s = Inr ((), t) \<and> cons_inv t \<and> cons_queue t = [] \<and> cons_getc t = Inr (0, t)"
proof -
  from cons_put_ok [OF assms(1), of c] assms(2) obtain t where
    "cons_put c s = Inr ((), t)" "cons_inv t" "cons_queue t = []" by auto
  with cons_getc_empty [of t] show ?thesis by blast
qed

theorem cons_buffer_overflow_witness:
  "\<exists>s t :: kkbd. cons_inv s \<and> length (cons_queue s) = 511 \<and> cons_put 65 s = Inr ((), t) \<and> cons_getc t = Inr (0, t)"
proof -
  let ?s = "demo_kbd\<lparr>cons_wpos := 499\<rparr>"
  have "cons_inv ?s" "length (cons_queue ?s) = 511" by (simp_all add: cons_defs demo_kbd_defs)
  with cons_buffer_overflow [OF this, of 65] show ?thesis by blast
qed

text \<open>
  C38. The keyboard interrupt handler returns for every sequence of pending bytes, keeps the console
  buffer well formed, and stores at most one character per call; it stores none only after it has
  consumed all pending bytes.
\<close>
theorem kbd_intr_returns:
  assumes "screen_ok s" and "cons_inv s"
  shows "\<exists>t. kbd_intr s = Inr ((), t) \<and> screen_ok t \<and> cons_inv t \<and> cons_rpos t = cons_rpos s \<and>
    (kbq t = [] \<and> cons_wpos t = cons_wpos s \<or>
     length (kbq t) < length (kbq s) \<and> cons_wpos t = (cons_wpos s + 1) mod 512)"
  using kbd_intr_ok [OF assms, of "Suc (length (kbq s))"] unfolding kbd_intr_def by auto

theorem kbd_intr_returns_witness:
  "\<exists>t. kbd_intr demo_kbd = Inr ((), t) \<and> cons_inv t"
  using kbd_intr_returns [OF demo_kbd_ok(1,2)] by blast

text \<open>
  C39. A letter key gives the lower-case letter, or the upper-case one when exactly one of Shift and
  Caps Lock is in effect, as long as Ctrl is not held.
\<close>
theorem kbd_letter_case:
  assumes "screen_ok s" and "cons_inv s" and "kbq s = d # q" and "letter_key d"
    and "kbd_shift s AND CTL = 0" and "length (cons_queue s) < 511"
  shows "\<exists>t. kbd_intr s = Inr ((), t) \<and> cons_inv t \<and> kbq t = q \<and> kbd_shift t = kbd_shift s \<and>
    cons_queue t = cons_queue s @
      [if (kbd_shift s AND SHIFT \<noteq> 0) \<noteq> (kbd_shift s AND CAPSLOCK \<noteq> 0)
       then normalmap d - 0x20 else normalmap d]"
proof -
  note l = letter_key_facts [OF assms(4)]
  let ?c = "if (kbd_shift s AND SHIFT \<noteq> 0) \<noteq> (kbd_shift s AND CAPSLOCK \<noteq> 0)
    then normalmap d - 0x20 else normalmap d"
  have "0x61 \<le> normalmap d" using assms(4) by (simp add: letter_key_def)
  then have "?c \<noteq> 0" by (auto simp: word_le_def)
  moreover have "key_char ((kbd_shift s OR shiftcode d) XOR togglecode d) d = uint ?c"
    using key_char_letter [OF assms(4,5)] l by simp
  ultimately show ?thesis
    using kbd_intr_key [OF assms(1-3) l(5,4) _ _ assms(6), of ?c] l(2,3) by auto
qed

theorem kbd_letter_case_witness:
  "letter_key 0x1E \<and> (\<exists>t. kbd_intr demo_kbd = Inr ((), t) \<and> cons_queue t = [0x41])"
proof -
  have n: "normalmap 0x1E = 0x61" by (simp add: normalmap_def normalmap_rows_def asc_def replicate_13)
  then have l: "letter_key 0x1E" by (simp add: letter_key_def)
  have s: "kbq demo_kbd = 0x1E # []" "kbd_shift demo_kbd = CAPSLOCK" by (simp_all add: demo_kbd_defs)
  have "kbd_shift demo_kbd AND CTL = 0" using s by (simp add: key_defs)
  moreover have "length (cons_queue demo_kbd) < 511" using demo_kbd_ok(3) by simp
  ultimately show ?thesis
    using kbd_letter_case [OF demo_kbd_ok(1,2) s(1) l] l n s(2) demo_kbd_ok(3) by (auto simp: key_defs)
qed

end
