(* ===== verification/Cpu.thy ===== *)
theory Cpu
  imports MemCheck Kbd
begin

text \<open>
  The data of tasks and processors (\<^verbatim>\<open>kernel/task.h\<close>, \<^verbatim>\<open>kernel/cpu.h\<close>, \<^verbatim>\<open>inc/trap.h\<close>, \<^verbatim>\<open>inc/mmu.h\<close>), the
  state of the whole kernel, and the local interrupt controller (\<^verbatim>\<open>kernel/lapic.c\<close>).

  A \<^verbatim>\<open>Task *\<close> is an optional index into \<open>tasks\<close>, a \<^verbatim>\<open>struct CpuInfo *\<close> an index into \<open>cpus\<close>. The
  controller's registers are the running processor's: writes are recorded in \<open>lapic_log\<close>, the
  version register is \<open>lapic_ver\<close>, and \<open>icr_polls\<close> is how often the delivery status still reads
  busy. \<open>cur_cpu\<close> is the identification its register \<^verbatim>\<open>ID\<close> holds.
\<close>

section \<open>Data\<close>

record PushRegs =
  reg_edi :: u32
  reg_esi :: u32
  reg_ebp :: u32
  reg_oesp :: u32
  reg_ebx :: u32
  reg_edx :: u32
  reg_ecx :: u32
  reg_eax :: u32

record Trapframe =
  tf_regs :: PushRegs
  tf_es :: u16
  tf_padding1 :: u16
  tf_ds :: u16
  tf_padding2 :: u16
  tf_trapno :: u32
  tf_err :: u32
  tf_eip :: u32
  tf_cs :: u16
  tf_padding3 :: u16
  tf_eflags :: u32
  tf_esp :: u32
  tf_ss :: u16
  tf_padding4 :: u16

definition zero_regs :: PushRegs where
  "zero_regs = \<lparr>reg_edi = 0, reg_esi = 0, reg_ebp = 0, reg_oesp = 0, reg_ebx = 0, reg_edx = 0,
     reg_ecx = 0, reg_eax = 0\<rparr>"

definition zero_tf :: Trapframe where
  "zero_tf = \<lparr>tf_regs = zero_regs, tf_es = 0, tf_padding1 = 0, tf_ds = 0, tf_padding2 = 0,
     tf_trapno = 0, tf_err = 0, tf_eip = 0, tf_cs = 0, tf_padding3 = 0, tf_eflags = 0, tf_esp = 0,
     tf_ss = 0, tf_padding4 = 0\<rparr>"

datatype TaskState = TASK_FREE | TASK_RUNNABLE | TASK_RUNNING | TASK_SLEEP | TASK_STOP

definition NR_TASKS :: nat where "NR_TASKS = 32"
definition TIME_QUANT :: u32 where "TIME_QUANT = 100"
definition USR_STACK_SIZE :: u32 where "USR_STACK_SIZE = 40960"

text \<open>\<open>pgdir\<close> is the frame of the page directory; \<open>remind_ticks\<close> is read as a signed number.\<close>

record Task =
  task_id :: int
  parent_id :: int
  tf :: Trapframe
  remind_ticks :: u32
  state :: TaskState
  pgdir :: "nat option"

definition zero_task :: Task where
  "zero_task = \<lparr>task_id = 0, parent_id = 0, tf = zero_tf, remind_ticks = 0, state = TASK_FREE,
     pgdir = None\<rparr>"

record Runqueue =
  total :: int
  current_index :: int
  runQueue :: "int list"

record tss_struct =
  ts_link :: u32
  ts_esp0 :: u32
  ts_ss0 :: u16
  ts_padding1 :: u16
  ts_esp1 :: u32
  ts_ss1 :: u16
  ts_padding2 :: u16
  ts_esp2 :: u32
  ts_ss2 :: u16
  ts_padding3 :: u16
  ts_cr3 :: u32
  ts_eip :: u32
  ts_eflags :: u32
  ts_eax :: u32
  ts_ecx :: u32
  ts_edx :: u32
  ts_ebx :: u32
  ts_esp :: u32
  ts_ebp :: u32
  ts_esi :: u32
  ts_edi :: u32
  ts_es :: u16
  ts_padding4 :: u16
  ts_cs :: u16
  ts_padding5 :: u16
  ts_ss :: u16
  ts_padding6 :: u16
  ts_ds :: u16
  ts_padding7 :: u16
  ts_fs :: u16
  ts_padding8 :: u16
  ts_gs :: u16
  ts_padding9 :: u16
  ts_ldt :: u16
  ts_padding10 :: u16
  ts_t :: u16
  ts_iomb :: u16

definition zero_tss :: tss_struct where
  "zero_tss = \<lparr>ts_link = 0, ts_esp0 = 0, ts_ss0 = 0, ts_padding1 = 0, ts_esp1 = 0, ts_ss1 = 0,
     ts_padding2 = 0, ts_esp2 = 0, ts_ss2 = 0, ts_padding3 = 0, ts_cr3 = 0, ts_eip = 0,
     ts_eflags = 0, ts_eax = 0, ts_ecx = 0, ts_edx = 0, ts_ebx = 0, ts_esp = 0, ts_ebp = 0,
     ts_esi = 0, ts_edi = 0, ts_es = 0, ts_padding4 = 0, ts_cs = 0, ts_padding5 = 0, ts_ss = 0,
     ts_padding6 = 0, ts_ds = 0, ts_padding7 = 0, ts_fs = 0, ts_padding8 = 0, ts_gs = 0,
     ts_padding9 = 0, ts_ldt = 0, ts_padding10 = 0, ts_t = 0, ts_iomb = 0\<rparr>"

definition sizeof_tss :: u32 where "sizeof_tss = 104"

definition CPU_UNUSED :: u32 where "CPU_UNUSED = 0"
definition CPU_STARTED :: u32 where "CPU_STARTED = 1"
definition CPU_HALTED :: u32 where "CPU_HALTED = 2"

record CpuInfo =
  cpu_id :: u8
  cpu_status :: u32
  cpu_task :: "nat option"
  cpu_rq :: Runqueue
  cpu_tss :: tss_struct

text \<open>A \<^verbatim>\<open>struct Trapframe *\<close> points to the frame on the kernel stack or into a task.\<close>

datatype tfptr = StackFrame | TaskFrame nat

section \<open>The kernel's state\<close>

text \<open>
  The symbols of the user program's image and entry points, and the addresses of the processors'
  task state segments, are what the linker chose. \<open>tr\<close>, \<open>ldtr\<close>, \<open>gdt_loaded\<close>, \<open>cr0\<close>, \<open>cr2\<close> and \<open>if_flag\<close> are registers of
  the running processor; \<open>stack_tf\<close> is the trap frame the entry code pushed on its stack, \<open>tf_addr\<close> gives
  the addresses of frames. \<open>mpentry_code\<close> is the code between \<^verbatim>\<open>mpentry_start\<close> and \<^verbatim>\<open>mpentry_end\<close>.
\<close>

record kernel = kkbd +
  tasks :: "Task list"
  tasks_lock :: spinlock
  cpus_lock :: spinlock
  cpus :: "CpuInfo list"
  ncpu :: int
  bootcpu :: nat
  ismp :: bool
  jiffies :: u32
  gdt :: "Segdesc list"
  gdt_loaded :: bool
  ldtr :: u32
  tr :: u32
  cr0 :: u32
  cr2 :: u32
  if_flag :: bool
  stack_tf :: Trapframe
  tf_addr :: "tfptr \<Rightarrow> u32"
  last_tf :: "tfptr option"
  UTEXT_start :: u32
  UTEXT_end :: u32
  UDATA_start :: u32
  UDATA_end :: u32
  UBSS_start :: u32
  UBSS_end :: u32
  URODATA_start :: u32
  URODATA_end :: u32
  UTEXT_SZ :: u32
  UDATA_SZ :: u32
  UBSS_SZ :: u32
  URODATA_SZ :: u32
  user_entry :: u32
  idle_entry :: u32
  tss_addr :: "nat \<Rightarrow> u32"
  lapic_log :: "(nat \<times> nat \<times> u32) list"
  lapic_ver :: u32
  icr_polls :: nat
  mpentry_kstack :: u32
  mpentry_code :: "u8 list"

definition cpunum :: "'a kernel_scheme \<Rightarrow> nat" where
  "cpunum s = (if lapic s \<noteq> 0 then cur_cpu s else 0)"

definition get_task :: "int \<Rightarrow> ('a kernel_scheme, Task) kfun" where
  "get_task i = (\<lambda>s. if 0 \<le> i \<and> i < int (length (tasks s)) then Inr (tasks s ! nat i, s) else Inl BadIndex)"

definition upd_task :: "int \<Rightarrow> (Task \<Rightarrow> Task) \<Rightarrow> ('a kernel_scheme, unit) kfun" where
  "upd_task i f = (\<lambda>s. if 0 \<le> i \<and> i < int (length (tasks s))
     then Inr ((), s\<lparr>tasks := (tasks s)[nat i := f (tasks s ! nat i)]\<rparr>) else Inl BadIndex)"

definition get_cpu :: "nat \<Rightarrow> ('a kernel_scheme, CpuInfo) kfun" where
  "get_cpu c = (\<lambda>s. if c < length (cpus s) then Inr (cpus s ! c, s) else Inl BadIndex)"

definition upd_cpu :: "nat \<Rightarrow> (CpuInfo \<Rightarrow> CpuInfo) \<Rightarrow> ('a kernel_scheme, unit) kfun" where
  "upd_cpu c f = (\<lambda>s. if c < length (cpus s)
     then Inr ((), s\<lparr>cpus := (cpus s)[c := f (cpus s ! c)]\<rparr>) else Inl BadIndex)"

definition thiscpu :: "('a kernel_scheme, CpuInfo) kfun" where
  "thiscpu = kbind (kgets cpunum) get_cpu"

definition upd_thiscpu :: "(CpuInfo \<Rightarrow> CpuInfo) \<Rightarrow> ('a kernel_scheme, unit) kfun" where
  "upd_thiscpu f = kbind (kgets cpunum) (\<lambda>c. upd_cpu c f)"

section \<open>The local interrupt controller\<close>

definition LA_VER :: nat where "LA_VER = 0x30 div 4"
definition LA_TPR :: nat where "LA_TPR = 0x80 div 4"
definition LA_EOI :: nat where "LA_EOI = 0xB0 div 4"
definition LA_SVR :: nat where "LA_SVR = 0xF0 div 4"
definition LA_ESR :: nat where "LA_ESR = 0x280 div 4"
definition LA_ICRLO :: nat where "LA_ICRLO = 0x300 div 4"
definition LA_ICRHI :: nat where "LA_ICRHI = 0x310 div 4"
definition LA_TIMER :: nat where "LA_TIMER = 0x320 div 4"
definition LA_PCINT :: nat where "LA_PCINT = 0x340 div 4"
definition LA_LINT0 :: nat where "LA_LINT0 = 0x350 div 4"
definition LA_LINT1 :: nat where "LA_LINT1 = 0x360 div 4"
definition LA_ERROR :: nat where "LA_ERROR = 0x370 div 4"
definition LA_TICR :: nat where "LA_TICR = 0x380 div 4"
definition LA_TDCR :: nat where "LA_TDCR = 0x3E0 div 4"

definition LA_ENABLE :: u32 where "LA_ENABLE = 0x100"
definition LA_INIT :: u32 where "LA_INIT = 0x500"
definition LA_STARTUP :: u32 where "LA_STARTUP = 0x600"
definition LA_ASSERT :: u32 where "LA_ASSERT = 0x4000"
definition LA_LEVEL :: u32 where "LA_LEVEL = 0x8000"
definition LA_BCAST :: u32 where "LA_BCAST = 0x80000"
definition LA_OTHERS :: u32 where "LA_OTHERS = 0xC0000"
definition LA_FIXED :: u32 where "LA_FIXED = 0"
definition LA_X1 :: u32 where "LA_X1 = 0xB"
definition LA_PERIODIC :: u32 where "LA_PERIODIC = 0x20000"
definition LA_MASKED :: u32 where "LA_MASKED = 0x10000"

text \<open>A write goes to the controller of the running processor; an unmapped controller faults.\<close>

definition lapicw :: "nat \<Rightarrow> u32 \<Rightarrow> ('a kernel_scheme, unit) kfun" where
  "lapicw idx v = (\<lambda>s. if lapic s = 0 then Inl NullDeref
     else Inr ((), s\<lparr>lapic_log := lapic_log s @ [(cur_cpu s, idx, v)]\<rparr>))"

definition wait_delivery :: "('a kernel_scheme, unit) kfun" where
  "wait_delivery = kbind (kgets icr_polls) (\<lambda>n.
     kfor [0..<n] (\<lambda>_. kmodify (\<lambda>s. s\<lparr>icr_polls := icr_polls s - 1\<rparr>)))"

definition lapic_init :: "('a kernel_scheme, unit) kfun" where
  "lapic_init =
     kbind (kgets lapicaddr) (\<lambda>la.
     if la = 0 then kreturn ()
     else
       kbind (kgets lapic) (\<lambda>l.
       kbind (kwhen (l = 0) (kbind (mmio_map_region la 4096) (\<lambda>va. kmodify (\<lambda>s. s\<lparr>lapic := va\<rparr>)))) (\<lambda>_.
       kbind (lapicw LA_SVR (LA_ENABLE OR of_nat (IRQ_OFFSET + IRQ_SPURIOUS))) (\<lambda>_.
       kbind (lapicw LA_TDCR LA_X1) (\<lambda>_.
       kbind (lapicw LA_TIMER (LA_PERIODIC OR of_nat (IRQ_OFFSET + IRQ_TIMER))) (\<lambda>_.
       kbind (lapicw LA_TICR 10000000) (\<lambda>_.
       kbind (kgets (\<lambda>s. (cpunum s, bootcpu s))) (\<lambda>(c, b).
       kbind (kwhen (c \<noteq> b) (lapicw LA_LINT0 LA_MASKED)) (\<lambda>_.
       kbind (lapicw LA_LINT1 LA_MASKED) (\<lambda>_.
       kbind (kgets lapic_ver) (\<lambda>v.
       kbind (kwhen (drop_bit 16 v AND 0xFF \<ge> 4) (lapicw LA_PCINT LA_MASKED)) (\<lambda>_.
       kbind (lapicw LA_ERROR (of_nat (IRQ_OFFSET + IRQ_ERROR))) (\<lambda>_.
       kbind (lapicw LA_ESR 0) (\<lambda>_.
       kbind (lapicw LA_ESR 0) (\<lambda>_.
       kbind (lapicw LA_EOI 0) (\<lambda>_.
       kbind (lapicw LA_ICRHI 0) (\<lambda>_.
       kbind (lapicw LA_ICRLO (LA_BCAST OR LA_INIT OR LA_LEVEL)) (\<lambda>_.
       kbind wait_delivery (\<lambda>_.
       lapicw LA_TPR 0)))))))))))))))))))"

definition lapic_eoi :: "('a kernel_scheme, unit) kfun" where
  "lapic_eoi = kbind (kgets lapic) (\<lambda>l. kwhen (l \<noteq> 0) (lapicw LA_EOI 0))"

text \<open>
  The warm reset vector is the two 16-bit words at the physical address \<^verbatim>\<open>0x467\<close>, which is the last
  byte of one word of frame 0 and the first three bytes of the next.
\<close>

definition warm_reset_vector :: "u32 \<Rightarrow> ('a kernel_scheme, unit) kfun" where
  "warm_reset_vector addr =
     kbind (KADDR (push_bit 4 0x40 OR 0x67)) (\<lambda>_.
     let v = push_bit 16 (drop_bit 4 addr AND 0xFFFF) in
     kmodify (\<lambda>s. s\<lparr>pmem := (pmem s)(0 := (pmem s 0)
       (0x119 := (pmem s 0 0x119 AND 0x00FFFFFF) OR push_bit 24 v,
        0x11A := (pmem s 0 0x11A AND 0xFF000000) OR drop_bit 8 v))\<rparr>))"

definition lapic_startap :: "u8 \<Rightarrow> u32 \<Rightarrow> ('a kernel_scheme, unit) kfun" where
  "lapic_startap apicid addr =
     kbind (outb IO_RTC 0xF) (\<lambda>_.
     kbind (outb (IO_RTC + 1) 0x0A) (\<lambda>_.
     kbind (warm_reset_vector addr) (\<lambda>_.
     kbind (lapicw LA_ICRHI (push_bit 24 (ucast apicid))) (\<lambda>_.
     kbind (lapicw LA_ICRLO (LA_INIT OR LA_LEVEL OR LA_ASSERT)) (\<lambda>_.
     kbind (lapicw LA_ICRLO (LA_INIT OR LA_LEVEL)) (\<lambda>_.
     kfor [0..<2] (\<lambda>_ :: nat.
       kbind (lapicw LA_ICRHI (push_bit 24 (ucast apicid))) (\<lambda>_.
       lapicw LA_ICRLO (LA_STARTUP OR drop_bit 12 addr)))))))))"

definition lapic_ipi :: "u32 \<Rightarrow> ('a kernel_scheme, unit) kfun" where
  "lapic_ipi vector =
     kbind (lapicw LA_ICRLO (LA_OTHERS OR LA_FIXED OR vector)) (\<lambda>_. wait_delivery)"

end
