(* ===== verification/Mp.thy ===== *)
theory Mp
  imports Cpu
begin

text \<open>
  Finding the processors: \<^verbatim>\<open>kernel/mpconfig.c\<close>. The firmware's tables are bytes of physical memory.
  A pointer into them is a kernel virtual address; the fields of the packed structures are
  read at their offsets.
\<close>

section \<open>Bytes of physical memory\<close>

definition phys_byte :: "(nat \<Rightarrow> nat \<Rightarrow> u32) \<Rightarrow> nat \<Rightarrow> u8" where
  "phys_byte m a = ucast (drop_bit (8 * (a mod 4)) (m (a div 4096) (a mod 4096 div 4)))"

text \<open>A pointer below \<^verbatim>\<open>KERNBASE\<close> is outside the window in which the kernel sees physical memory.\<close>

definition kload8 :: "u32 \<Rightarrow> ('a kmem_scheme, u8) kfun" where
  "kload8 p = (if p < KERNBASE then kfail BadIndex else kgets (\<lambda>s. phys_byte (pmem s) (unat (p - KERNBASE))))"

definition kload16 :: "u32 \<Rightarrow> ('a kmem_scheme, u16) kfun" where
  "kload16 p = kbind (kload8 p) (\<lambda>lo. kbind (kload8 (p + 1)) (\<lambda>hi. kreturn (push_bit 8 (ucast hi) OR ucast lo)))"

definition kload32 :: "u32 \<Rightarrow> ('a kmem_scheme, u32) kfun" where
  "kload32 p = kbind (kload16 p) (\<lambda>lo. kbind (kload16 (p + 2)) (\<lambda>hi. kreturn (push_bit 16 (ucast hi) OR ucast lo)))"

text \<open>\<^verbatim>\<open>memcmp(p, bytes, length) == 0\<close>.\<close>

fun kmem_eq :: "u32 \<Rightarrow> u8 list \<Rightarrow> ('a kmem_scheme, bool) kfun" where
  "kmem_eq p [] = kreturn True"
| "kmem_eq p (b # bs) = kbind (kload8 p) (\<lambda>x. if x \<noteq> b then kreturn False else kmem_eq (p + 1) bs)"

section \<open>Searching\<close>

fun sum_loop :: "u32 \<Rightarrow> nat \<Rightarrow> u8 \<Rightarrow> ('a kmem_scheme, u8) kfun" where
  "sum_loop p 0 acc = kreturn acc"
| "sum_loop p (Suc n) acc = kbind (kload8 p) (\<lambda>b. sum_loop (p + 1) n (acc + b))"

definition mp_sum :: "u32 \<Rightarrow> nat \<Rightarrow> ('a kmem_scheme, u8) kfun" where
  "mp_sum addr len = sum_loop addr len 0"

definition sizeof_mp :: nat where "sizeof_mp = 16"
definition sizeof_mpproc :: u32 where "sizeof_mpproc = 20"

text \<open>The first argument is the number of structures of 16 bytes left before \<^verbatim>\<open>end\<close>.\<close>

fun mpsearch_loop :: "nat \<Rightarrow> u32 \<Rightarrow> ('a kmem_scheme, u32 option) kfun" where
  "mpsearch_loop 0 mp = kreturn None"
| "mpsearch_loop (Suc n) mp =
     kbind (kmem_eq mp (str ''_MP_'')) (\<lambda>sig.
     kbind (if sig then mp_sum mp sizeof_mp else kreturn 1) (\<lambda>c.
     if sig \<and> c = 0 then kreturn (Some mp) else mpsearch_loop n (mp + of_nat sizeof_mp)))"

definition mpsearch1 :: "u32 \<Rightarrow> u32 \<Rightarrow> ('a kmem_scheme, u32 option) kfun" where
  "mpsearch1 a len =
     kbind (KADDR a) (\<lambda>mp.
     kbind (KADDR (a + len)) (\<lambda>e.
     mpsearch_loop ((unat e - unat mp + (sizeof_mp - 1)) div sizeof_mp) mp))"

definition mpsearch :: "('a kmem_scheme, u32 option) kfun" where
  "mpsearch =
     kbind (KADDR (push_bit 4 0x40)) (\<lambda>bda.
     kbind (kload16 (bda + 0x0E)) (\<lambda>p.
     kbind (if p \<noteq> 0 then mpsearch1 (push_bit 4 (ucast p)) 1024
            else kbind (kload16 (bda + 0x13)) (\<lambda>q. mpsearch1 (ucast q * 1024 - 1024) 1024)) (\<lambda>r.
     case r of
       Some mp \<Rightarrow> kreturn (Some mp)
     | None \<Rightarrow> mpsearch1 0xF0000 0x10000)))"

section \<open>The configuration table\<close>

definition mp_physaddr :: "u32 \<Rightarrow> ('a kmem_scheme, u32) kfun" where "mp_physaddr mp = kload32 (mp + 4)"
definition mp_type :: "u32 \<Rightarrow> ('a kmem_scheme, u8) kfun" where "mp_type mp = kload8 (mp + 11)"
definition mp_imcrp :: "u32 \<Rightarrow> ('a kmem_scheme, u8) kfun" where "mp_imcrp mp = kload8 (mp + 12)"

definition conf_length :: "u32 \<Rightarrow> ('a kmem_scheme, u16) kfun" where "conf_length c = kload16 (c + 4)"
definition conf_version :: "u32 \<Rightarrow> ('a kmem_scheme, u8) kfun" where "conf_version c = kload8 (c + 6)"
definition conf_entry :: "u32 \<Rightarrow> ('a kmem_scheme, u16) kfun" where "conf_entry c = kload16 (c + 34)"
definition conf_lapicaddr :: "u32 \<Rightarrow> ('a kmem_scheme, u32) kfun" where "conf_lapicaddr c = kload32 (c + 36)"
definition conf_xlength :: "u32 \<Rightarrow> ('a kmem_scheme, u16) kfun" where "conf_xlength c = kload16 (c + 40)"
definition conf_xchecksum :: "u32 \<Rightarrow> ('a kmem_scheme, u8) kfun" where "conf_xchecksum c = kload8 (c + 42)"
definition conf_entries :: "u32 \<Rightarrow> u32" where "conf_entries c = c + 44"

definition proc_apicid :: "u32 \<Rightarrow> ('a kmem_scheme, u8) kfun" where "proc_apicid p = kload8 (p + 1)"
definition proc_flags :: "u32 \<Rightarrow> ('a kmem_scheme, u8) kfun" where "proc_flags p = kload8 (p + 3)"

definition MPPROC_BOOT :: u8 where "MPPROC_BOOT = 0x02"
definition MPPROC :: u8 where "MPPROC = 0"
definition MPBUS :: u8 where "MPBUS = 1"
definition MPIOAPIC :: u8 where "MPIOAPIC = 2"
definition MPIOINTR :: u8 where "MPIOINTR = 3"
definition MPLINTR :: u8 where "MPLINTR = 4"

definition say :: "string \<Rightarrow> va list \<Rightarrow> 'b \<Rightarrow> ('a kmem_scheme, 'b) kfun" where
  "say fmt ap r = kbind (printk (fmt @ nl) ap) (\<lambda>_. kreturn r)"

text \<open>The result is the pair of \<^verbatim>\<open>*pmp\<close> and the table.\<close>

definition mpconfig :: "('a kmem_scheme, (u32 \<times> u32) option) kfun" where
  "mpconfig =
     kbind mpsearch (\<lambda>r.
     case r of
       None \<Rightarrow> kreturn None
     | Some mp \<Rightarrow>
         kbind (mp_physaddr mp) (\<lambda>pa.
         kbind (if pa = 0 then kreturn 1 else mp_type mp) (\<lambda>ty.
         if pa = 0 \<or> ty \<noteq> 0 then say ''SMP: Default configurations not implemented'' [] None
         else
           kbind (KADDR pa) (\<lambda>conf.
           kbind (kmem_eq conf (str ''PCMP'')) (\<lambda>sig.
           if \<not> sig then say ''SMP: Incorrect MP configuration table signature'' [] None
           else
             kbind (conf_length conf) (\<lambda>len.
             kbind (mp_sum conf (unat len)) (\<lambda>c.
             if c \<noteq> 0 then say ''SMP: Bad MP configuration checksum'' [] None
             else
               kbind (conf_version conf) (\<lambda>v.
               if v \<noteq> 1 \<and> v \<noteq> 4 then say ''SMP: Unsupported MP version %d'' [VW (ucast v)] None
               else
                 kbind (conf_xlength conf) (\<lambda>xlen.
                 kbind (mp_sum (conf + ucast len) (unat xlen)) (\<lambda>xc.
                 kbind (conf_xchecksum conf) (\<lambda>x.
                 if xc \<noteq> x then say ''SMP: Bad MP configuration extended checksum'' [] None
                 else kreturn (Some (mp, conf)))))))))))))"

text \<open>A processor entry: the first eight get a place in \<^verbatim>\<open>cpus\<close>.\<close>

definition add_processor :: "u32 \<Rightarrow> ('a kernel_scheme, unit) kfun" where
  "add_processor p =
     kbind (proc_flags p) (\<lambda>fl.
     kbind (kwhen (fl AND MPPROC_BOOT \<noteq> 0) (kmodify (\<lambda>s. s\<lparr>bootcpu := nat (ncpu s)\<rparr>))) (\<lambda>_.
     kbind (kgets ncpu) (\<lambda>n.
     if n < int NCPU then
       kbind (upd_cpu (nat n) (\<lambda>c. c\<lparr>cpu_id := of_int n\<rparr>)) (\<lambda>_.
       kmodify (\<lambda>s. s\<lparr>ncpu := ncpu s + 1\<rparr>))
     else
       kbind (proc_apicid p) (\<lambda>a. say ''SMP: too many CPUs, CPU %d disabled'' [VW (ucast a)] ()))))"

text \<open>The loop over the entries; the first argument is the number of rounds left.\<close>

fun entries_loop :: "nat \<Rightarrow> u32 \<Rightarrow> ('a kernel_scheme, unit) kfun" where
  "entries_loop 0 p = kreturn ()"
| "entries_loop (Suc n) p =
     kbind (kload8 p) (\<lambda>ty.
     if ty = MPPROC then kbind (add_processor p) (\<lambda>_. entries_loop n (p + sizeof_mpproc))
     else if ty \<in> {MPBUS, MPIOAPIC, MPIOINTR, MPLINTR} then entries_loop n (p + 8)
     else
       kbind (printk (''mpinit: unknown config type %x'' @ nl) [VW (ucast ty)]) (\<lambda>_.
       kmodify (\<lambda>s. s\<lparr>ismp := False\<rparr>)))"

text \<open>\<open>imcr\<close> is what the port \<^verbatim>\<open>0x23\<close> reads.\<close>

definition mp_init :: "u8 \<Rightarrow> ('a kernel_scheme, unit) kfun" where
  "mp_init imcr =
     kbind (kmodify (\<lambda>s. s\<lparr>bootcpu := 0\<rparr>)) (\<lambda>_.
     kbind mpconfig (\<lambda>r.
     case r of
       None \<Rightarrow> kreturn ()
     | Some (mp, conf) \<Rightarrow>
         kbind (kmodify (\<lambda>s. s\<lparr>ismp := True\<rparr>)) (\<lambda>_.
         kbind (conf_lapicaddr conf) (\<lambda>la.
         kbind (kmodify (\<lambda>s. s\<lparr>lapicaddr := la\<rparr>)) (\<lambda>_.
         kbind (conf_entry conf) (\<lambda>n.
         kbind (entries_loop (unat n) (conf_entries conf)) (\<lambda>_.
         kbind (kgets bootcpu) (\<lambda>b.
         kbind (upd_cpu b (\<lambda>c. c\<lparr>cpu_status := CPU_STARTED\<rparr>)) (\<lambda>_.
         kbind (kgets ismp) (\<lambda>m.
         if \<not> m then
           kbind (kmodify (\<lambda>s. s\<lparr>ncpu := 1, lapicaddr := 0\<rparr>)) (\<lambda>_.
           say ''SMP: configuration not found, SMP disabled'' [] ())
         else
           kbind (get_cpu b) (\<lambda>c.
           kbind (kgets ncpu) (\<lambda>nc.
           kbind (printk (''SMP: CPU %d found %d CPU(s)'' @ nl) [VW (ucast (cpu_id c)), VW (of_int nc)]) (\<lambda>_.
           kbind (mp_imcrp mp) (\<lambda>im.
           kwhen (im \<noteq> 0)
             (kbind (printk (''SMP: Setting IMCR to switch from PIC mode to symmetric I/O mode'' @ nl) []) (\<lambda>_.
              kbind (outb 0x22 0x70) (\<lambda>_. outb 0x23 (imcr OR 1))))))))))))))))))"

end
