(* ===== verification/Sched.thy ===== *)
theory Sched
  imports Cpu
begin

text \<open>
  Tasks and the scheduler: \<^verbatim>\<open>kernel/task.c\<close> and \<^verbatim>\<open>kernel/sched.c\<close>. An operation that may end in
  \<^verbatim>\<open>ctx_switch\<close>, which does not return to its caller, yields a \<open>flow\<close>: \<open>Ret\<close> when it returns,
  \<open>Switch pid\<close> when the processor goes on in user mode in task \<open>pid\<close>.
\<close>

datatype 'b flow = Ret 'b | Switch nat

section \<open>The scheduler\<close>

definition pgdir_kva :: "nat option \<Rightarrow> u32" where
  "pgdir_kva p = (case p of None \<Rightarrow> 0 | Some fr \<Rightarrow> frame_kva fr)"

definition the_pgdir :: "nat option \<Rightarrow> ('a kernel_scheme, nat) kfun" where
  "the_pgdir p = (case p of None \<Rightarrow> kfail NullDeref | Some fr \<Rightarrow> kreturn fr)"

definition rq_at :: "int \<Rightarrow> Runqueue \<Rightarrow> ('a kernel_scheme, int) kfun" where
  "rq_at i rq = (if 0 \<le> i \<and> i < int (length (runQueue rq)) then kreturn (runQueue rq ! nat i) else kfail BadIndex)"

text \<open>The body of the search's \<^verbatim>\<open>if\<close>: switch to task \<open>pid\<close>, found at position \<open>idx\<close> of the run queue.\<close>

definition switch_to :: "int \<Rightarrow> int \<Rightarrow> ('a kernel_scheme, unit flow) kfun" where
  "switch_to pid idx =
     kbind (upd_thiscpu (\<lambda>c. c\<lparr>cpu_task := Some (nat pid)\<rparr>)) (\<lambda>_.
     kbind (upd_task pid (\<lambda>t. t\<lparr>state := TASK_RUNNING\<rparr>)) (\<lambda>_.
     kbind (upd_task pid (\<lambda>t. t\<lparr>remind_ticks := TIME_QUANT\<rparr>)) (\<lambda>_.
     kbind (upd_thiscpu (\<lambda>c. c\<lparr>cpu_rq := (cpu_rq c)\<lparr>current_index := idx\<rparr>\<rparr>)) (\<lambda>_.
     kbind (get_task pid) (\<lambda>t.
     kbind (PADDR (pgdir_kva (pgdir t))) (\<lambda>pa.
     kbind (lcr3 pa) (\<lambda>_.
     kreturn (Switch (nat pid)))))))))"

text \<open>The first argument counts the iterations left.\<close>

fun sched_loop :: "nat \<Rightarrow> int \<Rightarrow> ('a kernel_scheme, unit flow) kfun" where
  "sched_loop 0 rq_idx = kreturn (Ret ())"
| "sched_loop (Suc n) rq_idx =
     kbind thiscpu (\<lambda>c.
     let rq_idx' = (rq_idx + 1) mod total (cpu_rq c) in
     kbind (rq_at rq_idx' (cpu_rq c)) (\<lambda>next_pid.
     kbind (get_task next_pid) (\<lambda>t.
     if state t = TASK_RUNNABLE then switch_to next_pid rq_idx'
     else sched_loop n rq_idx')))"

definition sched_yield :: "('a kernel_scheme, unit flow) kfun" where
  "sched_yield =
     kbind thiscpu (\<lambda>c.
     sched_loop (nat (total (cpu_rq c)))
       (if cpu_task c \<noteq> None then current_index (cpu_rq c) else 0))"

section \<open>Creating a task\<close>

definition lock_tasks :: "('a kernel_scheme, unit) kfun" where
  "lock_tasks = acquire tasks_lock tasks_lock_update"

definition unlock_tasks :: "('a kernel_scheme, unit) kfun" where
  "unlock_tasks = release tasks_lock tasks_lock_update"

fun find_free :: "nat list \<Rightarrow> ('a kernel_scheme, nat option) kfun" where
  "find_free [] = kreturn None"
| "find_free (pid # ps) =
     kbind (get_task (int pid)) (\<lambda>t.
     if state t = TASK_FREE then kreturn (Some pid) else find_free ps)"

text \<open>The values \<^verbatim>\<open>va - PGSIZE\<close> of the loops over the pages of a user stack.\<close>

definition stack_vas :: "u32 list" where
  "stack_vas = map (\<lambda>k. USTACKTOP - of_nat k * PGSIZE - PGSIZE) [0..<unat (USR_STACK_SIZE div PGSIZE)]"

fun alloc_stack :: "nat \<Rightarrow> u32 list \<Rightarrow> ('a kernel_scheme, bool) kfun" where
  "alloc_stack pd [] = kreturn True"
| "alloc_stack pd (va # vas) =
     kbind (page_alloc ALLOC_ZERO) (\<lambda>r.
     case r of
       None \<Rightarrow> kreturn False
     | Some pp \<Rightarrow>
         kbind (page_insert pd pp va (PTE_W OR PTE_U)) (\<lambda>e.
         if e = - 1 then kreturn False else alloc_stack pd vas))"

definition user_tf :: Trapframe where
  "user_tf = zero_tf\<lparr>tf_cs := ucast (GD_UT OR 3), tf_ds := ucast (GD_UD OR 3),
     tf_es := ucast (GD_UD OR 3), tf_ss := ucast (GD_UD OR 3), tf_esp := USTACKTOP - PGSIZE\<rparr>"

definition current_pid :: "('a kernel_scheme, int) kfun" where
  "current_pid =
     kbind thiscpu (\<lambda>c.
     case cpu_task c of
       None \<Rightarrow> kreturn 0
     | Some t \<Rightarrow> kbind (get_task (int t)) (\<lambda>ts. kreturn (task_id ts)))"

text \<open>The page directory and the user stack of the task \<open>pid\<close>; the result says whether there was memory enough.\<close>

definition new_space :: "nat \<Rightarrow> ('a kernel_scheme, bool) kfun" where
  "new_space pid =
     kbind setupkvm (\<lambda>p.
     kbind (upd_task (int pid) (\<lambda>t. t\<lparr>pgdir := p\<rparr>)) (\<lambda>_.
     case p of
       None \<Rightarrow> kfail (Panic (''Not enough memory for per process page directory!'' @ nl))
     | Some pd \<Rightarrow> alloc_stack pd stack_vas))"

definition fill_task :: "nat \<Rightarrow> ('a kernel_scheme, unit) kfun" where
  "fill_task pid =
     kbind (upd_task (int pid) (\<lambda>t. t\<lparr>tf := user_tf\<rparr>)) (\<lambda>_.
     kbind (upd_task (int pid) (\<lambda>t. t\<lparr>task_id := int pid\<rparr>)) (\<lambda>_.
     kbind current_pid (\<lambda>parent.
     upd_task (int pid) (\<lambda>t. t\<lparr>parent_id := parent, remind_ticks := TIME_QUANT,
       state := TASK_RUNNABLE\<rparr>))))"

definition task_create :: "('a kernel_scheme, int) kfun" where
  "task_create =
     kbind lock_tasks (\<lambda>_.
     kbind (find_free [0..<NR_TASKS]) (\<lambda>r.
     case r of
       None \<Rightarrow> kbind unlock_tasks (\<lambda>_. kreturn (- 1))
     | Some pid \<Rightarrow>
         kbind (new_space pid) (\<lambda>ok.
         if \<not> ok then kbind unlock_tasks (\<lambda>_. kreturn (- 1))
         else
           kbind (fill_task pid) (\<lambda>_.
           kbind unlock_tasks (\<lambda>_.
           kreturn (int pid))))))"

section \<open>Ending a task\<close>

definition task_free :: "int \<Rightarrow> ('a kernel_scheme, unit) kfun" where
  "task_free pid =
     kbind (kgets kern_pgdir) (\<lambda>kp.
     kbind (PADDR (frame_kva kp)) (\<lambda>pa.
     kbind (lcr3 pa) (\<lambda>_.
     kbind (get_task pid) (\<lambda>t.
     kbind (the_pgdir (pgdir t)) (\<lambda>pd.
     kbind (kfor stack_vas (\<lambda>va. page_remove pd va)) (\<lambda>_.
     kbind (ptable_remove pd) (\<lambda>_.
     pgdir_remove pd)))))))"

text \<open>The loop of \<^verbatim>\<open>sys_kill\<close> over the positions given: the last entry takes the place of the first match.\<close>

fun rq_remove :: "int \<Rightarrow> nat list \<Rightarrow> Runqueue \<Rightarrow> kfault + Runqueue" where
  "rq_remove pid [] rq = Inr rq"
| "rq_remove pid (i # is) rq =
     (if length (runQueue rq) \<le> i then Inl BadIndex
      else if runQueue rq ! i = pid then
        (let n = total rq - 1 in
         if 0 \<le> n \<and> n < int (length (runQueue rq))
         then Inr (rq\<lparr>total := n, runQueue := (runQueue rq)[i := runQueue rq ! nat n]\<rparr>)
         else Inl BadIndex)
      else rq_remove pid is rq)"

definition sys_kill :: "int \<Rightarrow> ('a kernel_scheme, unit flow) kfun" where
  "sys_kill pid =
     (if 0 < pid \<and> pid < int NR_TASKS then
        kbind thiscpu (\<lambda>c.
        if total (cpu_rq c) > 1 then
          kbind (ksum (rq_remove pid [0..<nat (total (cpu_rq c))] (cpu_rq c))) (\<lambda>rq.
          kbind (upd_thiscpu (\<lambda>c. c\<lparr>cpu_rq := rq\<rparr>)) (\<lambda>_.
          kbind lock_tasks (\<lambda>_.
          kbind (task_free pid) (\<lambda>_.
          kbind (upd_task pid (\<lambda>t. t\<lparr>state := TASK_FREE\<rparr>)) (\<lambda>_.
          kbind unlock_tasks (\<lambda>_.
          kbind thiscpu (\<lambda>c.
          case cpu_task c of
            None \<Rightarrow> kfail NullDeref
          | Some cur \<Rightarrow>
              kbind (get_task (int cur)) (\<lambda>t.
              if task_id t = pid then
                kbind (upd_thiscpu (\<lambda>c. c\<lparr>cpu_task := None\<rparr>)) (\<lambda>_. sched_yield)
              else kreturn (Ret ())))))))))
        else kreturn (Ret ()))
      else kreturn (Ret ()))"

section \<open>Copying a task\<close>

definition pte_page :: "(nat \<times> nat) option \<Rightarrow> ('a kernel_scheme, nat) kfun" where
  "pte_page r = (case r of None \<Rightarrow> kfail NullDeref | Some pte \<Rightarrow> kbind (kread pte) (\<lambda>e. KADDR_frame (PTE_ADDR e)))"

definition copy_page :: "nat \<Rightarrow> nat \<Rightarrow> u32 \<Rightarrow> ('a kernel_scheme, unit) kfun" where
  "copy_page parent child va =
     kbind (pgdir_walk parent va False) (\<lambda>pte_parent.
     kbind (pgdir_walk child va False) (\<lambda>pte_child.
     kbind (pte_page pte_child) (\<lambda>d.
     kbind (pte_page pte_parent) (\<lambda>f.
     kmodify (\<lambda>s. s\<lparr>pmem := (pmem s)(d := pmem s f)\<rparr>)))))"

definition map_user_image :: "nat \<Rightarrow> ('a kernel_scheme, unit) kfun" where
  "map_user_image pd =
     kbind (kgets (\<lambda>s. (UTEXT_start s, UTEXT_SZ s))) (\<lambda>(a, n). kbind (setupvm pd a n) (\<lambda>_.
     kbind (kgets (\<lambda>s. (UDATA_start s, UDATA_SZ s))) (\<lambda>(a, n). kbind (setupvm pd a n) (\<lambda>_.
     kbind (kgets (\<lambda>s. (UBSS_start s, UBSS_SZ s))) (\<lambda>(a, n). kbind (setupvm pd a n) (\<lambda>_.
     kbind (kgets (\<lambda>s. (URODATA_start s, URODATA_SZ s))) (\<lambda>(a, n). setupvm pd a n)))))))"

definition set_eax :: "u32 \<Rightarrow> Task \<Rightarrow> Task" where
  "set_eax v t = t\<lparr>tf := (tf t)\<lparr>tf_regs := (tf_regs (tf t))\<lparr>reg_eax := v\<rparr>\<rparr>\<rparr>"

definition fork_copy :: "nat \<Rightarrow> int \<Rightarrow> ('a kernel_scheme, unit) kfun" where
  "fork_copy cur pid =
     kbind (get_task (int cur)) (\<lambda>parent.
     kbind (upd_task pid (\<lambda>t. t\<lparr>tf := tf parent\<rparr>)) (\<lambda>_.
     kbind (get_task pid) (\<lambda>child.
     kbind (the_pgdir (pgdir parent)) (\<lambda>pp.
     kbind (the_pgdir (pgdir child)) (\<lambda>pc.
     kbind (kfor stack_vas (copy_page pp pc)) (\<lambda>_.
     kbind (map_user_image pc) (\<lambda>_.
     kbind (upd_task (int cur) (set_eax (of_int pid))) (\<lambda>_.
     upd_task pid (set_eax 0)))))))))"

fun pick_cpu :: "nat list \<Rightarrow> int \<Rightarrow> nat \<Rightarrow> ('a kernel_scheme, nat) kfun" where
  "pick_cpu [] least cpu_idx = kreturn cpu_idx"
| "pick_cpu (i # is) least cpu_idx =
     kbind (get_cpu i) (\<lambda>c.
     if total (cpu_rq c) < least then pick_cpu is (total (cpu_rq c)) i
     else pick_cpu is least cpu_idx)"

definition rq_push :: "int \<Rightarrow> Runqueue \<Rightarrow> kfault + Runqueue" where
  "rq_push pid rq =
     (if 0 \<le> total rq \<and> total rq < int (length (runQueue rq))
      then Inr (rq\<lparr>runQueue := (runQueue rq)[nat (total rq) := pid], total := total rq + 1\<rparr>)
      else Inl BadIndex)"

text \<open>The new task goes to the processor with the fewest tasks.\<close>

definition enqueue :: "int \<Rightarrow> ('a kernel_scheme, unit) kfun" where
  "enqueue pid =
     kbind (acquire cpus_lock cpus_lock_update) (\<lambda>_.
     kbind (kgets ncpu) (\<lambda>n.
     kbind (pick_cpu [0..<nat n] (int NR_TASKS) 0) (\<lambda>i.
     kbind (get_cpu i) (\<lambda>w.
     kbind (ksum (rq_push pid (cpu_rq w))) (\<lambda>rq.
     kbind (upd_cpu i (\<lambda>c. c\<lparr>cpu_rq := rq\<rparr>)) (\<lambda>_.
     release cpus_lock cpus_lock_update))))))"

definition sys_fork :: "('a kernel_scheme, int) kfun" where
  "sys_fork =
     kbind task_create (\<lambda>pid.
     if pid = - 1 then kreturn (- 1)
     else
       kbind thiscpu (\<lambda>c.
       kbind (case cpu_task c of None \<Rightarrow> kreturn () | Some cur \<Rightarrow> fork_copy cur pid) (\<lambda>_.
       kbind (enqueue pid) (\<lambda>_.
       kreturn pid))))"

section \<open>Start-up\<close>

definition initial_tss :: "u32 \<Rightarrow> tss_struct" where
  "initial_tss kstack = zero_tss\<lparr>ts_esp0 := kstack + KSTKSIZE, ts_ss0 := ucast GD_KD,
     ts_fs := ucast (GD_UD OR 3), ts_gs := ucast (GD_UD OR 3)\<rparr>"

definition set_gdt :: "nat \<Rightarrow> Segdesc \<Rightarrow> ('a kernel_scheme, unit) kfun" where
  "set_gdt i d = (\<lambda>s. if i < length (gdt s) then Inr ((), s\<lparr>gdt := (gdt s)[i := d]\<rparr>) else Inl BadIndex)"

definition first_rq :: "int \<Rightarrow> Runqueue" where
  "first_rq i = \<lparr>total = 1, current_index = 0, runQueue = (replicate NR_TASKS 0)[0 := i]\<rparr>"

definition task_init_percpu :: "('a kernel_scheme, unit) kfun" where
  "task_init_percpu =
     kbind (kgets cpunum) (\<lambda>me.
     kbind thiscpu (\<lambda>c.
     kbind (kgets (\<lambda>s. percpu_kstacks s (unat (cpu_id c)))) (\<lambda>kstack.
     kbind (upd_thiscpu (\<lambda>c. c\<lparr>cpu_tss := initial_tss kstack\<rparr>)) (\<lambda>_.
     kbind (kgets (\<lambda>s. tss_addr s me)) (\<lambda>ta.
     kbind (set_gdt (unat (GD_TSS0 div 8) + unat (cpu_id c))
              ((SEG16 STS_T32A ta sizeof_tss 0)\<lparr>sd_s := 0\<rparr>)) (\<lambda>_.
     kbind task_create (\<lambda>i.
     if i < 0 then kfail BadIndex
     else
       kbind (upd_thiscpu (\<lambda>c. c\<lparr>cpu_task := Some (nat i)\<rparr>)) (\<lambda>_.
       kbind (get_task i) (\<lambda>t.
       kbind (the_pgdir (pgdir t)) (\<lambda>pd.
       kbind (map_user_image pd) (\<lambda>_.
       kbind (kgets bootcpu) (\<lambda>b.
       kbind (get_cpu b) (\<lambda>boot.
       kbind (kgets (\<lambda>s. if cpu_id c = cpu_id boot then user_entry s else idle_entry s)) (\<lambda>eip.
       kbind (upd_task i (\<lambda>t. t\<lparr>tf := (tf t)\<lparr>tf_eip := eip\<rparr>, state := TASK_RUNNING\<rparr>)) (\<lambda>_.
       kbind (upd_thiscpu (\<lambda>c. c\<lparr>cpu_rq := first_rq i\<rparr>)) (\<lambda>_.
       kmodify (\<lambda>s. s\<lparr>gdt_loaded := True, ldtr := 0,
         tr := push_bit 3 (GD_TSS0 div 8 + ucast (cpu_id c))\<rparr>)))))))))))))))))"

definition task_init :: "('a kernel_scheme, unit) kfun" where
  "task_init =
     kbind (kmodify (\<lambda>s. s\<lparr>UTEXT_SZ := UTEXT_end s - UTEXT_start s,
       UDATA_SZ := UDATA_end s - UDATA_start s, UBSS_SZ := UBSS_end s - UBSS_start s,
       URODATA_SZ := URODATA_end s - URODATA_start s\<rparr>)) (\<lambda>_.
     kbind (kmodify (\<lambda>s. s\<lparr>tasks_lock := spin_initlock ''&tasks_lock'' (tasks_lock s),
       cpus_lock := spin_initlock ''&cpus_lock'' (cpus_lock s)\<rparr>)) (\<lambda>_.
     kbind (kfor [0..<NR_TASKS] (\<lambda>i. upd_task (int i) (\<lambda>_. zero_task\<lparr>state := TASK_FREE\<rparr>))) (\<lambda>_.
     task_init_percpu)))"

section \<open>The run queues\<close>

text \<open>
  What the scheduler relies on: the arrays have their sizes, the queue's entries are task numbers,
  and the page directories of these tasks lie in the part of memory the kernel sees.
\<close>

definition this_cpu :: "'a kernel_scheme \<Rightarrow> CpuInfo" where
  "this_cpu s = cpus s ! cpunum s"

definition rq_wf :: "Runqueue \<Rightarrow> bool" where
  "rq_wf rq \<longleftrightarrow> length (runQueue rq) = NR_TASKS \<and> 0 \<le> total rq \<and> total rq \<le> int NR_TASKS \<and>
     0 \<le> current_index rq \<and> (\<forall>i < nat (total rq). 0 \<le> runQueue rq ! i \<and> runQueue rq ! i < int NR_TASKS)"

definition pgdir_ok :: "Task \<Rightarrow> bool" where
  "pgdir_ok t \<longleftrightarrow> (\<exists>fr. pgdir t = Some fr \<and> fr < 0x10000)"

definition sched_wf :: "'a kernel_scheme \<Rightarrow> bool" where
  "sched_wf s \<longleftrightarrow> length (tasks s) = NR_TASKS \<and> length (cpus s) = NCPU \<and> cpunum s < NCPU \<and>
     (\<forall>c < NCPU. rq_wf (cpu_rq (cpus s ! c)) \<and> (\<forall>t. cpu_task (cpus s ! c) = Some t \<longrightarrow> t < NR_TASKS)) \<and>
     (\<forall>i < NR_TASKS. state (tasks s ! i) \<noteq> TASK_FREE \<longrightarrow> pgdir_ok (tasks s ! i))"

lemma sched_wf_simps:
  assumes "sched_wf s"
  shows "length (tasks s) = 32" "length (cpus s) = 8" "cpunum s < 8" "rq_wf (cpu_rq (this_cpu s))"
  using assms by (simp_all add: sched_wf_def this_cpu_def NR_TASKS_def NCPU_def)

lemma thiscpu_ok: "cpunum s < length (cpus s) \<Longrightarrow> thiscpu s = Inr (this_cpu s, s)"
  by (simp add: thiscpu_def get_cpu_def this_cpu_def)

lemma upd_thiscpu_ok:
  "cpunum s < length (cpus s) \<Longrightarrow>
   upd_thiscpu f s = Inr ((), s\<lparr>cpus := (cpus s)[cpunum s := f (this_cpu s)]\<rparr>)"
  by (simp add: upd_thiscpu_def upd_cpu_def this_cpu_def)

lemma get_task_ok: "0 \<le> i \<Longrightarrow> i < int (length (tasks s)) \<Longrightarrow> get_task i s = Inr (tasks s ! nat i, s)"
  by (simp add: get_task_def)

lemma upd_task_ok:
  "0 \<le> i \<Longrightarrow> i < int (length (tasks s)) \<Longrightarrow>
   upd_task i f s = Inr ((), s\<lparr>tasks := (tasks s)[nat i := f (tasks s ! nat i)]\<rparr>)"
  by (simp add: upd_task_def)

lemma cpunum_upd [simp]:
  "cpunum (s\<lparr>cpus := a\<rparr>) = cpunum s" "cpunum (s\<lparr>tasks := b\<rparr>) = cpunum s"
  "cpunum (s\<lparr>cr3 := c\<rparr>) = cpunum s" "cpunum (s\<lparr>tlb := d\<rparr>) = cpunum s"
  "cpunum (s\<lparr>jiffies := e\<rparr>) = cpunum s" "cpunum (s\<lparr>lapic_log := l\<rparr>) = cpunum s"
  by (simp_all add: cpunum_def)

lemmas task_ops = thiscpu_ok upd_thiscpu_ok get_task_ok upd_task_ok

lemma PADDR_frame_kva:
  assumes "fr < 0x10000"
  shows "PADDR (frame_kva fr) s = Inr (page2pa fr, s)"
proof -
  have u: "unat (page2pa fr) = fr * 4096" using assms by (simp add: unat_page2pa)
  have k: "unat KERNBASE = 0xF0000000" by (simp add: KERNBASE_def)
  have "unat (frame_kva fr) = fr * 4096 + 0xF0000000"
    unfolding frame_kva_def using assms by (subst unat_plus_if') (simp add: u k)
  then have "KERNBASE \<le> frame_kva fr" by (simp add: word_le_nat_alt k)
  then show ?thesis by (simp add: frame_kva_def)
qed

lemma lcr3_apply [simp]: "lcr3 v s = Inr ((), s\<lparr>cr3 := v, tlb := (\<lambda>_. None)\<rparr>)"
  by (simp add: lcr3_def)

section \<open>Round robin\<close>

text \<open>The task at position \<open>i\<close> of this processor's queue.\<close>

definition rq_pid :: "'a kernel_scheme \<Rightarrow> int \<Rightarrow> nat" where
  "rq_pid s i = nat (runQueue (cpu_rq (this_cpu s)) ! nat i)"

definition rq_size :: "'a kernel_scheme \<Rightarrow> int" where
  "rq_size s = total (cpu_rq (this_cpu s))"

definition rq_runnable :: "'a kernel_scheme \<Rightarrow> int \<Rightarrow> bool" where
  "rq_runnable s i \<longleftrightarrow> state (tasks s ! rq_pid s i) = TASK_RUNNABLE"

text \<open>The position from which the search goes on, and the \<open>k\<close>-th position it looks at.\<close>

definition rq_start :: "'a kernel_scheme \<Rightarrow> int" where
  "rq_start s = (if cpu_task (this_cpu s) \<noteq> None then current_index (cpu_rq (this_cpu s)) else 0)"

definition rq_pos :: "'a kernel_scheme \<Rightarrow> nat \<Rightarrow> int" where
  "rq_pos s k = (rq_start s + 1 + int k) mod rq_size s"

text \<open>What a switch to the task at position \<open>i\<close> makes of the state.\<close>

definition switched :: "int \<Rightarrow> 'a kernel_scheme \<Rightarrow> 'a kernel_scheme" where
  "switched i s =
     (let pid = rq_pid s i; t = tasks s ! pid; c = this_cpu s in
      s\<lparr>tasks := (tasks s)[pid := t\<lparr>state := TASK_RUNNING, remind_ticks := TIME_QUANT\<rparr>],
        cpus := (cpus s)[cpunum s := c\<lparr>cpu_task := Some pid, cpu_rq := (cpu_rq c)\<lparr>current_index := i\<rparr>\<rparr>],
        cr3 := page2pa (the (pgdir t)), tlb := (\<lambda>_. None)\<rparr>)"

lemma rq_entry:
  assumes "sched_wf s" and "0 \<le> i" and "i < rq_size s"
  shows "rq_at i (cpu_rq (this_cpu s)) s = Inr (int (rq_pid s i), s)" "rq_pid s i < 32"
proof -
  have w: "rq_wf (cpu_rq (this_cpu s))" by (rule sched_wf_simps [OF assms(1)])
  have "nat i < nat (total (cpu_rq (this_cpu s)))" using assms(2,3) by (simp add: rq_size_def)
  with w have "0 \<le> runQueue (cpu_rq (this_cpu s)) ! nat i" "runQueue (cpu_rq (this_cpu s)) ! nat i < 32"
    by (auto simp: rq_wf_def NR_TASKS_def)
  then show "rq_at i (cpu_rq (this_cpu s)) s = Inr (int (rq_pid s i), s)" "rq_pid s i < 32"
    using w assms by (simp_all add: rq_at_def rq_pid_def rq_wf_def rq_size_def)
qed

lemma switch_to_ok:
  assumes wf: "sched_wf s" and i: "0 \<le> i" "i < rq_size s" and run: "rq_runnable s i"
  shows "switch_to (int (rq_pid s i)) i s = Inr (Switch (rq_pid s i), switched i s)"
proof -
  note w = sched_wf_simps [OF wf]
  have p: "rq_pid s i < 32" by (rule rq_entry [OF wf i])
  then have "pgdir_ok (tasks s ! rq_pid s i)"
    using wf run by (simp add: sched_wf_def rq_runnable_def NR_TASKS_def)
  then obtain fr where fr: "pgdir (tasks s ! rq_pid s i) = Some fr" "fr < 0x10000"
    by (auto simp: pgdir_ok_def)
  show ?thesis
    using w p fr
    by (simp add: PADDR_frame_kva [OF fr(2)] switch_to_def kbind_apply upd_thiscpu_ok upd_task_ok get_task_ok pgdir_kva_def
        switched_def this_cpu_def Let_def)
qed

text \<open>The outcome of a search over the positions \<open>f 0\<close>, ..., \<open>f (n - 1)\<close>.\<close>

definition search :: "'a kernel_scheme \<Rightarrow> (nat \<Rightarrow> int) \<Rightarrow> nat \<Rightarrow> kfault + (unit flow \<times> 'a kernel_scheme)" where
  "search s f n = (case find (\<lambda>k. rq_runnable s (f k)) [0..<n] of
     None \<Rightarrow> Inr (Ret (), s)
   | Some k \<Rightarrow> Inr (Switch (rq_pid s (f k)), switched (f k) s))"

lemma search_Suc:
  "search s f (Suc n) =
     (if rq_runnable s (f 0) then Inr (Switch (rq_pid s (f 0)), switched (f 0) s)
      else search s (\<lambda>k. f (Suc k)) n)"
proof -
  have "find P (map g xs) = map_option g (find (\<lambda>x. P (g x)) xs)" for P and g :: "nat \<Rightarrow> nat" and xs
    by (induction xs) auto
  then have "find P [0..<Suc n] = (if P 0 then Some 0 else map_option Suc (find (\<lambda>k. P (Suc k)) [0..<n]))" for P
    by (simp add: upt_conv_Cons map_Suc_upt [symmetric] del: upt_Suc)
  then show ?thesis by (simp add: search_def split: option.splits del: upt_Suc)
qed

lemma sched_loop_ok:
  assumes wf: "sched_wf s" and n: "n = 0 \<or> 0 < rq_size s"
  shows "sched_loop n idx s = search s (\<lambda>k. (idx + 1 + int k) mod rq_size s) n"
  using n
proof (induction n arbitrary: idx)
  case (Suc n)
  let ?T = "rq_size s"
  let ?i = "(idx + 1) mod ?T"
  have i: "0 \<le> ?i" "?i < ?T" using Suc.prems by simp_all
  note w = sched_wf_simps [OF wf] and e = rq_entry [OF wf i]
  have shift: "(?i + 1 + int k) mod ?T = (idx + 1 + int (Suc k)) mod ?T" for k
    using mod_add_left_eq [of "idx + 1" ?T "1 + int k"] by (simp add: ac_simps)
  have "sched_loop (Suc n) idx s =
    (if rq_runnable s ?i then switch_to (int (rq_pid s ?i)) ?i s else sched_loop n ?i s)"
    using w e by (simp add: kbind_apply thiscpu_ok get_task_ok Let_def rq_size_def [symmetric] rq_runnable_def)
  then show ?case
    using Suc.IH [of ?i] Suc.prems switch_to_ok [OF wf i] by (simp only: search_Suc shift) simp
qed (simp add: search_def)

lemma sched_yield_search:
  assumes "sched_wf s"
  shows "sched_yield s = search s (rq_pos s) (nat (rq_size s))"
proof -
  have "nat (rq_size s) = 0 \<or> 0 < rq_size s" by linarith
  note l = sched_loop_ok [OF assms this, of "rq_start s"]
  have "sched_yield s = sched_loop (nat (rq_size s)) (rq_start s) s"
    using sched_wf_simps [OF assms]
    by (simp add: sched_yield_def kbind_apply thiscpu_ok rq_size_def rq_start_def)
  also note l
  finally show ?thesis by (simp add: rq_pos_def [abs_def])
qed

lemma search_none: "(\<And>k. k < n \<Longrightarrow> \<not> rq_runnable s (f k)) \<Longrightarrow> search s f n = Inr (Ret (), s)"
  by (auto simp: search_def find_None_iff split: option.splits)

lemma search_first:
  assumes "k < n" and "rq_runnable s (f k)" and "\<And>j. j < k \<Longrightarrow> \<not> rq_runnable s (f j)"
  shows "search s f n = Inr (Switch (rq_pid s (f k)), switched (f k) s)"
  using assms
proof (induction k arbitrary: f n)
  case 0
  then show ?case by (cases n) (simp_all add: search_Suc)
next
  case (Suc k)
  then obtain m where "n = Suc m" by (cases n) auto
  then show ?case using Suc.IH [of m "\<lambda>k. f (Suc k)"] Suc.prems by (simp add: search_Suc)
qed

lemma search_SwitchE:
  assumes "search s f n = Inr (Switch p, t)"
  obtains k where "k < n" "rq_runnable s (f k)" "p = rq_pid s (f k)" "t = switched (f k) s"
  using assms by (auto simp: search_def find_Some_iff split: option.splits)

text \<open>How many positions the search passes before it comes to position \<open>j\<close>.\<close>

definition rq_dist :: "'a kernel_scheme \<Rightarrow> int \<Rightarrow> nat" where
  "rq_dist s j = nat ((j - rq_start s - 1) mod rq_size s)"

lemma rq_dist_pos:
  assumes "0 \<le> j" and "j < rq_size s"
  shows "rq_dist s j < nat (rq_size s)" "rq_pos s (rq_dist s j) = j"
proof -
  have T: "0 < rq_size s" using assms by simp
  then show "rq_dist s j < nat (rq_size s)" by (simp add: rq_dist_def nat_less_iff)
  have "rq_pos s (rq_dist s j) = (rq_start s + 1 + (j - rq_start s - 1) mod rq_size s) mod rq_size s"
    using T by (simp add: rq_pos_def rq_dist_def)
  also have "\<dots> = j mod rq_size s" by (subst mod_add_right_eq) simp
  finally show "rq_pos s (rq_dist s j) = j" using assms by simp
qed

lemma this_cpu_switched:
  assumes "sched_wf s"
  shows "cpu_rq (this_cpu (switched i s)) = (cpu_rq (this_cpu s))\<lparr>current_index := i\<rparr>"
    and "cpu_task (this_cpu (switched i s)) = Some (rq_pid s i)"
  using sched_wf_simps [OF assms] by (simp_all add: switched_def this_cpu_def Let_def)

text \<open>
  A runnable task that is passed over is closer to its turn at the next call, provided that
  the queue is left alone in between.
\<close>

lemma sched_yield_closer:
  assumes wf: "sched_wf s" and j: "0 \<le> j" "j < rq_size s" and run: "rq_runnable s j"
    and y: "sched_yield s = Inr (Switch p, t)" and p: "p \<noteq> rq_pid s j"
    and u: "cpu_rq (this_cpu u) = cpu_rq (this_cpu t)" "cpu_task (this_cpu u) \<noteq> None"
  shows "rq_dist u j < rq_dist s j"
proof -
  let ?T = "rq_size s" and ?d = "rq_dist s j"
  note d = rq_dist_pos [OF j]
  define k where "k = (LEAST k. rq_runnable s (rq_pos s k))"
  have k: "rq_runnable s (rq_pos s k)" "k \<le> ?d" "\<And>i. i < k \<Longrightarrow> \<not> rq_runnable s (rq_pos s i)"
    using run d(2) unfolding k_def by (auto intro: LeastI2 Least_le dest: not_less_Least)
  have sw: "p = rq_pid s (rq_pos s k)" "t = switched (rq_pos s k) s"
    using y sched_yield_search [OF wf] search_first [of k "nat ?T" s "rq_pos s"] k d(1) by auto
  have "k \<noteq> ?d" using p sw(1) d(2) by auto
  then have "k < ?d" using k(2) by simp
  have T: "0 < ?T" using j by simp
  have "rq_size u = ?T" "rq_start u = rq_pos s k"
    using u this_cpu_switched [OF wf, of "rq_pos s k"] by (simp_all add: sw rq_size_def rq_start_def)
  moreover have "(j - rq_pos s k - 1) mod ?T = (int ?d - int k - 1) mod ?T"
    using T mod_diff_right_eq [of "j - 1" "rq_start s + 1 + int k" ?T]
      mod_diff_left_eq [of "j - rq_start s - 1" ?T "int k + 1"]
    by (simp add: rq_pos_def rq_dist_def algebra_simps)
  moreover have "(int ?d - int k - 1) mod ?T = int ?d - int k - 1"
    using \<open>k < ?d\<close> d(1) by (intro mod_pos_pos_trivial) auto
  ultimately show ?thesis using \<open>k < ?d\<close> by (simp add: rq_dist_def [of u])
qed

text \<open>
  An example machine on a given memory: the first processor runs task 0, task 1 sleeps for two more
  ticks, task 2 is runnable, and all three are in its queue.
\<close>

definition demo_task :: "nat \<Rightarrow> TaskState \<Rightarrow> u32 \<Rightarrow> Task" where
  "demo_task i st ticks = zero_task\<lparr>task_id := int i, state := st, remind_ticks := ticks, pgdir := Some (i + 1)\<rparr>"

definition demo_cpus :: "CpuInfo list" where
  "demo_cpus =
     \<lparr>cpu_id = 0, cpu_status = CPU_STARTED, cpu_task = Some 0,
      cpu_rq = \<lparr>total = 3, current_index = 0, runQueue = 0 # 1 # 2 # replicate 29 0\<rparr>, cpu_tss = zero_tss\<rparr> #
     \<lparr>cpu_id = 1, cpu_status = CPU_STARTED, cpu_task = None,
      cpu_rq = \<lparr>total = 0, current_index = 0, runQueue = replicate 32 0\<rparr>, cpu_tss = zero_tss\<rparr> #
     replicate 6 \<lparr>cpu_id = 0, cpu_status = CPU_UNUSED, cpu_task = None,
      cpu_rq = \<lparr>total = 0, current_index = 0, runQueue = replicate 32 0\<rparr>, cpu_tss = zero_tss\<rparr>"

definition demo_kernel_on :: "kmem \<Rightarrow> kernel" where
  "demo_kernel_on m = kkbd.extend (kgates.extend (kmem.extend m
       (kgates.fields (replicate 256 zero_gate) (replicate 256 None) (\<lambda>_. 0xF0101000) False))
       (kkbd.fields [0x1E] 0 CAPSLOCK (replicate 512 0) 500 500))
     (kernel.fields
       (demo_task 0 TASK_RUNNING 1 # demo_task 1 TASK_SLEEP 2 # demo_task 2 TASK_RUNNABLE 100 # replicate 29 zero_task)
       free_lock free_lock demo_cpus 2 0 True 0 gdt_init True 0 0x28 0 0 True
       zero_tf (\<lambda>_. 0) None
       0xF0200000 0xF0202000 0xF0202000 0xF0203000 0xF0203000 0xF0204000 0xF0204000 0xF0205000
       0x2000 0x1000 0x1000 0x1000 0xF0200000 0xF0201000 (\<lambda>_. 0xF0110000) [] 0 0 0 [])"

definition demo_kernel :: kernel where
  "demo_kernel = demo_kernel_on small_mem"

lemmas demo_kernel_defs = demo_kernel_def demo_kernel_on_def demo_task_def demo_cpus_def
  kernel.defs kkbd.defs kgates.defs kmem.defs small_mem_def zero_task_def

lemma demo_kernel_sel:
  "cpunum demo_kernel = 0" "cpus demo_kernel = demo_cpus" "length (tasks demo_kernel) = 32"
  "tasks demo_kernel =
     demo_task 0 TASK_RUNNING 1 # demo_task 1 TASK_SLEEP 2 # demo_task 2 TASK_RUNNABLE 100 # replicate 29 zero_task"
  by (simp_all add: demo_kernel_defs cpunum_def)

lemma demo_kernel_wf: "sched_wf demo_kernel"
proof -
  have "rq_wf (cpu_rq (demo_cpus ! c)) \<and> (\<forall>t. cpu_task (demo_cpus ! c) = Some t \<longrightarrow> t < 32)" if "c < 8" for c
    using that by (auto simp: demo_cpus_def rq_wf_def nth_Cons' NR_TASKS_def)
  moreover have "state (tasks demo_kernel ! i) \<noteq> TASK_FREE \<longrightarrow> pgdir_ok (tasks demo_kernel ! i)" if "i < 32" for i
    using that by (auto simp: demo_kernel_sel nth_Cons' demo_task_def pgdir_ok_def zero_task_def)
  moreover have "length demo_cpus = 8" by (simp add: demo_cpus_def)
  ultimately show ?thesis by (simp add: sched_wf_def demo_kernel_sel NR_TASKS_def NCPU_def)
qed

lemma demo_kernel_rq:
  "rq_size demo_kernel = 3" "rq_start demo_kernel = 0" "rq_pid demo_kernel 0 = 0" "rq_pid demo_kernel 1 = 1"
  "rq_pid demo_kernel 2 = 2" "rq_runnable demo_kernel 2" "\<not> rq_runnable demo_kernel 1" "\<not> rq_runnable demo_kernel 0"
  by (simp_all add: rq_size_def rq_start_def rq_pid_def rq_runnable_def this_cpu_def demo_kernel_sel
      demo_cpus_def demo_task_def)

lemma demo_kernel_yield: "sched_yield demo_kernel = Inr (Switch 2, switched 2 demo_kernel)"
proof -
  have "rq_pos demo_kernel 0 = 1" "rq_pos demo_kernel 1 = 2" by (simp_all add: rq_pos_def demo_kernel_rq)
  then show ?thesis
    using sched_yield_search [OF demo_kernel_wf] search_first [of 1 3 demo_kernel "rq_pos demo_kernel"]
    by (simp add: demo_kernel_rq)
qed

section \<open>Properties\<close>

text \<open>
  C10. \<^verbatim>\<open>sched_yield\<close> (\<^verbatim>\<open>kernel/sched.c\<close>) is round robin over the run queue of the running processor. If no
  task in the queue is runnable it returns and changes nothing. Otherwise it switches to the first
  runnable task in cyclic order after the current position (after the first position when there is no
  current task): the task becomes the running one with a full time slice and its page directory is
  loaded; nothing else changes.
\<close>
theorem sched_yield_round_robin:
  assumes "sched_wf s"
  shows "((\<forall>k < nat (rq_size s). \<not> rq_runnable s (rq_pos s k)) \<longrightarrow> sched_yield s = Inr (Ret (), s)) \<and>
    (\<forall>k < nat (rq_size s). rq_runnable s (rq_pos s k) \<and> (\<forall>j < k. \<not> rq_runnable s (rq_pos s j)) \<longrightarrow>
       sched_yield s = Inr (Switch (rq_pid s (rq_pos s k)), switched (rq_pos s k) s))"
  using sched_yield_search [OF assms] search_none [of "nat (rq_size s)" s "rq_pos s"]
    search_first [of _ "nat (rq_size s)" s "rq_pos s"] by simp

theorem sched_yield_round_robin_witness:
  "sched_wf demo_kernel \<and> sched_yield demo_kernel = Inr (Switch 2, switched 2 demo_kernel)"
proof -
  have "rq_pos demo_kernel 0 = 1" "rq_pos demo_kernel 1 = 2" by (simp_all add: rq_pos_def demo_kernel_rq)
  then show ?thesis
    using sched_yield_round_robin [OF demo_kernel_wf, THEN conjunct2, rule_format, of 1] demo_kernel_wf
    by (simp add: demo_kernel_rq)
qed

text \<open>
  C11. No runnable task waits for ever: take any sequence of calls of \<^verbatim>\<open>sched_yield\<close> on one processor, between
  which anything may happen as long as the processor's run queue is not changed and a task is current.
  A task in the queue that is runnable whenever it has not been chosen yet is chosen in one of the
  first calls, at most as many as the queue has entries.
\<close>
theorem sched_yield_fair:
  assumes wf: "\<And>n. sched_wf (s n)"
    and yield: "\<And>n. sched_yield (s n) = Inr (Switch (p n), t n)"
    and queue: "\<And>n. cpu_rq (this_cpu (s (Suc n))) = cpu_rq (this_cpu (t n))"
    and current: "\<And>n. cpu_task (this_cpu (s (Suc n))) \<noteq> None"
    and pos: "0 \<le> j" "j < rq_size (s 0)"
    and waits: "\<And>n. \<forall>m < n. p m \<noteq> rq_pid (s 0) j \<Longrightarrow> rq_runnable (s n) j"
  shows "\<exists>n < nat (rq_size (s 0)). p n = rq_pid (s 0) j"
proof (rule ccontr)
  let ?q = "rq_pid (s 0) j" and ?T = "rq_size (s 0)"
  assume none: "\<not> (\<exists>n < nat ?T. p n = ?q)"
  have step: "rq_size (s (Suc n)) = rq_size (s n)" "rq_pid (s (Suc n)) j = rq_pid (s n) j" for n
  proof -
    have "\<exists>i. t n = switched i (s n)"
      using yield [of n] unfolding sched_yield_search [OF wf] by (blast elim: search_SwitchE)
    then show "rq_size (s (Suc n)) = rq_size (s n)" "rq_pid (s (Suc n)) j = rq_pid (s n) j"
      using queue [of n] this_cpu_switched(1) [OF wf] by (auto simp: rq_size_def rq_pid_def)
  qed
  have same: "rq_size (s n) = ?T \<and> rq_pid (s n) j = ?q" for n
    by (induction n) (simp_all add: step)
  have "n \<le> nat ?T \<Longrightarrow> rq_dist (s n) j + n \<le> rq_dist (s 0) j" for n
  proof (induction n)
    case (Suc n)
    have "p n \<noteq> ?q" using none Suc.prems by auto
    moreover have "rq_runnable (s n) j" using none Suc.prems by (intro waits) auto
    ultimately have "rq_dist (s (Suc n)) j < rq_dist (s n) j"
      using wf pos same [of n] yield queue current
      by (intro sched_yield_closer [of "s n" j "p n" "t n"]) auto
    with Suc show ?case by simp
  qed simp
  from this [of "nat ?T"] rq_dist_pos(1) [OF pos] show False by simp
qed

theorem sched_yield_fair_witness:
  "\<exists>s :: kernel. sched_wf s \<and> sched_yield s = Inr (Switch 2, switched 2 s) \<and> (\<exists>n < nat (rq_size s). 2 = rq_pid s 2)"
proof -
  define s where "s = switched 2 demo_kernel\<lparr>tasks := tasks demo_kernel\<rparr>"
  have rq: "cpu_rq (this_cpu s) = (cpu_rq (this_cpu demo_kernel))\<lparr>current_index := 2\<rparr>"
    and ct: "cpu_task (this_cpu s) = Some 2" and ts: "tasks s = tasks demo_kernel"
    using this_cpu_switched [OF demo_kernel_wf, of 2]
    by (simp_all add: s_def this_cpu_def demo_kernel_rq)
  have wf: "sched_wf s"
    using demo_kernel_wf
    by (auto simp: sched_wf_def s_def switched_def Let_def nth_list_update rq_wf_def this_cpu_def
        demo_kernel_rq NR_TASKS_def)
  have q: "rq_size s = 3" "rq_start s = 2" "rq_pid s i = rq_pid demo_kernel i"
    "rq_runnable s i = rq_runnable demo_kernel i" for i
    using demo_kernel_rq ts by (simp_all add: rq_size_def rq_start_def rq_pid_def rq_runnable_def rq ct)
  have y: "sched_yield s = Inr (Switch 2, switched 2 s)"
  proof -
    have "\<not> rq_runnable s (rq_pos s j)" if "j < 2" for j
      using that demo_kernel_rq by (auto simp: q rq_pos_def less_2_cases_iff)
    then show ?thesis
      using sched_yield_search [OF wf] search_first [of 2 3 s "rq_pos s"] demo_kernel_rq
      by (simp add: q rq_pos_def)
  qed
  have "\<exists>n < nat (rq_size s). (2 :: nat) = rq_pid s 2"
    by (rule sched_yield_fair [of "\<lambda>_. s" "\<lambda>_. 2" "\<lambda>_. switched 2 s" 2])
      (simp_all add: wf y q rq ct this_cpu_switched demo_kernel_rq)
  with wf y show ?thesis by blast
qed

end
