(* ===== verification/Trap.thy ===== *)
theory Trap
  imports Sched
begin

text \<open>
  What happens on a trap: the timer interrupt (\<^verbatim>\<open>kernel/timer.c\<close>), the system calls
  (\<^verbatim>\<open>kernel/syscall.c\<close>) and the dispatcher (\<^verbatim>\<open>kernel/trap.c\<close>). The entry code of \<^verbatim>\<open>trap_entry.S\<close> has
  pushed the registers as \<open>stack_tf\<close> and calls \<^verbatim>\<open>default_trap_handler\<close>; its outcome is a \<open>trap_exit\<close>:
  a return to the entry code, \<^verbatim>\<open>env_pop_tf\<close> on a frame, or a switch to another task.
\<close>

datatype trap_exit = TrapReturn | PopTf tfptr | SwitchTo nat

definition read_tf :: "tfptr \<Rightarrow> ('a kernel_scheme, Trapframe) kfun" where
  "read_tf p = (case p of
     StackFrame \<Rightarrow> kgets stack_tf
   | TaskFrame t \<Rightarrow> kbind (get_task (int t)) (\<lambda>ts. kreturn (tf ts)))"

definition upd_tf :: "tfptr \<Rightarrow> (Trapframe \<Rightarrow> Trapframe) \<Rightarrow> ('a kernel_scheme, unit) kfun" where
  "upd_tf p f = (case p of
     StackFrame \<Rightarrow> kmodify (\<lambda>s. s\<lparr>stack_tf := f (stack_tf s)\<rparr>)
   | TaskFrame t \<Rightarrow> upd_task (int t) (\<lambda>ts. ts\<lparr>tf := f (tf ts)\<rparr>))"

text \<open>The pointer \<^verbatim>\<open>thiscpu->cpu_task\<close>, used without a test for null.\<close>

definition cur_task :: "('a kernel_scheme, nat) kfun" where
  "cur_task = kbind thiscpu (\<lambda>c. case cpu_task c of None \<Rightarrow> kfail NullDeref | Some t \<Rightarrow> kreturn t)"

section \<open>The timer\<close>

text \<open>One round of the loop over the run queue: a sleeping task comes one tick closer to waking.\<close>

definition tick_sleeper :: "nat \<Rightarrow> ('a kernel_scheme, unit) kfun" where
  "tick_sleeper i =
     kbind thiscpu (\<lambda>c.
     kbind (rq_at (int i) (cpu_rq c)) (\<lambda>pid.
     kbind (get_task pid) (\<lambda>t.
     kwhen (state t = TASK_SLEEP)
       (kbind (upd_task pid (\<lambda>t. t\<lparr>remind_ticks := remind_ticks t - 1\<rparr>)) (\<lambda>_.
        kbind (get_task pid) (\<lambda>t.
        kwhen (sint (remind_ticks t) \<le> 0) (upd_task pid (\<lambda>t. t\<lparr>state := TASK_RUNNABLE\<rparr>))))))))"

definition timer_handler :: "('a kernel_scheme, unit flow) kfun" where
  "timer_handler =
     kbind (kmodify (\<lambda>s. s\<lparr>jiffies := jiffies s + 1\<rparr>)) (\<lambda>_.
     kbind lapic_eoi (\<lambda>_.
     kbind thiscpu (\<lambda>c.
     case cpu_task c of
       None \<Rightarrow> kreturn (Ret ())
     | Some cur \<Rightarrow>
         kbind (kfor [0..<nat (total (cpu_rq c))] tick_sleeper) (\<lambda>_.
         kbind (upd_task (int cur) (\<lambda>t. t\<lparr>remind_ticks := remind_ticks t - 1\<rparr>)) (\<lambda>_.
         kbind (get_task (int cur)) (\<lambda>t.
         if sint (remind_ticks t) \<le> 0 then
           kbind (upd_task (int cur) (\<lambda>t. t\<lparr>state := TASK_RUNNABLE\<rparr>)) (\<lambda>_. sched_yield)
         else kreturn (Ret ())))))))"

definition sys_get_ticks :: "('a kernel_scheme, u32) kfun" where
  "sys_get_ticks = kgets jiffies"

definition timer_init :: "('a kernel_scheme, unit) kfun" where
  "timer_init =
     kbind (set_timer TIME_HZ) (\<lambda>_.
     kbind (irq_enable IRQ_TIMER) (\<lambda>_.
     register_handler (int IRQ_OFFSET + int IRQ_TIMER) H_timer TIM_ISR False 0))"

section \<open>System calls\<close>

definition SYS_puts :: u32 where "SYS_puts = 0"
definition SYS_getc :: u32 where "SYS_getc = 1"
definition SYS_getpid :: u32 where "SYS_getpid = 2"
definition SYS_getcid :: u32 where "SYS_getcid = 3"
definition SYS_fork :: u32 where "SYS_fork = 4"
definition SYS_kill :: u32 where "SYS_kill = 5"
definition SYS_sleep :: u32 where "SYS_sleep = 6"
definition SYS_get_num_used_page :: u32 where "SYS_get_num_used_page = 7"
definition SYS_get_num_free_page :: u32 where "SYS_get_num_free_page = 8"
definition SYS_get_ticks :: u32 where "SYS_get_ticks = 9"
definition SYS_settextcolor :: u32 where "SYS_settextcolor = 10"
definition SYS_cls :: u32 where "SYS_cls = 11"

definition do_puts :: "u32 \<Rightarrow> u32 \<Rightarrow> ('a kernel_scheme, unit) kfun" where
  "do_puts p len = kfor [0..<unat len] (\<lambda>i. kbind (vload8 (p + of_nat i)) k_putch)"

definition do_getc :: "('a kernel_scheme, int) kfun" where
  "do_getc = k_getc"

definition ret_as :: "('b \<Rightarrow> u32) \<Rightarrow> ('a kernel_scheme, 'b) kfun \<Rightarrow> ('a kernel_scheme, u32 flow) kfun" where
  "ret_as g m = kbind m (\<lambda>v. kreturn (Ret (g v)))"

definition flow_as :: "u32 \<Rightarrow> ('a kernel_scheme, unit flow) kfun \<Rightarrow> ('a kernel_scheme, u32 flow) kfun" where
  "flow_as v m = kbind m (\<lambda>r. case r of Ret _ \<Rightarrow> kreturn (Ret v) | Switch p \<Rightarrow> kreturn (Switch p))"

definition do_syscall :: "u32 \<Rightarrow> u32 \<Rightarrow> u32 \<Rightarrow> u32 \<Rightarrow> u32 \<Rightarrow> u32 \<Rightarrow> ('a kernel_scheme, u32 flow) kfun" where
  "do_syscall syscallno a1 a2 a3 a4 a5 =
     (if syscallno = SYS_fork then ret_as of_int sys_fork
      else if syscallno = SYS_getc then ret_as of_int do_getc
      else if syscallno = SYS_puts then ret_as (\<lambda>_. 0) (do_puts a1 a2)
      else if syscallno = SYS_getpid then
        ret_as of_int (kbind cur_task (\<lambda>c. kbind (get_task (int c)) (\<lambda>t. kreturn (task_id t))))
      else if syscallno = SYS_getcid then ret_as (\<lambda>c. ucast (cpu_id c)) thiscpu
      else if syscallno = SYS_sleep then
        kbind cur_task (\<lambda>c.
        kbind (upd_task (int c) (\<lambda>t. t\<lparr>remind_ticks := a1\<rparr>)) (\<lambda>_.
        kbind (upd_task (int c) (\<lambda>t. t\<lparr>state := TASK_SLEEP\<rparr>)) (\<lambda>_.
        flow_as 0 sched_yield)))
      else if syscallno = SYS_kill then
        kbind cur_task (\<lambda>c. kbind (get_task (int c)) (\<lambda>t. flow_as 0 (sys_kill (task_id t))))
      else if syscallno = SYS_get_num_free_page then ret_as id sys_get_num_free_page
      else if syscallno = SYS_get_num_used_page then ret_as id sys_get_num_used_page
      else if syscallno = SYS_get_ticks then ret_as id sys_get_ticks
      else if syscallno = SYS_settextcolor then ret_as (\<lambda>_. 0) (sys_settextcolor (ucast a1) (ucast a2))
      else if syscallno = SYS_cls then ret_as (\<lambda>_. 0) sys_cls
      else kreturn (Ret (- 1)))"

definition tf_set_eax :: "u32 \<Rightarrow> Trapframe \<Rightarrow> Trapframe" where
  "tf_set_eax v f = f\<lparr>tf_regs := (tf_regs f)\<lparr>reg_eax := v\<rparr>\<rparr>"

definition syscall_handler :: "tfptr \<Rightarrow> ('a kernel_scheme, unit flow) kfun" where
  "syscall_handler p =
     kbind (read_tf p) (\<lambda>f.
     let r = tf_regs f in
     kbind (do_syscall (reg_eax r) (reg_edx r) (reg_ecx r) (reg_ebx r) (reg_edi r) (reg_esi r)) (\<lambda>v.
     case v of
       Ret v \<Rightarrow> kbind (upd_tf p (tf_set_eax v)) (\<lambda>_. kreturn (Ret ()))
     | Switch t \<Rightarrow> kreturn (Switch t)))"

definition syscall_init :: "('a kernel_scheme, unit) kfun" where
  "syscall_init = register_handler (int T_SYSCALL) H_syscall SYSCALL True 3"

section \<open>Printing a frame\<close>

definition print_hex :: "string \<Rightarrow> u32 \<Rightarrow> ('a kernel_scheme, unit) kfun" where
  "print_hex fmt v = kbind (printk (fmt @ nl) [VW v]) (\<lambda>_. kreturn ())"

definition print_regs :: "PushRegs \<Rightarrow> ('a kernel_scheme, unit) kfun" where
  "print_regs r =
     kbind (print_hex ''  edi  0x%08x'' (reg_edi r)) (\<lambda>_.
     kbind (print_hex ''  esi  0x%08x'' (reg_esi r)) (\<lambda>_.
     kbind (print_hex ''  ebp  0x%08x'' (reg_ebp r)) (\<lambda>_.
     kbind (print_hex ''  oesp 0x%08x'' (reg_oesp r)) (\<lambda>_.
     kbind (print_hex ''  ebx  0x%08x'' (reg_ebx r)) (\<lambda>_.
     kbind (print_hex ''  edx  0x%08x'' (reg_edx r)) (\<lambda>_.
     kbind (print_hex ''  ecx  0x%08x'' (reg_ecx r)) (\<lambda>_.
     print_hex ''  eax  0x%08x'' (reg_eax r))))))))"

definition cstr :: "string \<Rightarrow> va" where
  "cstr x = VS (Some (str x))"

definition print_trapframe :: "tfptr \<Rightarrow> ('a kernel_scheme, unit) kfun" where
  "print_trapframe p =
     kbind (kgets (\<lambda>s. tf_addr s p)) (\<lambda>a.
     kbind (read_tf p) (\<lambda>f.
     kbind (print_hex ''TRAP frame at %p '' a) (\<lambda>_.
     kbind (print_regs (tf_regs f)) (\<lambda>_.
     kbind (print_hex ''  es   0x----%04x'' (ucast (tf_es f))) (\<lambda>_.
     kbind (print_hex ''  ds   0x----%04x'' (ucast (tf_ds f))) (\<lambda>_.
     kbind (printk (''  trap 0x%08x %s'' @ nl)
              [VW (tf_trapno f), cstr (trapname (sint (tf_trapno f)))]) (\<lambda>_.
     kbind (kgets (\<lambda>s. (last_tf s, cr2 s))) (\<lambda>(l, c2).
     kbind (kwhen (l = Some p \<and> tf_trapno f = of_nat T_PGFLT) (print_hex ''  cr2  0x%08x'' c2)) (\<lambda>_.
     kbind (printk ''  err  0x%08x'' [VW (tf_err f)]) (\<lambda>_.
     kbind (if tf_trapno f = of_nat T_PGFLT then
              printk ('' [%s, %s, %s]'' @ nl)
                [cstr (if tf_err f AND 4 \<noteq> 0 then ''user'' else ''kernel''),
                 cstr (if tf_err f AND 2 \<noteq> 0 then ''write'' else ''read''),
                 cstr (if tf_err f AND 1 \<noteq> 0 then ''protection'' else ''not-present'')]
            else printk nl []) (\<lambda>_.
     kbind (print_hex ''  eip  0x%08x'' (tf_eip f)) (\<lambda>_.
     kbind (print_hex ''  cs   0x----%04x'' (ucast (tf_cs f))) (\<lambda>_.
     kbind (print_hex ''  flag 0x%08x'' (tf_eflags f)) (\<lambda>_.
     kwhen (tf_cs f AND 3 \<noteq> 0)
       (kbind (print_hex ''  esp  0x%08x'' (tf_esp f)) (\<lambda>_.
        print_hex ''  ss   0x----%04x'' (ucast (tf_ss f))))))))))))))))))"

section \<open>Dispatch\<close>

definition page_fault_handler :: "('a kernel_scheme, unit flow) kfun" where
  "page_fault_handler = kbind (kgets cr2) (\<lambda>a. kbind (print_hex ''Page fault @ %p'' a) (\<lambda>_. kfail Hang))"

definition run_handler :: "handler \<Rightarrow> tfptr \<Rightarrow> ('a kernel_scheme, unit flow) kfun" where
  "run_handler h p = (case h of
     H_page_fault \<Rightarrow> page_fault_handler
   | H_kbd \<Rightarrow> kbind kbd_intr (\<lambda>_. kreturn (Ret ()))
   | H_timer \<Rightarrow> timer_handler
   | H_syscall \<Rightarrow> syscall_handler p)"

definition trap_hnd_at :: "u32 \<Rightarrow> ('a kernel_scheme, handler option) kfun" where
  "trap_hnd_at n = (\<lambda>s. if unat n < length (trap_hnd s) then Inr (trap_hnd s ! unat n, s) else Inl BadIndex)"

text \<open>A trap from user mode saves the frame in the current task and goes on with that copy.\<close>

definition save_user_tf :: "tfptr \<Rightarrow> ('a kernel_scheme, tfptr) kfun" where
  "save_user_tf p =
     kbind (kmodify (\<lambda>s. s\<lparr>if_flag := False\<rparr>)) (\<lambda>_.
     kbind (read_tf p) (\<lambda>f.
     kbind cur_task (\<lambda>c.
     kbind (upd_task (int c) (\<lambda>t. t\<lparr>tf := f\<rparr>)) (\<lambda>_.
     kreturn (TaskFrame c)))))"

definition trap_dispatch :: "tfptr \<Rightarrow> ('a kernel_scheme, trap_exit) kfun" where
  "trap_dispatch p =
     kbind (read_tf p) (\<lambda>f.
     if tf_trapno f = of_nat (IRQ_OFFSET + IRQ_SPURIOUS) then
       kbind (printk (''Spurious interrupt on irq 7'' @ nl) []) (\<lambda>_.
       kbind (print_trapframe p) (\<lambda>_. kreturn TrapReturn))
     else
       kbind (kmodify (\<lambda>s. s\<lparr>last_tf := Some p\<rparr>)) (\<lambda>_.
       kbind (trap_hnd_at (tf_trapno f)) (\<lambda>h.
       case h of
         None \<Rightarrow> kbind (print_trapframe p) (\<lambda>_. kfail (Panic ''Unexpected trap!''))
       | Some h \<Rightarrow>
           kbind (if tf_cs f AND 3 = 3 then save_user_tf p else kreturn p) (\<lambda>q.
           kbind (run_handler h q) (\<lambda>r.
           case r of
             Ret _ \<Rightarrow> kreturn (PopTf q)
           | Switch t \<Rightarrow> kreturn (SwitchTo t))))))"

definition default_trap_handler :: "tfptr \<Rightarrow> ('a kernel_scheme, trap_exit) kfun" where
  "default_trap_handler p =
     kbind (kmodify (\<lambda>s. s\<lparr>last_tf := Some p\<rparr>)) (\<lambda>_. trap_dispatch p)"

end
