(* ===== verification/Start.thy ===== *)
theory Start
  imports Mp Trap
begin

text \<open>
  Starting the machine: \<^verbatim>\<open>mem_init\<close> of \<^verbatim>\<open>kernel/mem.c\<close>, and \<^verbatim>\<open>kernel_main\<close>, \<^verbatim>\<open>boot_aps\<close> and \<^verbatim>\<open>mp_main\<close> of
  \<^verbatim>\<open>kernel/main.c\<close>. While one processor is being started, the one that starts it only waits; the
  model runs the new processor's code in that place, on registers of its own.
\<close>

section \<open>Memory\<close>

definition CR0_PE :: u32 where "CR0_PE = 0x00000001"
definition CR0_MP :: u32 where "CR0_MP = 0x00000002"
definition CR0_EM :: u32 where "CR0_EM = 0x00000004"
definition CR0_TS :: u32 where "CR0_TS = 0x00000008"
definition CR0_NE :: u32 where "CR0_NE = 0x00000020"
definition CR0_WP :: u32 where "CR0_WP = 0x00010000"
definition CR0_AM :: u32 where "CR0_AM = 0x00040000"
definition CR0_PG :: u32 where "CR0_PG = 0x80000000"

definition zero_page_info :: PageInfo where
  "zero_page_info = \<lparr>pp_link = None, pp_ref = 0\<rparr>"

definition mem_init :: "(nat \<Rightarrow> u8) \<Rightarrow> u32 \<Rightarrow> ('a kernel_scheme, unit) kfun" where
  "mem_init cmos kend =
     kbind (kmodify (\<lambda>s. s\<lparr>page_free_list_lock := spin_initlock ''&page_free_list_lock'' (page_free_list_lock s)\<rparr>)) (\<lambda>_.
     kbind (kmodify (\<lambda>s. s\<lparr>nextfree := 0, page_free_list := None\<rparr>)) (\<lambda>_.
     kbind (i386_detect_memory cmos) (\<lambda>_.
     kbind (boot_alloc kend PGSIZE) (\<lambda>kva.
     kbind (kmodify (\<lambda>s. s\<lparr>kern_pgdir := kva_frame kva\<rparr>)) (\<lambda>_.
     kbind (memset_page (kva_frame kva) 0) (\<lambda>_.
     kbind (PADDR kva) (\<lambda>pa.
     kbind (kwrite (kva_frame kva, PDX UVPT) (pa OR PTE_U OR PTE_P)) (\<lambda>_.
     kbind (kgets npages) (\<lambda>n.
     kbind (boot_alloc kend (sizeof_PageInfo * of_nat n)) (\<lambda>pva.
     kbind (kmodify (\<lambda>s. s\<lparr>pages_va := pva, pages := replicate n zero_page_info\<rparr>)) (\<lambda>_.
     kbind (page_init kend) (\<lambda>_.
     kbind (check_page_free_list kend True) (\<lambda>_.
     kbind check_page_alloc (\<lambda>_.
     kbind check_page (\<lambda>_.
     kbind (kgets kern_pgdir) (\<lambda>kp.
     kbind (PADDR pva) (\<lambda>ppa.
     kbind (boot_map_region kp UPAGES (ROUNDUP (sizeof_PageInfo * of_nat n) PGSIZE) ppa (PTE_U OR PTE_P)) (\<lambda>_.
     kbind (boot_map_region kp KERNBASE kern_window_size 0 PTE_W) (\<lambda>_.
     kbind (boot_map_region kp IOPHYSMEM (ROUNDUP (EXTPHYSMEM - IOPHYSMEM) PGSIZE) IOPHYSMEM (PTE_W OR PTE_P)) (\<lambda>_.
     kbind mem_init_mp (\<lambda>_.
     kbind check_kern_pgdir (\<lambda>_.
     kbind (PADDR (frame_kva kp)) (\<lambda>kpa.
     kbind (lcr3 kpa) (\<lambda>_.
     kbind (check_page_free_list kend False) (\<lambda>_.
     kbind (kmodify (\<lambda>s. s\<lparr>cr0 := (cr0 s OR (CR0_PE OR CR0_PG OR CR0_AM OR CR0_WP OR CR0_NE OR CR0_MP))
              AND NOT (CR0_TS OR CR0_EM)\<rparr>)) (\<lambda>_.
     check_page_installed_pgdir))))))))))))))))))))))))))"

section \<open>Processors\<close>

text \<open>
  What the final \<^verbatim>\<open>iret\<close> loads: code segment, instruction pointer, stack segment and stack pointer.
\<close>

record user_start =
  us_cs :: u32
  us_eip :: u32
  us_ss :: u32
  us_esp :: u32

definition enter_user :: "('a kernel_scheme, user_start) kfun" where
  "enter_user =
     kbind (kmodify (\<lambda>s. s\<lparr>if_flag := True\<rparr>)) (\<lambda>_.
     kbind cur_task (\<lambda>c.
     kbind (get_task (int c)) (\<lambda>t.
     kbind (PADDR (pgdir_kva (pgdir t))) (\<lambda>pa.
     kbind (lcr3 pa) (\<lambda>_.
     kreturn \<lparr>us_cs = GD_UT OR 3, us_eip = tf_eip (tf t), us_ss = GD_UD OR 3, us_esp = tf_esp (tf t)\<rparr>)))))"

definition mp_main :: "('a kernel_scheme, user_start) kfun" where
  "mp_main =
     kbind (kgets kern_pgdir) (\<lambda>kp.
     kbind (PADDR (frame_kva kp)) (\<lambda>pa.
     kbind (lcr3 pa) (\<lambda>_.
     kbind (kgets cpunum) (\<lambda>n.
     kbind (printk (''SMP: CPU %d starting'' @ nl) [VW (of_nat n)]) (\<lambda>_.
     kbind lapic_init (\<lambda>_.
     kbind task_init_percpu (\<lambda>_.
     kbind (kmodify (\<lambda>s. s\<lparr>idtr_loaded := True\<rparr>)) (\<lambda>_.
     kbind (upd_thiscpu (\<lambda>c. c\<lparr>cpu_status := CPU_STARTED\<rparr>)) (\<lambda>_.
     enter_user)))))))))"

text \<open>Code of processor \<open>c\<close>, with its own registers.\<close>

definition as_cpu :: "nat \<Rightarrow> ('a kernel_scheme, 'b) kfun \<Rightarrow> ('a kernel_scheme, 'b) kfun" where
  "as_cpu c m = (\<lambda>s. case m (s\<lparr>cur_cpu := c\<rparr>) of
     Inl e \<Rightarrow> Inl e
   | Inr (x, t) \<Rightarrow> Inr (x, t\<lparr>cur_cpu := cur_cpu s, cr0 := cr0 s, cr2 := cr2 s, cr3 := cr3 s, tlb := tlb s,
       if_flag := if_flag s, tr := tr s, ldtr := ldtr s, gdt_loaded := gdt_loaded s,
       idtr_loaded := idtr_loaded s, stack_tf := stack_tf s\<rparr>))"

definition set_phys_byte :: "nat \<Rightarrow> u8 \<Rightarrow> (nat \<Rightarrow> nat \<Rightarrow> u32) \<Rightarrow> (nat \<Rightarrow> nat \<Rightarrow> u32)" where
  "set_phys_byte a b m =
     (let fr = a div 4096; i = a mod 4096 div 4; k = 8 * (a mod 4)
      in m(fr := (m fr)(i := (m fr i AND NOT (push_bit k 0xFF)) OR push_bit k (ucast b))))"

fun store_bytes :: "nat \<Rightarrow> u8 list \<Rightarrow> (nat \<Rightarrow> nat \<Rightarrow> u32) \<Rightarrow> (nat \<Rightarrow> nat \<Rightarrow> u32)" where
  "store_bytes a [] m = m"
| "store_bytes a (b # bs) m = store_bytes (Suc a) bs (set_phys_byte a b m)"

definition boot_ap :: "nat \<Rightarrow> ('a kernel_scheme, unit) kfun" where
  "boot_ap i =
     kbind (get_cpu i) (\<lambda>c.
     kbind (kgets cpunum) (\<lambda>me.
     if unat (cpu_id c) = me then kreturn ()
     else
       kbind (kmodify (\<lambda>s. s\<lparr>mpentry_kstack := percpu_kstacks s i + KSTKSIZE\<rparr>)) (\<lambda>_.
       kbind (lapic_startap (cpu_id c) MPENTRY_PADDR) (\<lambda>_.
       kbind (as_cpu (unat (cpu_id c)) mp_main) (\<lambda>_.
       kbind (get_cpu i) (\<lambda>c.
       if cpu_status c = CPU_STARTED then kreturn () else kfail Hang))))))"

definition boot_aps :: "('a kernel_scheme, unit) kfun" where
  "boot_aps =
     kbind (KADDR MPENTRY_PADDR) (\<lambda>kva.
     kbind (kmodify (\<lambda>s. s\<lparr>pmem := store_bytes (unat (kva - KERNBASE)) (mpentry_code s) (pmem s)\<rparr>)) (\<lambda>_.
     kbind (kgets ncpu) (\<lambda>n.
     kfor [0..<nat n] boot_ap)))"

text \<open>
  The arguments are the clock's memory, the value of the port \<^verbatim>\<open>0x23\<close> and the linker's symbols.
\<close>

definition kernel_main ::
  "(nat \<Rightarrow> u8) \<Rightarrow> u8 \<Rightarrow> u32 \<Rightarrow> u32 \<Rightarrow> u32 \<Rightarrow> u32 \<Rightarrow> u32 \<Rightarrow> ('a kernel_scheme, user_start) kfun" where
  "kernel_main cmos imcr stext etext rdata_end data_start kend =
     kbind init_video (\<lambda>_.
     kbind (mem_init cmos kend) (\<lambda>_.
     kbind (mp_init imcr) (\<lambda>_.
     kbind lapic_init (\<lambda>_.
     kbind task_init (\<lambda>_.
     kbind trap_init (\<lambda>_.
     kbind pic_init (\<lambda>_.
     kbind kbd_init (\<lambda>_.
     kbind timer_init (\<lambda>_.
     kbind syscall_init (\<lambda>_.
     kbind boot_aps (\<lambda>_.
     kbind (printk (''Kernel code base start=0x%08x to = 0x%08x'' @ nl) [VW stext, VW etext]) (\<lambda>_.
     kbind (printk (''Readonly data start=0x%08x to = 0x%08x'' @ nl) [VW etext, VW rdata_end]) (\<lambda>_.
     kbind (printk (''Kernel data base start=0x%08x to = 0x%08x'' @ nl) [VW data_start, VW kend]) (\<lambda>_.
     enter_user))))))))))))))"

section \<open>The first page directory\<close>

text \<open>
  \<^verbatim>\<open>kernel/entrypgdir.c\<close>: the directory \<^verbatim>\<open>entry.S\<close> installs, and \<^verbatim>\<open>mpentry.S\<close> on the other processors. \<open>table_va\<close>
  is the linker's address of \<^verbatim>\<open>entry_pgtable\<close>.
\<close>

definition entry_pgtable :: "u32 list" where
  "entry_pgtable = map (\<lambda>i. (of_nat i * PGSIZE) OR PTE_P OR PTE_W) [0..<NPTENTRIES]"

definition entry_pgdir :: "u32 \<Rightarrow> u32 list" where
  "entry_pgdir table_va =
     (replicate NPDENTRIES 0)
       [0 := (table_va - KERNBASE) + PTE_P + PTE_W,
        unat (drop_bit PDXSHIFT KERNBASE) := (table_va - KERNBASE) + PTE_P + PTE_W]"

end
