(* ===== verification/Frames.thy ===== *)
theory Frames
  imports Start
begin

text \<open>
  What each part of the kernel leaves alone. Most of the code neither touches a run queue nor
  creates, ends or switches a task: \<open>keeps v m\<close> says that \<open>m\<close>, when it returns, has not changed the view
  \<open>v\<close> of the state. The collection \<open>kept\<close> derives it from the shape of the code.
\<close>

section \<open>Views of the state\<close>

definition keeps :: "('s \<Rightarrow> 'v) \<Rightarrow> ('s, 'b) kfun \<Rightarrow> bool" where
  "keeps v m \<longleftrightarrow> (\<forall>s x t. m s = Inr (x, t) \<longrightarrow> v t = v s)"

named_theorems kept \<open>code that leaves a view of the state alone\<close>

lemma keepsD: "keeps v m \<Longrightarrow> m s = Inr (x, t) \<Longrightarrow> v t = v s"
  by (simp add: keeps_def)

lemma keeps_bind [kept]: "keeps v m \<Longrightarrow> (\<And>x. keeps v (f x)) \<Longrightarrow> keeps v (kbind m f)"
  unfolding keeps_def by (metis kbind_InrE)

lemma keeps_simple [kept]: "keeps v (kreturn x)" "keeps v (kfail e)" "keeps v (kgets f)" "keeps v (\<lambda>s. Inr (x, s))"
  "keeps v (\<lambda>s. Inl e)"
  by (simp_all add: keeps_def)

lemma keeps_if [kept]: "keeps v m \<Longrightarrow> keeps v n \<Longrightarrow> keeps v (if b then m else n)"
  by simp

lemma keeps_when [kept]: "keeps v m \<Longrightarrow> keeps v (kwhen b m)"
  by (simp add: kwhen_def keeps_simple)

lemma keeps_for [kept]: "(\<And>x. keeps v (f x)) \<Longrightarrow> keeps v (kfor xs f)"
  by (induction xs) (auto intro: kept)

lemma keeps_option [kept]:
  "keeps v m \<Longrightarrow> (\<And>x. keeps v (f x)) \<Longrightarrow> keeps v (case r of None \<Rightarrow> m | Some x \<Rightarrow> f x)"
  by (cases r) simp_all

lemma keeps_prod [kept]: "(\<And>x y. keeps v (f x y)) \<Longrightarrow> keeps v (case r of (x, y) \<Rightarrow> f x y)"
  by (cases r) simp

lemma keeps_let [kept]: "(\<And>x. keeps v (f x)) \<Longrightarrow> keeps v (let x = r in f x)"
  by simp

lemma keeps_flow [kept]:
  "(\<And>x. keeps v (f x)) \<Longrightarrow> (\<And>p. keeps v (g p)) \<Longrightarrow> keeps v (case r of Ret x \<Rightarrow> f x | Switch p \<Rightarrow> g p)"
  by (cases r) simp_all

lemma keeps_ksum [kept]: "keeps v (ksum r)" "keeps v (kassert b e)" "keeps v (c_assert b e)"
  by (auto simp: keeps_def ksum_def kassert_def c_assert_def split: sum.splits if_splits)

text \<open>A triple: started where \<open>P\<close> holds, \<open>m\<close> returns, if it does, where \<open>Q\<close> holds.\<close>

definition triple :: "('s \<Rightarrow> bool) \<Rightarrow> ('s, 'b) kfun \<Rightarrow> ('b \<Rightarrow> 's \<Rightarrow> bool) \<Rightarrow> bool" where
  "triple P m Q \<longleftrightarrow> (\<forall>s x t. P s \<longrightarrow> m s = Inr (x, t) \<longrightarrow> Q x t)"

lemma tripleD: "triple P m Q \<Longrightarrow> P s \<Longrightarrow> m s = Inr (x, t) \<Longrightarrow> Q x t"
  by (simp add: triple_def)

lemma triple_bind: "triple P m Q \<Longrightarrow> (\<And>x. triple (Q x) (f x) R) \<Longrightarrow> triple P (kbind m f) R"
  unfolding triple_def by (blast elim: kbind_InrE)

lemma triple_modify: "(\<And>s. P s \<Longrightarrow> Q () (f s)) \<Longrightarrow> triple P (kmodify f) Q"
  by (simp add: triple_def)

lemma triple_kept:
  assumes k: "keeps v m" and P: "\<And>s t. v t = v s \<Longrightarrow> P s \<Longrightarrow> P t"
  shows "triple P m (\<lambda>_. P)"
  unfolding triple_def by (intro allI impI, rule P [OF keepsD [OF k]])

text \<open>
  What the scheduler's invariant looks at. A view \<open>sees\<close> only that when it is a function of it.
\<close>

definition tview :: "Task \<Rightarrow> TaskState \<times> int \<times> nat option" where
  "tview t = (state t, task_id t, pgdir t)"

definition sview :: "'a kernel_scheme \<Rightarrow> (TaskState \<times> int \<times> nat option) list \<times> CpuInfo list \<times> int \<times> nat \<times> u32 \<times> nat" where
  "sview s = (map tview (tasks s), cpus s, ncpu s, npages s, lapic s, cur_cpu s)"

definition sees :: "('a kernel_scheme \<Rightarrow> 'v) \<Rightarrow> bool" where
  "sees v \<longleftrightarrow> (\<forall>s t. sview s = sview t \<longrightarrow> v s = v t)"

lemma sees_simps [simp, intro]:
  "sees sview" "sees (\<lambda>s. map tview (tasks s))" "sees cpus" "sees npages" "sees cpunum" "sees ncpu" "sees cur_cpu"
  "sees lapic"
  by (simp_all add: sees_def sview_def cpunum_def)

lemma sees_pair [simp, intro]: "sees v \<Longrightarrow> sees w \<Longrightarrow> sees (\<lambda>s. (v s, w s))"
  unfolding sees_def by blast

lemma keeps_seen: "(\<And>s x t. m s = Inr (x, t) \<Longrightarrow> sview t = sview s) \<Longrightarrow> sees v \<Longrightarrow> keeps v m"
  unfolding keeps_def sees_def by blast

lemma keeps_modify [kept]: "(\<And>s. sview (f s) = sview s) \<Longrightarrow> sees v \<Longrightarrow> keeps v (kmodify f)"
  by (rule keeps_seen) auto

lemma keeps_mem: "kframe m \<Longrightarrow> sees v \<Longrightarrow> keeps v m"
proof (rule keeps_seen)
  fix s t :: "'a kernel_scheme" and x
  assume "kframe m" and "m s = Inr (x, t)"
  then have "mem_frame s t" by (auto simp: kframe_def)
  then show "sview t = sview s" by (cases s, cases t) (simp add: mem_frame_def sview_def)
qed

lemma keeps_screen: "on_screen m \<Longrightarrow> sees v \<Longrightarrow> keeps v m"
proof (rule keeps_seen)
  fix s t :: "'a kernel_scheme" and x
  assume "on_screen m" and "m s = Inr (x, t)"
  then have "screen_frame s t" by (auto simp: on_screen_def)
  then show "sview t = sview s" by (auto simp: screen_frame_def sview_def)
qed

section \<open>Basic operations\<close>

lemma keeps_printk [kept]:
  assumes "sees v"
  shows "keeps v (printk fmt ap)" "keeps v (k_putch c)" "keeps v sys_cls" "keeps v init_video"
    "keeps v (outb p d)" "keeps v (outb_seq ws)"
  by (rule keeps_screen [OF _ assms], rule screen_frames)+

lemma keeps_get [kept]:
  "keeps v (get_task i)" "keeps v (get_cpu c)" "keeps v (rq_at i rq)"
  by (auto simp: keeps_def get_task_def get_cpu_def rq_at_def split: if_splits)

lemma keeps_read [kept]: "keeps v (lift_sum h)" "keeps v (get_pp pp)"
  by (auto simp: keeps_def lift_sum_def get_pp_def split: if_splits sum.splits)

lemma keeps_trap_hnd_at [kept]: "keeps v (trap_hnd_at n)"
  by (auto simp: keeps_def trap_hnd_at_def split: if_splits)

lemma keeps_thiscpu [kept]: "keeps v thiscpu"
  unfolding thiscpu_def by (intro kept)

lemma keeps_locks [kept]:
  assumes "sees v"
  shows "keeps v lock_tasks" "keeps v unlock_tasks" "keeps v lock_free_list" "keeps v unlock_free_list"
    "keeps v (acquire cpus_lock cpus_lock_update)" "keeps v (release cpus_lock cpus_lock_update)"
  by (rule keeps_seen [OF _ assms],
      auto simp: lock_tasks_def unlock_tasks_def lock_free_list_def unlock_free_list_def acquire_def
        release_def sview_def split: sum.splits)+

lemma keeps_upd_task [kept]:
  assumes "\<And>t. tview (f t) = tview t" and "sees v"
  shows "keeps v (upd_task i f)"
proof (rule keeps_seen [OF _ assms(2)])
  fix s t :: "'a kernel_scheme" and x
  assume "upd_task i f s = Inr (x, t)"
  then have i: "nat i < length (tasks s)" and t: "t = s\<lparr>tasks := (tasks s)[nat i := f (tasks s ! nat i)]\<rparr>"
    by (auto simp: upd_task_def nat_less_iff split: if_splits)
  have "map tview ((tasks s)[nat i := f (tasks s ! nat i)]) = map tview (tasks s)"
    using i by (simp add: map_update assms(1)) (metis list_update_id nth_map)
  then show "sview t = sview s" by (simp add: sview_def t)
qed

lemma keeps_mem_ops [kept]:
  assumes "sees v"
  shows "keeps v (page_alloc fl)" "keeps v (pgdir_walk pd va c)" "keeps v (PADDR a)" "keeps v (KADDR_frame a)"
    "keeps v (kread q)" "keeps v (kwrite q w)" "keeps v (boot_map_region pd va sz pa perm)"
    "keeps v (memset_page fr u)" "keeps v (page2kva pp)" "keeps v (set_pp pp g)"
  by (rule keeps_mem [OF _ assms], rule kframe_intros kframe_addr kframe_kwrite kframe_page_alloc
      kframe_pgdir_walk kframe_boot_map_region)+

lemma sview_upd [simp]:
  "sview (s\<lparr>cr3 := a\<rparr>) = sview s" "sview (s\<lparr>tlb := b\<rparr>) = sview s" "sview (s\<lparr>pmem := c\<rparr>) = sview s"
  "sview (s\<lparr>page_free_list := d\<rparr>) = sview s" "sview (s\<lparr>num_free_pages := e\<rparr>) = sview s"
  "sview (s\<lparr>mmio_base := f\<rparr>) = sview s" "sview (s\<lparr>nextfree := g\<rparr>) = sview s" "sview (s\<lparr>pages := h\<rparr>) = sview s"
  "sview (s\<lparr>pages_va := i\<rparr>) = sview s" "sview (s\<lparr>kern_pgdir := j\<rparr>) = sview s" "sview (s\<lparr>cr0 := k\<rparr>) = sview s"
  "sview (s\<lparr>lapic_log := l\<rparr>) = sview s" "sview (s\<lparr>icr_polls := m\<rparr>) = sview s" "sview (s\<lparr>jiffies := n\<rparr>) = sview s"
  "sview (s\<lparr>last_tf := p\<rparr>) = sview s" "sview (s\<lparr>if_flag := q\<rparr>) = sview s" "sview (s\<lparr>stack_tf := r\<rparr>) = sview s"
  "sview (s\<lparr>kbd_shift := v\<rparr>) = sview s" "sview (s\<lparr>attrib := w\<rparr>) = sview s" "sview (s\<lparr>idtr_loaded := x\<rparr>) = sview s"
  "sview (s\<lparr>irq_mask_8259A := y\<rparr>) = sview s" "sview (s\<lparr>didinit := z\<rparr>) = sview s"
  "sview (s\<lparr>mpentry_kstack := o1\<rparr>) = sview s" "sview (s\<lparr>page_free_list_lock := o2\<rparr>) = sview s"
  "sview (s\<lparr>gdt_loaded := o3\<rparr>) = sview s" "sview (s\<lparr>ldtr := o4\<rparr>) = sview s" "sview (s\<lparr>tr := o5\<rparr>) = sview s"
  "sview (s\<lparr>npages_basemem := o6\<rparr>) = sview s"
  by (simp_all add: sview_def)

lemma keeps_lcr3 [kept]: "sees v \<Longrightarrow> keeps v (lcr3 a)" "sees v \<Longrightarrow> keeps v (tlb_invalidate pd va)"
  unfolding lcr3_def tlb_invalidate_def by (intro kept; simp)+


section \<open>The memory manager\<close>

lemma keeps_page_free [kept]: "sees v \<Longrightarrow> keeps v (page_free pp)"
  unfolding page_free_def by (intro kept; simp)

lemma keeps_page_decref [kept]: "sees v \<Longrightarrow> keeps v (page_decref pp)"
  unfolding page_decref_def by (intro kept)

lemma keeps_page_lookup [kept]: "sees v \<Longrightarrow> keeps v (page_lookup pd va st)"
  unfolding page_lookup_def by (intro kept)

lemma keeps_page_remove [kept]: "sees v \<Longrightarrow> keeps v (page_remove pd va)"
  unfolding page_remove_def by (intro kept)

lemma keeps_page_insert [kept]: "sees v \<Longrightarrow> keeps v (page_insert pd pp va perm)"
  unfolding page_insert_def by (intro kept)

lemma keeps_ptable_remove [kept]: "sees v \<Longrightarrow> keeps v (ptable_remove pd)"
  unfolding ptable_remove_def by (intro kept)

lemma keeps_pgdir_remove [kept]: "sees v \<Longrightarrow> keeps v (pgdir_remove pd)"
  unfolding pgdir_remove_def by (intro kept)

lemma keeps_mmio_map_region [kept]: "sees v \<Longrightarrow> keeps v (mmio_map_region pa sz)"
  unfolding mmio_map_region_def by (intro kept; simp)

lemma keeps_check_va2pa [kept]: "sees v \<Longrightarrow> keeps v (check_va2pa pd va)"
  unfolding check_va2pa_def by (intro kept)

lemma keeps_setupvm [kept]: "sees v \<Longrightarrow> keeps v (setupvm pd a n)"
  unfolding setupvm_def by (intro kept)

lemma keeps_map_kstack [kept]: "sees v \<Longrightarrow> keeps v (map_kstack pd i)"
  unfolding map_kstack_def by (intro kept)

lemma keeps_mem_init_mp [kept]: "sees v \<Longrightarrow> keeps v mem_init_mp"
  unfolding mem_init_mp_def by (intro kept)

lemma keeps_setupkvm [kept]: "sees v \<Longrightarrow> keeps v setupkvm"
  unfolding setupkvm_def by (intro kept)

lemma keeps_alloc_stack [kept]: "sees v \<Longrightarrow> keeps v (alloc_stack pd vas)"
  by (induction vas) (simp_all, (intro kept)+)

lemma keeps_mmu_entry [kept]: "sees v \<Longrightarrow> keeps v (mmu_entry va)"
  by (rule keeps_seen) (auto simp: mmu_entry_def Let_def split: option.splits if_splits)

lemma keeps_virtual [kept]:
  assumes "sees v"
  shows "keeps v (vload32 va)" "keeps v (vstore32 va w)" "keeps v (vload8 va)"
  unfolding vload32_def vstore32_def vload8_def using assms by (intro kept; simp)+

section \<open>Devices\<close>

lemma keeps_kbd_data [kept]: "sees v \<Longrightarrow> keeps v kbd_data" "sees v \<Longrightarrow> keeps v (cons_put c)" "sees v \<Longrightarrow> keeps v cons_getc"
  by (rule keeps_seen, auto simp: kbd_data_def cons_put_def cons_getc_def sview_def split: list.splits if_splits)+

lemma keeps_kbd_proc_data [kept]: "sees v \<Longrightarrow> keeps v kbd_proc_data"
  unfolding kbd_proc_data_def kbd_key_def kbd_status_def by (intro kept; simp)

lemma keeps_cons_intr [kept]: "sees v \<Longrightarrow> keeps v proc \<Longrightarrow> keeps v (cons_intr n proc)"
  by (induction n) (simp_all, (intro kept)+)

lemma keeps_kbd_intr [kept]: "sees v \<Longrightarrow> keeps v kbd_intr"
  using keeps_cons_intr [OF _ keeps_kbd_proc_data] by (fastforce simp: keeps_def kbd_intr_def simp del: cons_intr.simps)

lemma keeps_lapicw [kept]: "sees v \<Longrightarrow> keeps v (lapicw i w)"
  by (rule keeps_seen) (auto simp: lapicw_def split: if_splits)

lemma keeps_lapic_eoi [kept]: "sees v \<Longrightarrow> keeps v lapic_eoi"
  unfolding lapic_eoi_def by (intro kept)

lemma keeps_wait_delivery [kept]: "sees v \<Longrightarrow> keeps v wait_delivery"
  unfolding wait_delivery_def by (intro kept; simp)

lemma keeps_sys_settextcolor [kept]: "sees v \<Longrightarrow> keeps v (sys_settextcolor f b)"
  unfolding sys_settextcolor_def by (intro kept; simp)

section \<open>Traps\<close>

lemma keeps_cur_task [kept]: "keeps v cur_task"
  unfolding cur_task_def by (intro kept)

lemma keeps_read_tf [kept]: "keeps v (read_tf p)"
  unfolding read_tf_def by (cases p) (simp_all, (intro kept)+)

lemma keeps_upd_tf [kept]: "sees v \<Longrightarrow> keeps v (upd_tf p f)"
  unfolding upd_tf_def by (cases p) (simp_all, (intro kept; simp add: tview_def)+)

lemma keeps_print_hex [kept]: "sees v \<Longrightarrow> keeps v (print_hex fmt w)"
  unfolding print_hex_def by (intro kept)

lemma keeps_print_trapframe [kept]: "sees v \<Longrightarrow> keeps v (print_trapframe p)"
  unfolding print_trapframe_def print_regs_def by (intro kept)

lemma keeps_save_user_tf [kept]: "sees v \<Longrightarrow> keeps v (save_user_tf p)"
  unfolding save_user_tf_def by (intro kept; simp add: tview_def)

lemma keeps_do_puts [kept]: "sees v \<Longrightarrow> keeps v (do_puts a n)"
  unfolding do_puts_def by (intro kept)

lemma keeps_page_fault_handler [kept]: "sees v \<Longrightarrow> keeps v page_fault_handler"
  unfolding page_fault_handler_def by (intro kept)

lemma keeps_task_free [kept]: "sees v \<Longrightarrow> keeps v (task_free pid)"
  unfolding task_free_def the_pgdir_def by (intro kept)

lemma keeps_copy_page [kept]: "sees v \<Longrightarrow> keeps v (copy_page p c va)"
  unfolding copy_page_def pte_page_def by (intro kept; simp)

lemma keeps_map_user_image [kept]: "sees v \<Longrightarrow> keeps v (map_user_image pd)"
  unfolding map_user_image_def by (intro kept)

lemma keeps_fork_copy [kept]: "sees v \<Longrightarrow> keeps v (fork_copy cur pid)"
  unfolding fork_copy_def the_pgdir_def by (intro kept; simp add: tview_def set_eax_def)

lemma keeps_current_pid [kept]: "keeps v current_pid"
  unfolding current_pid_def by (intro kept)

lemma keeps_pick_cpu [kept]: "keeps v (pick_cpu is least c)"
  by (induction "is" arbitrary: least c) (simp_all, (intro kept)+)

lemma keeps_find_free [kept]: "keeps v (find_free ps)"
proof (induction ps)
  case (Cons p ps)
  show ?case unfolding find_free.simps by (intro kept Cons.IH)
qed (simp add: keeps_def)


section \<open>Starting the machine\<close>

text \<open>The checks of the memory manager.\<close>

lemma keeps_for_free_list [kept]: "(\<And>p. keeps v (body p)) \<Longrightarrow> keeps v (for_free_list n fl body)"
  by (induction n fl body rule: for_free_list.induct) (simp_all, (intro kept)+)

lemma keeps_on_free_list [kept]: "(\<And>p. keeps v (body p)) \<Longrightarrow> keeps v (on_free_list body)"
  unfolding on_free_list_def by (intro kept)

lemma keeps_store_tp [kept]: "sees v \<Longrightarrow> keeps v (store_tp0 w b)" "sees v \<Longrightarrow> keeps v (store_tp1 w b)"
  unfolding store_tp0_def store_tp1_def by (intro kept; simp)+

lemma keeps_split_list [kept]: "sees v \<Longrightarrow> keeps v (split_list k n fl b)"
  by (induction k n fl b rule: split_list.induct) (auto intro!: kept)

lemma keeps_low_pages_first [kept]: "sees v \<Longrightarrow> keeps v (low_pages_first k)"
  unfolding low_pages_first_def by (intro kept; simp)

lemma keeps_memset_words [kept]: "sees v \<Longrightarrow> keeps v (memset_words fr c n)"
  unfolding memset_words_def by (intro kept; simp)

lemma keeps_check_free_page [kept]: "sees v \<Longrightarrow> keeps v (check_free_page f pp)"
  unfolding check_free_page_def by (intro kept)

lemma keeps_count_free [kept]: "sees v \<Longrightarrow> keeps v (count_free n fl f c)"
  by (induction n fl f c rule: count_free.induct) (auto intro!: kept)

lemma keeps_boot_alloc [kept]: "sees v \<Longrightarrow> keeps v (boot_alloc kend n)"
  unfolding boot_alloc_def by (intro kept; simp)

lemma keeps_check_page_free_list [kept]: "sees v \<Longrightarrow> keeps v (check_page_free_list kend b)"
  unfolding check_page_free_list_def by (intro kept)

lemma keeps_ck_alloc [kept]: "sees v \<Longrightarrow> keeps v (ck_alloc fl e)" "sees v \<Longrightarrow> keeps v no_more_pages"
  unfolding ck_alloc_def no_more_pages_def by (intro kept; simp)+

lemma keeps_three [kept]: "sees v \<Longrightarrow> keeps v alloc_three" "sees v \<Longrightarrow> keeps v (free_three pps)"
  unfolding alloc_three_def free_three_def by (intro kept; simp)+

lemma keeps_list_count [kept]: "keeps v (list_count n fl c)"
  by (induction n fl c rule: list_count.induct) (simp_all, (intro kept)+)

lemma keeps_free_count [kept]: "keeps v free_count" "sees v \<Longrightarrow> keeps v (frame_byte fr i)" "keeps v (in_memory pp e)"
  unfolding free_count_def frame_byte_def in_memory_def by (intro kept; simp)+

lemma keeps_check_page_alloc [kept]: "sees v \<Longrightarrow> keeps v check_page_alloc"
  unfolding check_page_alloc_def by (intro kept; simp)

lemma keeps_check_kern_pgdir [kept]: "sees v \<Longrightarrow> keeps v check_kern_pgdir"
  unfolding check_kern_pgdir_def check_kstack_def check_map_def check_pde_def by (intro kept; simp)

lemma keeps_ck_ops [kept]:
  assumes "sees v"
  shows "keeps v (ck_insert pp va perm Q e)" "keeps v (ck_remove va)" "keeps v (ck_map va pa e)" "keeps v (ck_refs pp n e)"
    "keeps v (ck_walk va c)" "keeps v (ck_pte va)" "keeps v (ck_perm va P e)" "keeps v (ck_pde i P e)"
    "keeps v (clear_pde i)" "keeps v (ck_table va)" "keeps v (ck_realloc pp e)"
  unfolding ck_insert_def ck_remove_def ck_map_def ck_refs_def ck_perm_def ck_pte_def ck_walk_def ck_pde_def
    clear_pde_def ck_table_def ck_realloc_def check_map_def
  using assms by (intro kept; simp)+

lemma keeps_check_page_parts [kept]:
  assumes "sees v"
  shows "keeps v (check_page_insert p q r)" "keeps v (check_page_perms p q r)" "keeps v (check_page_remove p q r)"
    "keeps v (check_page_walk p)" "keeps v check_mmio"
  unfolding check_page_insert_def check_page_perms_def check_page_remove_def check_page_walk_def check_mmio_def
  using assms by (intro kept; simp)+

lemma keeps_check_page [kept]: "sees v \<Longrightarrow> keeps v check_page" "sees v \<Longrightarrow> keeps v check_page_installed_pgdir"
  unfolding check_page_def check_page_installed_pgdir_def by (intro kept; simp)+

lemma keeps_page_init [kept]: "sees v \<Longrightarrow> keeps v (page_init kend)"
  unfolding page_init_def page_init_used_def page_init_free_def first_free_frame_def by (intro kept; simp)

text \<open>Tables, processors and interrupt gates.\<close>

lemma keeps_kload [kept]: "keeps v (kload8 p)" "keeps v (kload16 p)" "keeps v (kload32 p)"
  unfolding kload32_def kload16_def kload8_def by (intro kept)+

lemma keeps_kmem_eq [kept]: "keeps v (kmem_eq p bs)"
  by (induction p bs rule: kmem_eq.induct) (simp_all, (intro kept; simp)+)

lemma keeps_mp_sum [kept]: "keeps v (mp_sum p n)"
proof -
  have "keeps v (sum_loop p n acc)" for acc
    by (induction p n acc rule: sum_loop.induct) (simp_all, (intro kept)+)
  then show ?thesis by (simp add: mp_sum_def)
qed

lemma keeps_KADDR [kept]: "keeps v (KADDR a)"
  unfolding KADDR_def by (intro kept)

lemma keeps_mpsearch1 [kept]: "keeps v (mpsearch1 a n)"
proof -
  have "keeps v (mpsearch_loop n p)" for n p
    by (induction n arbitrary: p) (simp_all, (intro kept; simp)+)
  then show ?thesis unfolding mpsearch1_def by (intro kept)
qed

lemma keeps_mpconfig [kept]: "sees v \<Longrightarrow> keeps v mpconfig"
  unfolding mpconfig_def mpsearch_def mp_physaddr_def mp_type_def conf_length_def conf_version_def conf_xlength_def
    conf_xchecksum_def say_def by (intro kept)

lemma keeps_gates [kept]:
  assumes "sees v"
  shows "keeps v (set_idt i g)" "keeps v (set_trap_hnd i h)" "keeps v (set_gdt i d)"
  by (rule keeps_seen [OF _ assms], auto simp: set_idt_def set_trap_hnd_def set_gdt_def sview_def split: if_splits)+

lemma keeps_register_handler [kept]: "sees v \<Longrightarrow> keeps v (register_handler n h i b d)"
  unfolding register_handler_def by (intro kept)

lemma keeps_irq [kept]: "sees v \<Longrightarrow> keeps v (irq_setmask_8259A m)" "sees v \<Longrightarrow> keeps v (irq_enable i)" "sees v \<Longrightarrow> keeps v pic_init"
  unfolding irq_enable_def pic_init_def irq_setmask_8259A_def by (intro kept; simp)+

lemma keeps_handlers [kept]:
  assumes "sees v"
  shows "keeps v trap_init" "keeps v kbd_init" "keeps v timer_init" "keeps v syscall_init"
  unfolding trap_init_def kbd_init_def timer_init_def syscall_init_def set_timer_def
  using assms by (intro kept; simp)+

lemma keeps_lapic_startap [kept]: "sees v \<Longrightarrow> keeps v (lapic_startap i a)"
  unfolding lapic_startap_def warm_reset_vector_def by (intro kept; simp)

lemma keeps_enter_user [kept]: "sees v \<Longrightarrow> keeps v enter_user"
  unfolding enter_user_def by (intro kept; simp)

end
