(* ===== verification/Queues.thy ===== *)
theory Queues
  imports Frames
begin

text \<open>
  The invariant of the run queues, on the views of the tasks and the processors' data, and what
  each kind of change does to it.
\<close>

section \<open>The invariant\<close>

text \<open>The tasks in a run queue, and in the queue of processor \<open>c\<close>.\<close>

definition rq_list :: "Runqueue \<Rightarrow> int list" where
  "rq_list rq = take (nat (total rq)) (runQueue rq)"

abbreviation queue_of :: "CpuInfo list \<Rightarrow> nat \<Rightarrow> int list" where
  "queue_of cs c \<equiv> rq_list (cpu_rq (cs ! c))"

text \<open>
  The run queues are consistent with the tasks: each queue is well-formed and without repetition,
  no task is in two of them, the tasks in the queues are exactly those that exist, each task
  knows its number and has a page directory, a processor's current task is in its own queue, and a
  task marked as running is the current task of some processor.
\<close>

definition queues_ok :: "(TaskState \<times> int \<times> nat option) list \<Rightarrow> CpuInfo list \<Rightarrow> bool" where
  "queues_ok ts cs \<longleftrightarrow> length ts = 32 \<and> length cs = 8 \<and>
     (\<forall>c < 8. rq_wf (cpu_rq (cs ! c)) \<and> distinct (queue_of cs c)) \<and>
     (\<forall>c < 8. \<forall>d < 8. c \<noteq> d \<longrightarrow> set (queue_of cs c) \<inter> set (queue_of cs d) = {}) \<and>
     (\<forall>p < 32. fst (ts ! p) \<noteq> TASK_FREE \<longleftrightarrow> (\<exists>c < 8. int p \<in> set (queue_of cs c))) \<and>
     (\<forall>p < 32. fst (ts ! p) \<noteq> TASK_FREE \<longrightarrow>
        fst (snd (ts ! p)) = int p \<and> (\<exists>fr < 0x10000. snd (snd (ts ! p)) = Some fr)) \<and>
     (\<forall>c < 8. \<forall>p. cpu_task (cs ! c) = Some p \<longrightarrow> int p \<in> set (queue_of cs c)) \<and>
     (\<forall>p < 32. fst (ts ! p) = TASK_RUNNING \<longrightarrow> (\<exists>c < 8. cpu_task (cs ! c) = Some p))"

definition kinv :: "'a kernel_scheme \<Rightarrow> bool" where
  "kinv s \<longleftrightarrow> queues_ok (map tview (tasks s)) (cpus s) \<and> cpunum s < 8 \<and> npages s \<le> 0x10000"

lemma kinv_seen: "sview t = sview s \<Longrightarrow> kinv t = kinv s"
  by (simp only: sview_def kinv_def cpunum_def prod.inject)

lemma kinv_keeps: "keeps sview m \<Longrightarrow> m s = Inr (x, t) \<Longrightarrow> kinv s \<Longrightarrow> kinv t"
  using kinv_seen [of t s] keepsD [of sview m s x t] by simp

lemma rq_list_bounds: "rq_wf rq \<Longrightarrow> p \<in> set (rq_list rq) \<Longrightarrow> 0 \<le> p \<and> p < 32"
  by (auto simp: rq_wf_def rq_list_def NR_TASKS_def in_set_conv_nth)

lemma kinv_len:
  assumes "kinv s"
  shows "length (tasks s) = 32" "length (cpus s) = 8" "cpunum s < 8"
  using assms by (simp_all add: kinv_def queues_ok_def)

lemma kinv_current: "kinv s \<Longrightarrow> c < 8 \<Longrightarrow> cpu_task (cpus s ! c) = Some p \<Longrightarrow> int p \<in> set (queue_of (cpus s) c)"
  by (simp add: kinv_def queues_ok_def)

lemma kinv_member:
  assumes "kinv s" and "c < 8" and "int p \<in> set (queue_of (cpus s) c)"
  shows "p < 32" "state (tasks s ! p) \<noteq> TASK_FREE" "task_id (tasks s ! p) = int p" "pgdir_ok (tasks s ! p)"
proof -
  have "rq_wf (cpu_rq (cpus s ! c))" using assms by (simp add: kinv_def queues_ok_def)
  from rq_list_bounds [OF this assms(3)] show p: "p < 32" by simp
  then have t: "map tview (tasks s) ! p = tview (tasks s ! p)" using kinv_len [OF assms(1)] by simp
  have q: "queues_ok (map tview (tasks s)) (cpus s)" using assms(1) by (simp add: kinv_def)
  then have l: "fst (map tview (tasks s) ! p) \<noteq> TASK_FREE" using assms p unfolding queues_ok_def by blast
  then have "fst (snd (map tview (tasks s) ! p)) = int p \<and> (\<exists>fr < 0x10000. snd (snd (map tview (tasks s) ! p)) = Some fr)"
    using q p unfolding queues_ok_def by blast
  with l show "state (tasks s ! p) \<noteq> TASK_FREE" "task_id (tasks s ! p) = int p" "pgdir_ok (tasks s ! p)"
    by (auto simp: t tview_def pgdir_ok_def)
qed

lemma kinv_sched_wf: "kinv s \<Longrightarrow> sched_wf s"
  unfolding sched_wf_def NR_TASKS_def NCPU_def
proof (intro conjI allI impI)
  assume k: "kinv s"
  show "length (tasks s) = 32" "length (cpus s) = 8" "cpunum s < 8" by (rule kinv_len [OF k])+
  fix c :: nat assume c: "c < 8"
  then show "rq_wf (cpu_rq (cpus s ! c))" using k by (simp add: kinv_def queues_ok_def)
  show "t < 32" if "cpu_task (cpus s ! c) = Some t" for t
    by (rule kinv_member(1) [OF k c kinv_current [OF k c that]])
next
  fix p :: nat assume k: "kinv s" and p: "p < 32" and l: "state (tasks s ! p) \<noteq> TASK_FREE"
  have q: "queues_ok (map tview (tasks s)) (cpus s)" using k by (simp add: kinv_def)
  have "fst (map tview (tasks s) ! p) \<noteq> TASK_FREE" using l p kinv_len [OF k] by (simp add: tview_def)
  then obtain c where "c < 8" "int p \<in> set (queue_of (cpus s) c)" using q p unfolding queues_ok_def by blast
  then show "pgdir_ok (tasks s ! p)" by (rule kinv_member [OF k])
qed

subsection \<open>Changing the queues\<close>

lemma queues_okI:
  assumes "length ts = 32" "length cs = 8"
    and "\<And>c. c < 8 \<Longrightarrow> rq_wf (cpu_rq (cs ! c))" "\<And>c. c < 8 \<Longrightarrow> distinct (queue_of cs c)"
    and "\<And>c d x. c < 8 \<Longrightarrow> d < 8 \<Longrightarrow> x \<in> set (queue_of cs c) \<Longrightarrow> x \<in> set (queue_of cs d) \<Longrightarrow> c = d"
    and "\<And>p c. p < 32 \<Longrightarrow> c < 8 \<Longrightarrow> int p \<in> set (queue_of cs c) \<Longrightarrow> fst (ts ! p) \<noteq> TASK_FREE"
    and "\<And>p. p < 32 \<Longrightarrow> fst (ts ! p) \<noteq> TASK_FREE \<Longrightarrow> \<exists>c < 8. int p \<in> set (queue_of cs c)"
    and "\<And>p. p < 32 \<Longrightarrow> fst (ts ! p) \<noteq> TASK_FREE \<Longrightarrow>
      fst (snd (ts ! p)) = int p \<and> (\<exists>fr < 0x10000. snd (snd (ts ! p)) = Some fr)"
    and "\<And>c p. c < 8 \<Longrightarrow> cpu_task (cs ! c) = Some p \<Longrightarrow> int p \<in> set (queue_of cs c)"
    and "\<And>p. p < 32 \<Longrightarrow> fst (ts ! p) = TASK_RUNNING \<Longrightarrow> \<exists>c < 8. cpu_task (cs ! c) = Some p"
  shows "queues_ok ts cs"
  unfolding queues_ok_def
proof (intro conjI allI impI)
  show "set (queue_of cs c) \<inter> set (queue_of cs d) = {}" if "c < 8" "d < 8" "c \<noteq> d" for c d
    using assms(5) [OF that(1,2)] that(3) by blast
  show "fst (ts ! p) \<noteq> TASK_FREE \<longleftrightarrow> (\<exists>c < 8. int p \<in> set (queue_of cs c))" if "p < 32" for p
    using assms(6,7) [OF that] by blast
qed (use assms in auto)

lemma queues_okD:
  assumes "queues_ok ts cs"
  shows "length ts = 32" "length cs = 8"
    and "c < 8 \<Longrightarrow> rq_wf (cpu_rq (cs ! c))" "c < 8 \<Longrightarrow> distinct (queue_of cs c)"
    and "c < 8 \<Longrightarrow> d < 8 \<Longrightarrow> x \<in> set (queue_of cs c) \<Longrightarrow> x \<in> set (queue_of cs d) \<Longrightarrow> c = d"
    and "p < 32 \<Longrightarrow> c < 8 \<Longrightarrow> int p \<in> set (queue_of cs c) \<Longrightarrow> fst (ts ! p) \<noteq> TASK_FREE"
    and "p < 32 \<Longrightarrow> fst (ts ! p) \<noteq> TASK_FREE \<Longrightarrow> \<exists>c < 8. int p \<in> set (queue_of cs c)"
    and "p < 32 \<Longrightarrow> fst (ts ! p) \<noteq> TASK_FREE \<Longrightarrow>
      fst (snd (ts ! p)) = int p \<and> (\<exists>fr < 0x10000. snd (snd (ts ! p)) = Some fr)"
    and "c < 8 \<Longrightarrow> cpu_task (cs ! c) = Some p \<Longrightarrow> int p \<in> set (queue_of cs c)"
    and "p < 32 \<Longrightarrow> fst (ts ! p) = TASK_RUNNING \<Longrightarrow> \<exists>c < 8. cpu_task (cs ! c) = Some p"
  using assms unfolding queues_ok_def by blast+

text \<open>The state of a task changes, but it neither ends nor starts running.\<close>

lemma queues_state:
  assumes q: "queues_ok ts cs" and p: "p < 32" and live: "fst (ts ! p) \<noteq> TASK_FREE"
    and st: "st \<noteq> TASK_FREE" "st \<noteq> TASK_RUNNING"
  shows "queues_ok (ts[p := (st, snd (ts ! p))]) cs"
proof -
  have n: "ts[p := (st, snd (ts ! p))] ! i = (if i = p then (st, snd (ts ! p)) else ts ! i)" for i
    using p queues_okD(1) [OF q] by (simp add: nth_list_update)
  note d = queues_okD [OF q]
  show ?thesis
    by (rule queues_okI) (use d st live in \<open>auto simp: n split: if_splits\<close>)
qed

lemma queues_free_slot:
  assumes q: "queues_ok ts cs" and p: "p < 32" and free: "fst (ts ! p) = TASK_FREE"
  shows "queues_ok (ts[p := (TASK_FREE, x)]) cs"
proof -
  have n: "ts[p := (TASK_FREE, x)] ! i = (if i = p then (TASK_FREE, x) else ts ! i)" for i
    using p queues_okD(1) [OF q] by (simp add: nth_list_update)
  note d = queues_okD [OF q]
  show ?thesis
    by (rule queues_okI) (use d free in \<open>auto simp: n split: if_splits\<close>)
qed

lemma rq_push_list:
  assumes "rq_wf rq" and "rq_push pid rq = Inr rq'" and "0 \<le> pid" and "pid < 32"
  shows "rq_wf rq'" "rq_list rq' = rq_list rq @ [pid]"
  using assms by (auto simp: rq_wf_def rq_list_def rq_push_def NR_TASKS_def nth_list_update nat_add_distrib
      take_Suc_conv_app_nth split: if_splits)

text \<open>A new task joins a queue.\<close>

lemma queues_push:
  assumes q: "queues_ok ts cs" and p: "p < 32" and free: "fst (ts ! p) = TASK_FREE" and c: "c < 8"
    and push: "rq_push (int p) (cpu_rq (cs ! c)) = Inr rq" and pd: "pd < 0x10000"
  shows "queues_ok (ts[p := (TASK_RUNNABLE, int p, Some pd)]) (cs[c := (cs ! c)\<lparr>cpu_rq := rq\<rparr>])"
    (is "queues_ok ?ts ?cs")
proof -
  note d = queues_okD [OF q]
  note l = rq_push_list [OF d(3) [OF c] push]
  have no: "int p \<notin> set (queue_of cs d)" if "d < 8" for d using d(6) [OF p that] free by blast
  have Q: "queue_of ?cs i = (if i = c then queue_of cs c @ [int p] else queue_of cs i)"
    and T: "cpu_task (?cs ! i) = cpu_task (cs ! i)" and W: "i < 8 \<Longrightarrow> rq_wf (cpu_rq (?cs ! i))" for i
    using l p c d(2,3) by (simp_all add: nth_list_update)
  have n: "?ts ! i = (if i = p then (TASK_RUNNABLE, int p, Some pd) else ts ! i)" for i
    using p d(1) by (simp add: nth_list_update)
  show ?thesis
  proof (rule queues_okI)
    fix a b x assume "a < 8" "b < 8" "x \<in> set (queue_of ?cs a)" "x \<in> set (queue_of ?cs b)"
    then show "a = b" using no c d(5) [of a b x] by (auto simp: Q split: if_splits)
  next
    fix i assume "i < 32" "fst (?ts ! i) \<noteq> TASK_FREE"
    then show "\<exists>j < 8. int i \<in> set (queue_of ?cs j)"
      using c d(7) [of i] by (cases "i = p") (auto simp: Q n intro: exI [of _ c])
  next
    fix i a assume "i < 32" "a < 8" "int i \<in> set (queue_of ?cs a)"
    then show "fst (?ts ! i) \<noteq> TASK_FREE" using d(6) by (auto simp: Q n split: if_splits)
  next
    fix a i assume "a < 8" "cpu_task (?cs ! a) = Some i"
    then show "int i \<in> set (queue_of ?cs a)" using d(9) by (auto simp: Q T)
  next
    fix a :: nat assume "a < 8"
    then show "distinct (queue_of ?cs a)" using d(4) no c by (simp add: Q)
  next
    fix i assume "i < 32" "fst (?ts ! i) \<noteq> TASK_FREE"
    then show "fst (snd (?ts ! i)) = int i \<and> (\<exists>fr < 0x10000. snd (snd (?ts ! i)) = Some fr)"
      using d(8) pd by (simp add: n split: if_splits)
  next
    fix i assume "i < 32" "fst (?ts ! i) = TASK_RUNNING"
    then show "\<exists>a < 8. cpu_task (?cs ! a) = Some i" using d(10) unfolding T by (simp add: n split: if_splits)
  qed (simp_all add: d(1,2) W)
qed


lemma take_fill_hole:
  assumes "n \<le> length q" and "distinct (take n q)" and "i < n"
  shows "distinct (take (n - 1) (q[i := q ! (n - 1)]))"
    and "set (take (n - 1) (q[i := q ! (n - 1)])) = set (take n q) - {q ! i}"
proof -
  obtain m where n: "n = Suc m" using assms(3) by (cases n) auto
  have q: "take n q = take m q @ [q ! m]" using assms(1) by (simp add: n take_Suc_conv_app_nth)
  have u: "take (n - 1) (q[i := q ! (n - 1)]) = (take m q)[i := q ! m]" by (simp add: n take_update_swap)
  have d: "distinct (take m q)" "q ! m \<notin> set (take m q)" using assms(2) by (simp_all add: q)
  show "distinct (take (n - 1) (q[i := q ! (n - 1)]))" using d unfolding u by (simp add: distinct_list_update)
  show "set (take (n - 1) (q[i := q ! (n - 1)])) = set (take n q) - {q ! i}"
  proof (cases "i = m")
    case True
    then show ?thesis using d unfolding u q by (simp add: list_update_beyond)
  next
    case False
    then have "i < length (take m q)" using assms(1,3) n by simp
    moreover from this have "(take m q) ! i = q ! i" "q ! i \<in> set (take m q)" by (auto simp: in_set_conv_nth)
    ultimately show ?thesis using d unfolding u q by (auto simp: set_update_distinct)
  qed
qed

lemma rq_remove_cases:
  assumes "rq_remove pid is rq = Inr rq'"
  shows "rq' = rq \<and> pid \<notin> (!) (runQueue rq) ` set is \<or>
    (\<exists>i \<in> set is. runQueue rq ! i = pid \<and>
       rq' = rq\<lparr>total := total rq - 1, runQueue := (runQueue rq)[i := runQueue rq ! nat (total rq - 1)]\<rparr>)"
  using assms by (induction "is") (auto simp: Let_def split: if_splits)

lemma rq_remove_list:
  assumes wf: "rq_wf rq" and d: "distinct (rq_list rq)" and pid: "pid \<in> set (rq_list rq)"
    and rem: "rq_remove pid [0..<nat (total rq)] rq = Inr rq'"
  shows "rq_wf rq'" "distinct (rq_list rq')" "set (rq_list rq') = set (rq_list rq) - {pid}"
proof -
  let ?n = "nat (total rq)" and ?q = "runQueue rq"
  have n: "?n \<le> length ?q" "length ?q = 32" using wf by (auto simp: rq_wf_def NR_TASKS_def)
  have "pid \<in> (!) ?q ` set [0..<?n]" using pid n by (auto simp: rq_list_def in_set_conv_nth)
  with rq_remove_cases [OF rem] obtain i where i: "i < ?n" "?q ! i = pid"
    and r: "rq' = rq\<lparr>total := total rq - 1, runQueue := ?q[i := ?q ! nat (total rq - 1)]\<rparr>" by auto
  have t: "nat (total rq - 1) = ?n - 1" "0 < total rq" using i by auto
  note f = take_fill_hole [OF n(1) d [unfolded rq_list_def] i(1)]
  show "distinct (rq_list rq')" "set (rq_list rq') = set (rq_list rq) - {pid}"
    using f by (simp_all add: rq_list_def r t(1) i(2))
  show "rq_wf rq'" using wf i t n unfolding rq_wf_def r NR_TASKS_def
    by (auto simp: nth_list_update)
qed

text \<open>A task ends, and the processor that ran it has no current task.\<close>

lemma queues_kill:
  assumes q: "queues_ok ts cs" and p: "p < 32" and c: "c < 8" and mem: "int p \<in> set (queue_of cs c)"
    and cur: "cpu_task (cs ! c) = Some p"
    and rem: "rq_remove (int p) [0..<nat (total (cpu_rq (cs ! c)))] (cpu_rq (cs ! c)) = Inr rq"
  shows "queues_ok (ts[p := (TASK_FREE, x)]) (cs[c := (cs ! c)\<lparr>cpu_rq := rq, cpu_task := None\<rparr>])"
    (is "queues_ok ?ts ?cs")
proof -
  note d = queues_okD [OF q]
  note l = rq_remove_list [OF d(3) [OF c] d(4) [OF c] mem rem]
  have Q: "set (queue_of ?cs i) = (if i = c then set (queue_of cs c) - {int p} else set (queue_of cs i))"
    and T: "cpu_task (?cs ! i) = (if i = c then None else cpu_task (cs ! i))"
    and W: "i < 8 \<Longrightarrow> rq_wf (cpu_rq (?cs ! i))" "i < 8 \<Longrightarrow> distinct (queue_of ?cs i)" for i
    using l c d(2,3,4) by (simp_all add: nth_list_update)
  have n: "?ts ! i = (if i = p then (TASK_FREE, x) else ts ! i)" for i
    using p d(1) by (simp add: nth_list_update)
  have only: "a = c" if "a < 8" "int p \<in> set (queue_of cs a)" for a using d(5) [OF that(1) c that(2) mem] .
  show ?thesis
  proof (rule queues_okI)
    fix a b y assume "a < 8" "b < 8" "y \<in> set (queue_of ?cs a)" "y \<in> set (queue_of ?cs b)"
    then show "a = b" using c d(5) [of a b y] by (auto simp: Q split: if_splits)
  next
    fix i a assume "i < 32" "a < 8" "int i \<in> set (queue_of ?cs a)"
    then show "fst (?ts ! i) \<noteq> TASK_FREE" using d(6) only by (auto simp: Q n split: if_splits)
  next
    fix i assume i: "i < 32" "fst (?ts ! i) \<noteq> TASK_FREE"
    then have "i \<noteq> p" "fst (ts ! i) \<noteq> TASK_FREE" by (auto simp: n split: if_splits)
    then obtain a where "a < 8" "int i \<in> set (queue_of cs a)" using d(7) [OF i(1)] by blast
    then show "\<exists>a < 8. int i \<in> set (queue_of ?cs a)" using \<open>i \<noteq> p\<close> by (auto simp: Q)
  next
    fix i assume "i < 32" "fst (?ts ! i) \<noteq> TASK_FREE"
    then show "fst (snd (?ts ! i)) = int i \<and> (\<exists>fr < 0x10000. snd (snd (?ts ! i)) = Some fr)"
      using d(8) by (simp add: n split: if_splits)
  next
    fix a i assume "a < 8" "cpu_task (?cs ! a) = Some i"
    then show "int i \<in> set (queue_of ?cs a)" using d(9) by (simp add: Q T split: if_splits)
  next
    fix i assume i: "i < 32" "fst (?ts ! i) = TASK_RUNNING"
    then have "i \<noteq> p" "fst (ts ! i) = TASK_RUNNING" by (auto simp: n split: if_splits)
    then obtain a where "a < 8" "cpu_task (cs ! a) = Some i" using d(10) [OF i(1)] by blast
    moreover from this have "a \<noteq> c" using \<open>i \<noteq> p\<close> cur by auto
    ultimately show "\<exists>a < 8. cpu_task (?cs ! a) = Some i" by (auto simp: T)
  qed (simp_all add: d(1,2) W)
qed

text \<open>A processor whose current task is not running takes another task of its queue.\<close>

lemma queues_switch:
  assumes q: "queues_ok ts cs" and p: "p < 32" and c: "c < 8" and mem: "int p \<in> set (queue_of cs c)"
    and idle: "\<And>x. cpu_task (cs ! c) = Some x \<Longrightarrow> fst (ts ! x) \<noteq> TASK_RUNNING" and i: "0 \<le> i"
  shows "queues_ok (ts[p := (TASK_RUNNING, snd (ts ! p))])
    (cs[c := (cs ! c)\<lparr>cpu_task := Some p, cpu_rq := (cpu_rq (cs ! c))\<lparr>current_index := i\<rparr>\<rparr>])"
    (is "queues_ok ?ts ?cs")
proof -
  note d = queues_okD [OF q]
  have Q: "queue_of ?cs j = queue_of cs j" and T: "cpu_task (?cs ! j) = (if j = c then Some p else cpu_task (cs ! j))"
    and W: "j < 8 \<Longrightarrow> rq_wf (cpu_rq (?cs ! j))" for j
    using c i d(2,3) by (simp_all add: nth_list_update rq_list_def rq_wf_def)
  have n: "?ts ! j = (if j = p then (TASK_RUNNING, snd (ts ! p)) else ts ! j)" for j
    using p d(1) by (simp add: nth_list_update)
  have live: "fst (ts ! p) \<noteq> TASK_FREE" by (rule d(6) [OF p c mem])
  have eq: "(fst (?ts ! j) \<noteq> TASK_FREE) = (fst (ts ! j) \<noteq> TASK_FREE)" "snd (?ts ! j) = snd (ts ! j)" for j
    using live by (simp_all add: n)
  show ?thesis
  proof (rule queues_okI)
    fix j assume j: "j < 32" "fst (?ts ! j) = TASK_RUNNING"
    show "\<exists>a < 8. cpu_task (?cs ! a) = Some j"
    proof (cases "j = p")
      case False
      then obtain a where "a < 8" "cpu_task (cs ! a) = Some j" "fst (ts ! j) = TASK_RUNNING"
        using j d(10) [OF j(1)] by (auto simp: n)
      moreover from this have "a \<noteq> c" using idle [of j] by auto
      ultimately show ?thesis by (auto simp: T)
    qed (use c in \<open>auto simp: T\<close>)
  next
    fix a j assume "a < 8" "cpu_task (?cs ! a) = Some j"
    then show "int j \<in> set (queue_of ?cs a)" using d(9) mem unfolding Q T by (simp split: if_splits)
  qed (use d in \<open>simp_all only: Q eq W length_list_update not_False_eq_True\<close>)
qed

text \<open>A processor without tasks gets its first one.\<close>

lemma queues_first:
  assumes q: "queues_ok ts cs" and p: "p < 32" and free: "fst (ts ! p) = TASK_FREE" and c: "c < 8"
    and empty: "queue_of cs c = []" and pd: "pd < 0x10000"
    and cpu: "cpu_task x = Some p" "cpu_rq x = first_rq (int p)"
  shows "queues_ok (ts[p := (TASK_RUNNING, int p, Some pd)]) (cs[c := x])" (is "queues_ok ?ts ?cs")
proof -
  note d = queues_okD [OF q]
  have first: "rq_list (first_rq (int p)) = [int p]" "rq_wf (first_rq (int p))"
    using p by (simp_all add: rq_list_def first_rq_def rq_wf_def NR_TASKS_def take_update_swap)
  have Q: "queue_of ?cs j = (if j = c then [int p] else queue_of cs j)"
    and T: "cpu_task (?cs ! j) = (if j = c then Some p else cpu_task (cs ! j))"
    and W: "j < 8 \<Longrightarrow> rq_wf (cpu_rq (?cs ! j))" for j
    using c cpu first d(2,3) by (simp_all add: nth_list_update)
  have n: "?ts ! j = (if j = p then (TASK_RUNNING, int p, Some pd) else ts ! j)" for j
    using p d(1) by (simp add: nth_list_update)
  have no: "int p \<notin> set (queue_of cs a)" if "a < 8" for a using d(6) [OF p that] free by blast
  show ?thesis
  proof (rule queues_okI)
    fix a b y assume "a < 8" "b < 8" "y \<in> set (queue_of ?cs a)" "y \<in> set (queue_of ?cs b)"
    then show "a = b" using no d(5) [of a b y] by (auto simp: Q split: if_splits)
  next
    fix j a assume "j < 32" "a < 8" "int j \<in> set (queue_of ?cs a)"
    then show "fst (?ts ! j) \<noteq> TASK_FREE" using d(6) by (auto simp: Q n split: if_splits)
  next
    fix j assume j: "j < 32" "fst (?ts ! j) \<noteq> TASK_FREE"
    show "\<exists>a < 8. int j \<in> set (queue_of ?cs a)"
    proof (cases "j = p")
      case False
      then obtain a where "a < 8" "int j \<in> set (queue_of cs a)" using j d(7) [OF j(1)] by (auto simp: n)
      then show ?thesis using empty by (auto simp: Q)
    qed (use c in \<open>auto simp: Q\<close>)
  next
    fix j assume "j < 32" "fst (?ts ! j) \<noteq> TASK_FREE"
    then show "fst (snd (?ts ! j)) = int j \<and> (\<exists>fr < 0x10000. snd (snd (?ts ! j)) = Some fr)"
      using d(8) pd by (simp add: n split: if_splits)
  next
    fix a j assume "a < 8" "cpu_task (?cs ! a) = Some j"
    then show "int j \<in> set (queue_of ?cs a)" using d(9) by (simp add: Q T split: if_splits)
  next
    fix j assume j: "j < 32" "fst (?ts ! j) = TASK_RUNNING"
    show "\<exists>a < 8. cpu_task (?cs ! a) = Some j"
    proof (cases "j = p")
      case False
      then obtain a where a: "a < 8" "cpu_task (cs ! a) = Some j" using j d(10) [OF j(1)] by (auto simp: n)
      then have "a \<noteq> c" using d(9) [OF a] empty by auto
      then show ?thesis using a by (auto simp: T)
    qed (use c in \<open>auto simp: T\<close>)
  next
    fix a :: nat assume "a < 8"
    then show "distinct (queue_of ?cs a)" using d(4) by (simp add: Q)
  qed (simp_all add: d(1,2) W)
qed

end
