(* ===== verification/Machine.thy ===== *)
theory Machine
  imports Queues
begin

text \<open>
  The kernel's operations and the run queues: what the scheduler, \<^verbatim>\<open>task_create\<close>, \<^verbatim>\<open>sys_fork\<close>, \<^verbatim>\<open>sys_kill\<close>, the
  timer, the system calls and the trap dispatcher do to them, and that each keeps them consistent.
\<close>

section \<open>What the operations do to the queues\<close>

text \<open>The rest of the view, beside the tasks.\<close>

definition rview :: "'a kernel_scheme \<Rightarrow> CpuInfo list \<times> int \<times> nat \<times> u32 \<times> nat" where
  "rview s = (cpus s, ncpu s, npages s, lapic s, cur_cpu s)"

abbreviation tviews :: "'a kernel_scheme \<Rightarrow> (TaskState \<times> int \<times> nat option) list" where
  "tviews s \<equiv> map tview (tasks s)"

lemma sview_rview: "sview s = (tviews s, rview s)"
  by (simp add: sview_def rview_def)

lemma rview_sel: "rview t = rview s \<Longrightarrow> cpus t = cpus s \<and> ncpu t = ncpu s \<and> npages t = npages s \<and> cpunum t = cpunum s"
  by (simp add: rview_def cpunum_def)

lemma keeps_sview:
  assumes "keeps sview m" and "m s = Inr (x, t)"
  shows "tviews t = tviews s" "rview t = rview s"
  using keepsD [of sview m s x t] assms by (simp_all add: sview_rview)

lemma kinv_views: "kinv s \<longleftrightarrow> queues_ok (tviews s) (cpus s) \<and> cpunum s < 8 \<and> npages s \<le> 0x10000"
  by (simp add: kinv_def)

lemma upd_task_view:
  assumes "upd_task i f s = Inr (x, t)" and "\<And>t. tview (f t) = g (tview t)"
  shows "0 \<le> i" "nat i < length (tasks s)" "rview t = rview s"
    "tviews t = (tviews s)[nat i := g (tviews s ! nat i)]"
  using assms(1) by (auto simp: upd_task_def rview_def map_update assms(2) nat_less_iff split: if_splits)

lemma upd_thiscpu_view:
  assumes "upd_thiscpu f s = Inr (x, t)"
  shows "tviews t = tviews s" "cpus t = (cpus s)[cpunum s := f (cpus s ! cpunum s)]" "cpunum s < length (cpus s)"
    "snd (rview t) = snd (rview s)" "cpunum t = cpunum s"
  using assms by (auto simp: upd_thiscpu_def upd_cpu_def rview_def cpunum_def kbind_apply split: if_splits)

lemma thiscpu_view: "thiscpu s = Inr (c, t) \<Longrightarrow> t = s \<and> c = cpus s ! cpunum s \<and> cpunum s < length (cpus s)"
  by (auto simp: thiscpu_def get_cpu_def kbind_apply split: if_splits)

lemma cur_taskD: "cur_task s = Inr (c, t) \<Longrightarrow> t = s \<and> cpu_task (cpus s ! cpunum s) = Some c"
  by (auto simp: cur_task_def elim!: kbind_InrE dest!: thiscpu_view split: option.splits)

lemma get_taskD: "get_task i s = Inr (c, t) \<Longrightarrow> t = s \<and> 0 \<le> i \<and> nat i < length (tasks s) \<and> c = tasks s ! nat i"
  by (auto simp: get_task_def split: if_splits)

lemma get_cpuD: "get_cpu i s = Inr (c, t) \<Longrightarrow> t = s \<and> i < length (cpus s) \<and> c = cpus s ! i"
  by (auto simp: get_cpu_def split: if_splits)

text \<open>A task that exists goes to sleep or becomes runnable.\<close>

lemma kinv_upd_state:
  assumes k: "kinv s" and c: "c < 8" and mem: "p \<in> set (queue_of (cpus s) c)"
    and f: "\<And>t. tview (f t) = (st, snd (tview t))" and st: "st \<noteq> TASK_FREE" "st \<noteq> TASK_RUNNING"
    and u: "upd_task p f s = Inr (x, t)"
  shows "kinv t" "rview t = rview s" "state (tasks t ! nat p) = st"
proof -
  note v = upd_task_view [OF u, of "\<lambda>w. (st, snd w)", OF f]
  have p: "int (nat p) \<in> set (queue_of (cpus s) c)" using mem v(1) by simp
  note m = kinv_member [OF k c this]
  have l: "fst (tviews s ! nat p) \<noteq> TASK_FREE" using m v(2) by (simp add: tview_def)
  have "queues_ok (tviews t) (cpus t)"
    using queues_state [OF _ m(1) l st] k rview_sel [OF v(3)] unfolding v(4) by (simp add: kinv_views)
  then show "kinv t" using k rview_sel [OF v(3)] by (simp add: kinv_views)
  show "rview t = rview s" by (rule v(3))
  have "length (tasks t) = 32" using \<open>kinv t\<close> by (rule kinv_len)
  then have "fst (tview (tasks t ! nat p)) = fst (tviews t ! nat p)" using m(1) by simp
  also have "\<dots> = st" using v(2) by (simp add: v(4))
  finally show "state (tasks t ! nat p) = st" by (simp add: tview_def)
qed

subsection \<open>The scheduler\<close>

lemma rq_pid_mem:
  assumes "kinv s" and "0 \<le> i" and "i < rq_size s"
  shows "int (rq_pid s i) \<in> set (queue_of (cpus s) (cpunum s))"
proof -
  have w: "rq_wf (cpu_rq (this_cpu s))" by (rule sched_wf_simps [OF kinv_sched_wf [OF assms(1)]])
  then have "nat i < length (rq_list (cpu_rq (this_cpu s)))"
    using assms(2,3) by (auto simp: rq_list_def rq_size_def rq_wf_def nat_less_iff)
  then have "rq_list (cpu_rq (this_cpu s)) ! nat i \<in> set (rq_list (cpu_rq (this_cpu s)))" by (rule nth_mem)
  moreover have "rq_list (cpu_rq (this_cpu s)) ! nat i = runQueue (cpu_rq (this_cpu s)) ! nat i"
    using assms(2,3) by (simp add: rq_list_def rq_size_def)
  ultimately show ?thesis
    using rq_list_bounds [OF w, of "runQueue (cpu_rq (this_cpu s)) ! nat i"] by (simp add: rq_pid_def this_cpu_def)
qed

lemma kinv_switched:
  assumes k: "kinv s" and i: "0 \<le> i" "i < rq_size s"
    and idle: "\<And>x. cpu_task (this_cpu s) = Some x \<Longrightarrow> state (tasks s ! x) \<noteq> TASK_RUNNING"
  shows "kinv (switched i s)"
proof -
  note mem = rq_pid_mem [OF k i] and l = kinv_len [OF k]
  note m = kinv_member [OF k l(3) mem]
  have q: "queues_ok (tviews s) (cpus s)" using k by (simp add: kinv_views)
  have idle': "fst (tviews s ! x) \<noteq> TASK_RUNNING" if "cpu_task (cpus s ! cpunum s) = Some x" for x
    using idle [of x] that kinv_member(1) [OF k l(3) kinv_current [OF k l(3) that]] l(1) by (simp add: tview_def this_cpu_def)
  note s = queues_switch [OF q m(1) l(3) mem idle' i(1)]
  have "tviews (switched i s) = (tviews s)[rq_pid s i := (TASK_RUNNING, snd (tviews s ! rq_pid s i))]"
    "cpunum (switched i s) = cpunum s" "npages (switched i s) = npages s"
    using m(1) l(1) by (simp_all add: switched_def Let_def map_update tview_def)
  then show ?thesis using s k by (simp add: kinv_views) (simp add: switched_def Let_def this_cpu_def)
qed

lemma kinv_sched_yield:
  assumes k: "kinv s" and y: "sched_yield s = Inr (r, t)"
    and idle: "\<And>x. cpu_task (this_cpu s) = Some x \<Longrightarrow> state (tasks s ! x) \<noteq> TASK_RUNNING"
  shows "kinv t"
proof (cases r)
  case (Ret u)
  then have "t = s" using y unfolding sched_yield_search [OF kinv_sched_wf [OF k]] search_def
    by (auto split: option.splits)
  then show ?thesis using k by simp
next
  case (Switch p)
  then obtain n where n: "n < nat (rq_size s)" "t = switched (rq_pos s n) s"
    using y unfolding sched_yield_search [OF kinv_sched_wf [OF k]] by (blast elim: search_SwitchE)
  then have "0 < rq_size s" by linarith
  then show ?thesis unfolding n(2) by (intro kinv_switched k idle) (simp_all add: rq_pos_def)
qed

subsection \<open>Creating a task\<close>

lemma find_freeD: "find_free ps s = Inr (Some p, t) \<Longrightarrow> t = s \<and> p \<in> set ps \<and> p < length (tasks s) \<and> state (tasks s ! p) = TASK_FREE"
  by (induction ps) (auto elim!: kbind_InrE dest!: get_taskD split: if_splits)

lemma page2kva_bound: "page2kva pp s = Inr (fr, t) \<Longrightarrow> fr < npages s"
  by (auto simp: page2kva_def KADDR_frame_def KADDR_def lift_sum_def kaddr_def kva_frame_def
      elim!: kbind_InrE split: if_splits sum.splits)

lemma setupkvm_bound:
  fixes s :: "'a kernel_scheme"
  assumes "setupkvm s = Inr (Some pd, t)"
  shows "pd < npages s"
proof -
  obtain r s1 where a: "page_alloc ALLOC_ZERO s = Inr (r, s1)"
    using assms unfolding setupkvm_def by (rule kbind_InrE)
  then obtain pp where r: "r = Some pp" using assms unfolding setupkvm_def by (cases r) simp_all
  obtain fr s2 where p: "page2kva pp s1 = Inr (fr, s2)"
    using assms a r by (cases "page2kva pp s1") (auto simp: setupkvm_def)
  have "pd = fr"
    using assms unfolding setupkvm_def by (simp add: a r p) (auto elim!: kbind_InrE)
  moreover have "npages s1 = npages s" by (rule keepsD [OF keeps_mem_ops(1) a]) simp
  ultimately show ?thesis using page2kva_bound [OF p] by simp
qed


lemma new_space_view:
  fixes s :: "'a kernel_scheme"
  assumes c: "new_space p s = Inr (ok, t)"
  shows "rview t = rview s" "\<exists>pd < npages s. tviews t = (tviews s)[p := (fst (tviews s ! p), fst (snd (tviews s ! p)), Some pd)]"
proof -
  from c obtain d s1 s2 where k: "setupkvm s = Inr (d, s1)" and u: "upd_task (int p) (\<lambda>t. t\<lparr>pgdir := d\<rparr>) s1 = Inr ((), s2)"
    unfolding new_space_def by (auto elim!: kbind_InrE)
  have r: "(case d of None \<Rightarrow> kfail (Panic (''Not enough memory for per process page directory!'' @ nl))
      | Some pd \<Rightarrow> alloc_stack pd stack_vas) s2 = Inr (ok, t)"
    using c by (simp add: new_space_def k u)
  then obtain pd where pd: "d = Some pd" and a: "alloc_stack pd stack_vas s2 = Inr (ok, t)" by (cases d) simp_all
  note v1 = keeps_sview [OF keeps_setupkvm k, simplified]
    and v2 = upd_task_view [OF u, of "\<lambda>(a, b, _). (a, b, d)", unfolded tview_def, simplified, folded tview_def]
    and v3 = keeps_sview [OF keeps_alloc_stack a, simplified]
  show "rview t = rview s" using v1 v2 v3 by simp
  show "\<exists>pd < npages s. tviews t = (tviews s)[p := (fst (tviews s ! p), fst (snd (tviews s ! p)), Some pd)]"
    using v1 v2 v3 setupkvm_bound [OF k [unfolded pd]] by (auto simp: case_prod_beta pd)
qed

lemma fill_task_view:
  assumes c: "fill_task p s = Inr (x, t)"
  shows "rview t = rview s" "tviews t = (tviews s)[p := (TASK_RUNNABLE, int p, snd (snd (tviews s ! p)))]"
proof -
  obtain s6 s7 par s8 where w: "upd_task (int p) (\<lambda>t. t\<lparr>tf := user_tf\<rparr>) s = Inr ((), s6)"
    "upd_task (int p) (\<lambda>t. t\<lparr>task_id := int p\<rparr>) s6 = Inr ((), s7)" "current_pid s7 = Inr (par, s8)"
    "upd_task (int p) (\<lambda>t. t\<lparr>parent_id := par, remind_ticks := TIME_QUANT, state := TASK_RUNNABLE\<rparr>) s8 = Inr ((), t)"
    using c unfolding fill_task_def by (auto elim!: kbind_InrE)
  note v6 = upd_task_view [OF w(1), of id, unfolded tview_def, simplified, folded tview_def]
    and v7 = upd_task_view [OF w(2), of "\<lambda>(a, _, b). (a, int p, b)", unfolded tview_def, simplified, folded tview_def]
    and v8 = keeps_sview [OF keeps_current_pid w(3)]
    and v9 = upd_task_view [OF w(4), of "\<lambda>(_, b). (TASK_RUNNABLE, b)", unfolded tview_def, simplified, folded tview_def]
  show "rview t = rview s" using v6(3) v7(3) v8(2) v9(3) by simp
  show "tviews t = (tviews s)[p := (TASK_RUNNABLE, int p, snd (snd (tviews s ! p)))]"
    using v6(2) by (simp add: v6(4) v7(4) v8(1) v9(4) case_prod_beta)
qed

text \<open>
  \<^verbatim>\<open>task_create\<close> fails, and at most the page directory of an unused task has changed, or it fills
  an unused task, which is then runnable but in no queue.
\<close>

lemma task_create_view:
  fixes s :: "'a kernel_scheme"
  assumes c: "task_create s = Inr (r, t)" and n: "length (tasks s) = 32"
  shows "rview t = rview s \<and>
    (r = - 1 \<and> (tviews t = tviews s \<or>
        (\<exists>p < 32. \<exists>x. fst (tviews s ! p) = TASK_FREE \<and> tviews t = (tviews s)[p := (TASK_FREE, x)])) \<or>
     (\<exists>p < 32. \<exists>pd < npages s. r = int p \<and> fst (tviews s ! p) = TASK_FREE \<and>
        tviews t = (tviews s)[p := (TASK_RUNNABLE, int p, Some pd)]))"
proof -
  let ?ts = "tviews s"
  from c obtain s1 q s2 where l: "lock_tasks s = Inr ((), s1)" and f: "find_free [0..<NR_TASKS] s1 = Inr (q, s2)"
    unfolding task_create_def by (auto elim!: kbind_InrE)
  note v1 = keeps_sview [OF keeps_locks(1) l, simplified] and v2 = keeps_sview [OF keeps_find_free f]
  show ?thesis
  proof (cases q)
    case None
    then have u: "unlock_tasks s2 = Inr ((), t)" and "r = - 1"
      using c l f unfolding task_create_def by (auto elim: kbind_InrE)
    with keeps_sview [OF keeps_locks(2) u, simplified] v2 show ?thesis using v1 by simp
  next
    case (Some p)
    have "length (tasks s1) = 32" using n v1(1) map_eq_imp_length_eq by metis
    then have p: "p < 32" "fst (?ts ! p) = TASK_FREE"
      using find_freeD [OF f [unfolded Some]] by (auto simp: tview_def v1(1) [symmetric])
    have r: "kbind (new_space p) (\<lambda>ok. if \<not> ok then kbind unlock_tasks (\<lambda>_. kreturn (- 1))
         else kbind (fill_task p) (\<lambda>_. kbind unlock_tasks (\<lambda>_. kreturn (int p)))) s2 = Inr (r, t)"
      using c by (simp add: task_create_def l f Some)
    then obtain ok s3 where k: "new_space p s2 = Inr (ok, s3)" by (rule kbind_InrE)
    obtain pd where pd: "pd < npages s" "tviews s3 = ?ts[p := (TASK_FREE, fst (snd (?ts ! p)), Some pd)]" "rview s3 = rview s"
      using new_space_view [OF k] v1 v2 p(2) rview_sel [of s2 s] by auto
    show ?thesis
    proof (cases ok)
      case False
      then have x: "unlock_tasks s3 = Inr ((), t)" and "r = - 1" using r k by (auto elim: kbind_InrE)
      with keeps_sview [OF keeps_locks(2) x, simplified] pd p show ?thesis by auto
    next
      case True
      then obtain s4 where w: "fill_task p s3 = Inr ((), s4)" "unlock_tasks s4 = Inr ((), t)" "r = int p"
        using r k by (auto elim!: kbind_InrE)
      note v4 = fill_task_view [OF w(1)] and v5 = keeps_sview [OF keeps_locks(2) w(2), simplified]
      have "tviews t = ?ts[p := (TASK_RUNNABLE, int p, Some pd)]" "rview t = rview s"
        using v4 v5 pd p(1) n by simp_all
      then show ?thesis using w(3) p pd(1) by blast
    qed
  qed
qed

lemma kinv_bound: "kinv s \<Longrightarrow> pd < npages s \<Longrightarrow> pd < 0x10000"
  by (simp add: kinv_def)

lemma kinv_create_failed:
  assumes k: "kinv s" and "rview t = rview s"
    and "tviews t = tviews s \<or> (\<exists>p < 32. \<exists>x. fst (tviews s ! p) = TASK_FREE \<and> tviews t = (tviews s)[p := (TASK_FREE, x)])"
  shows "kinv t"
  using assms queues_free_slot [of "tviews s" "cpus s"] rview_sel [OF assms(2)] unfolding kinv_views
  by (elim disjE exE conjE) simp_all

lemma enqueue_view:
  assumes "enqueue pid s = Inr (x, t)"
  obtains i rq where "i < length (cpus s)" "rq_push pid (cpu_rq (cpus s ! i)) = Inr rq"
    "cpus t = (cpus s)[i := (cpus s ! i)\<lparr>cpu_rq := rq\<rparr>]" "tviews t = tviews s" "snd (rview t) = snd (rview s)"
proof -
  obtain s1 i s2 w s3 rq s4 s5 where e: "acquire cpus_lock cpus_lock_update s = Inr ((), s1)"
    "pick_cpu [0..<nat (ncpu s1)] (int NR_TASKS) 0 s1 = Inr (i, s2)" "get_cpu i s2 = Inr (w, s3)"
    "ksum (rq_push pid (cpu_rq w)) s3 = Inr (rq, s4)" "upd_cpu i (\<lambda>c. c\<lparr>cpu_rq := rq\<rparr>) s4 = Inr ((), s5)"
    "release cpus_lock cpus_lock_update s5 = Inr ((), t)"
    using assms unfolding enqueue_def by (auto elim!: kbind_InrE)
  note v1 = keeps_sview [OF keeps_locks(5) e(1), simplified] and v2 = keeps_sview [OF keeps_pick_cpu e(2)]
    and v5 = keeps_sview [OF keeps_locks(6) e(6), simplified] and g = get_cpuD [OF e(3)]
  have r: "rq_push pid (cpu_rq w) = Inr rq" "s4 = s3" using e(4) by (auto simp: ksum_def split: sum.splits)
  have c: "cpus s2 = cpus s" using v1 v2 by (simp add: rview_def)
  have u: "cpus s5 = (cpus s)[i := (cpus s ! i)\<lparr>cpu_rq := rq\<rparr>]" "tviews s5 = tviews s2" "snd (rview s5) = snd (rview s2)"
    using e(5) r(2) g c by (auto simp: upd_cpu_def rview_def split: if_splits)
  show ?thesis
    by (rule that [of i rq]) (use g c r(1) u v1 v2 v5 in \<open>simp_all add: rview_def\<close>)
qed

lemma kinv_sys_fork:
  fixes s :: "'a kernel_scheme"
  assumes k: "kinv s" and f: "sys_fork s = Inr (r, t)"
  shows "kinv t"
proof -
  obtain pid s1 where c: "task_create s = Inr (pid, s1)" using f unfolding sys_fork_def by (rule kbind_InrE)
  note v = task_create_view [OF c kinv_len(1) [OF k]]
  show ?thesis
  proof (cases "pid = - 1")
    case True
    then have "t = s1" using f by (simp add: sys_fork_def c)
    then show ?thesis using v True by (auto intro: kinv_create_failed [OF k])
  next
    case False
    then obtain p pd where p: "p < 32" "pd < npages s" "pid = int p" "fst (tviews s ! p) = TASK_FREE"
      "tviews s1 = (tviews s)[p := (TASK_RUNNABLE, int p, Some pd)]" "rview s1 = rview s" using v by auto
    obtain cpu :: CpuInfo and s2 where f1: "(case cpu_task cpu of None \<Rightarrow> kreturn () | Some cur \<Rightarrow> fork_copy cur pid) s1 = Inr ((), s2)"
      and f2: "enqueue pid s2 = Inr ((), t)"
      using f False by (auto simp: sys_fork_def c elim!: kbind_InrE dest!: thiscpu_view)
    have "keeps sview (case cpu_task cpu of None \<Rightarrow> kreturn () | Some cur \<Rightarrow> fork_copy cur pid)" by (intro kept) simp
    note v2 = keeps_sview [OF this f1] and q = k [unfolded kinv_views, THEN conjunct1]
    obtain i rq where e: "i < length (cpus s2)" "rq_push pid (cpu_rq (cpus s2 ! i)) = Inr rq"
      "cpus t = (cpus s2)[i := (cpus s2 ! i)\<lparr>cpu_rq := rq\<rparr>]" "tviews t = tviews s2" "snd (rview t) = snd (rview s2)"
      by (rule enqueue_view [OF f2])
    have c2: "cpus s2 = cpus s" using v2 p(6) by (simp add: rview_def)
    have "queues_ok (tviews t) (cpus t)"
      using queues_push [OF q p(1,4), of i rq pd] e p(2,3,5) v2(1) kinv_len(2) [OF k] kinv_bound [OF k]
      by (simp add: c2)
    then show ?thesis using k e(5) v2(2) p(6) by (auto simp: kinv_views rview_def cpunum_def split: if_splits)
  qed
qed

subsection \<open>Ending a task\<close>

lemma kinv_sys_kill:
  fixes s :: "'a kernel_scheme"
  assumes k: "kinv s" and cur: "cpu_task (this_cpu s) = Some p" and f: "sys_kill (int p) s = Inr (r, t)"
  shows "kinv t"
proof -
  let ?c = "cpunum s"
  note l = kinv_len [OF k] and q = k [unfolded kinv_views, THEN conjunct1]
  have mem: "int p \<in> set (queue_of (cpus s) ?c)" using kinv_current [OF k l(3)] cur by (simp add: this_cpu_def)
  note m = kinv_member [OF k l(3) mem]
  have "t = s \<or> (\<exists>rq s1 s2 s3 s4 s5. rq_remove (int p) [0..<nat (total (cpu_rq (this_cpu s)))] (cpu_rq (this_cpu s)) = Inr rq \<and>
      upd_thiscpu (\<lambda>c. c\<lparr>cpu_rq := rq\<rparr>) s = Inr ((), s1) \<and> lock_tasks s1 = Inr ((), s2) \<and>
      task_free (int p) s2 = Inr ((), s3) \<and> upd_task (int p) (\<lambda>t. t\<lparr>state := TASK_FREE\<rparr>) s3 = Inr ((), s4) \<and>
      unlock_tasks s4 = Inr ((), s5) \<and>
      kbind thiscpu (\<lambda>c. case cpu_task c of None \<Rightarrow> kfail NullDeref
          | Some cur \<Rightarrow> kbind (get_task (int cur)) (\<lambda>t.
              if task_id t = int p then kbind (upd_thiscpu (\<lambda>c. c\<lparr>cpu_task := None\<rparr>)) (\<lambda>_. sched_yield)
              else kreturn (Ret ()))) s5 = Inr (r, t))"
    using f l thiscpu_ok [of s] unfolding sys_kill_def
    by (auto simp: kbind_eq_Inr ksum_def split: if_splits sum.splits)
  then show ?thesis
  proof (elim disjE exE conjE)
    assume "t = s" with k show ?thesis by simp
  next
    fix rq s1 s2 s3 s4 s5
    assume rem: "rq_remove (int p) [0..<nat (total (cpu_rq (this_cpu s)))] (cpu_rq (this_cpu s)) = Inr rq"
      and e: "upd_thiscpu (\<lambda>c. c\<lparr>cpu_rq := rq\<rparr>) s = Inr ((), s1)" "lock_tasks s1 = Inr ((), s2)"
        "task_free (int p) s2 = Inr ((), s3)" "upd_task (int p) (\<lambda>t. t\<lparr>state := TASK_FREE\<rparr>) s3 = Inr ((), s4)"
        "unlock_tasks s4 = Inr ((), s5)"
      and y: "kbind thiscpu (\<lambda>c. case cpu_task c of None \<Rightarrow> kfail NullDeref
          | Some cur \<Rightarrow> kbind (get_task (int cur)) (\<lambda>t.
              if task_id t = int p then kbind (upd_thiscpu (\<lambda>c. c\<lparr>cpu_task := None\<rparr>)) (\<lambda>_. sched_yield)
              else kreturn (Ret ()))) s5 = Inr (r, t)"
    note v1 = upd_thiscpu_view [OF e(1)] and v2 = keeps_sview [OF keeps_locks(1) e(2), simplified]
      and v3 = keeps_sview [OF keeps_task_free e(3), simplified]
      and v4 = upd_task_view [OF e(4), of "\<lambda>(_, b). (TASK_FREE, b)", unfolded tview_def, simplified, folded tview_def]
      and v5 = keeps_sview [OF keeps_locks(2) e(5), simplified]
    have c5: "cpunum s5 = ?c" "cpus s5 = (cpus s)[?c := (cpus s ! ?c)\<lparr>cpu_rq := rq\<rparr>]" "npages s5 = npages s"
      using v1 v2(2) v3(2) v4(3) v5(2) by (simp_all add: rview_def cpunum_def)
    have t5: "tviews s5 = (tviews s)[p := (TASK_FREE, snd (tviews s ! p))]"
      using v1(1) v2(1) v3(1) v4(4) v5(1) by (simp add: case_prod_beta)
    have n5: "length (tasks s5) = 32" using t5 l(1) by (metis length_list_update length_map)
    then have id: "task_id (tasks s5 ! p) = int p"
      using m l(1) arg_cong [OF t5, of "\<lambda>ts. fst (snd (ts ! p))"] by (simp add: tview_def)
    have cur5: "cpu_task (this_cpu s5) = Some p" using cur l by (simp add: this_cpu_def c5)
    have "thiscpu s5 = Inr (this_cpu s5, s5)" using l by (intro thiscpu_ok) (simp add: c5)
    then obtain s6 where u: "upd_thiscpu (\<lambda>c. c\<lparr>cpu_task := None\<rparr>) s5 = Inr ((), s6)" "sched_yield s6 = Inr (r, t)"
      using y cur5 id n5 m(1) by (auto simp: get_task_ok elim: kbind_InrE)
    note v6 = upd_thiscpu_view [OF u(1)]
    have c6: "cpus s6 = (cpus s)[?c := (cpus s ! ?c)\<lparr>cpu_rq := rq, cpu_task := None\<rparr>]" "cpunum s6 = ?c" "npages s6 = npages s"
      using v6 l by (simp_all add: c5 rview_def)
    have "queues_ok (tviews s6) (cpus s6)"
      using queues_kill [OF q m(1) l(3) mem _ rem [unfolded this_cpu_def]] cur v6(1) t5 c6 by (simp add: this_cpu_def)
    then have "kinv s6" using k c6 by (simp add: kinv_views)
    moreover have "cpu_task (this_cpu s6) = None" using c6 l by (simp add: this_cpu_def)
    ultimately show ?thesis using kinv_sched_yield [OF _ u(2)] by simp
  qed
qed


subsection \<open>Traps\<close>

lemma kinv_tick_sleeper:
  assumes k: "kinv s" and i: "i < nat (total (cpu_rq (this_cpu s)))" and e: "tick_sleeper i s = Inr (x, t)"
  shows "kinv t \<and> rview t = rview s"
proof -
  note w = kinv_sched_wf [OF k] and l = kinv_len [OF k]
  have i': "0 \<le> int i" "int i < rq_size s" using i by (simp_all add: rq_size_def)
  note r = rq_entry [OF w i'] and mem = rq_pid_mem [OF k i']
  let ?p = "rq_pid s (int i)"
  have "t = s \<or> (\<exists>s1. upd_task (int ?p) (\<lambda>t. t\<lparr>remind_ticks := remind_ticks t - 1\<rparr>) s = Inr ((), s1) \<and>
      (t = s1 \<or> upd_task (int ?p) (\<lambda>t. t\<lparr>state := TASK_RUNNABLE\<rparr>) s1 = Inr ((), t)))"
    using e l r unfolding tick_sleeper_def
    by (auto simp: kbind_apply thiscpu_ok get_task_ok upd_task_ok kwhen_def split: if_splits)
  then show ?thesis
  proof (elim disjE exE conjE)
    assume "t = s" with k show ?thesis by simp
  next
    fix s1 assume u: "upd_task (int ?p) (\<lambda>t. t\<lparr>remind_ticks := remind_ticks t - 1\<rparr>) s = Inr ((), s1)"
    have "keeps sview (upd_task (int ?p) (\<lambda>t. t\<lparr>remind_ticks := remind_ticks t - 1\<rparr>))" by (intro kept; simp add: tview_def)
    from keeps_sview [OF this u] kinv_keeps [OF this u k] have s1: "kinv s1" "rview s1 = rview s" by simp_all
    then have mem1: "int ?p \<in> set (queue_of (cpus s1) (cpunum s))" using mem by (simp add: rview_def)
    show ?thesis if "t = s1" using s1 that by simp
    show ?thesis if "upd_task (int ?p) (\<lambda>t. t\<lparr>state := TASK_RUNNABLE\<rparr>) s1 = Inr ((), t)"
      using kinv_upd_state [OF s1(1) l(3) mem1 _ _ _ that] s1(2) by (simp add: tview_def)
  qed
qed

lemma kinv_tick_all:
  assumes "kinv s" and "kfor is tick_sleeper s = Inr (x, t)" and "\<forall>i \<in> set is. i < nat (total (cpu_rq (this_cpu s)))"
  shows "kinv t \<and> rview t = rview s"
  using assms
proof (induction "is" arbitrary: s)
  case (Cons i "is")
  then obtain s1 where a: "tick_sleeper i s = Inr ((), s1)" "kfor is tick_sleeper s1 = Inr (x, t)"
    by (auto elim: kbind_InrE)
  have s1: "kinv s1" "rview s1 = rview s" using kinv_tick_sleeper [OF Cons.prems(1) _ a(1)] Cons.prems(3) by auto
  then have "this_cpu s1 = this_cpu s" using rview_sel [OF s1(2)] by (simp add: this_cpu_def)
  then show ?case using Cons.IH [OF s1(1) a(2)] Cons.prems(3) s1(2) by simp
qed simp

text \<open>The current task gives up the processor: it sleeps, or is runnable again.\<close>

lemma kinv_give_up:
  assumes k: "kinv s" and cur: "cpu_task (this_cpu s) = Some p" and st: "st \<noteq> TASK_FREE" "st \<noteq> TASK_RUNNING"
    and u: "upd_task (int p) (\<lambda>t. t\<lparr>state := st\<rparr>) s = Inr ((), s1)" and y: "sched_yield s1 = Inr (r, t)"
  shows "kinv t"
proof -
  note l = kinv_len [OF k]
  have mem: "int p \<in> set (queue_of (cpus s) (cpunum s))" using kinv_current [OF k l(3)] cur by (simp add: this_cpu_def)
  note v = kinv_upd_state [OF k l(3) mem _ st u, simplified tview_def, simplified]
  have "this_cpu s1 = this_cpu s" using rview_sel [OF v(2)] by (simp add: this_cpu_def)
  then show ?thesis using kinv_sched_yield [OF v(1) y] v(3) st(2) cur by simp
qed

lemma kinv_timer_handler:
  fixes s :: "'a kernel_scheme"
  assumes k: "kinv s" and f: "timer_handler s = Inr (r, t)"
  shows "kinv t"
proof -
  obtain s1 where e: "lapic_eoi (s\<lparr>jiffies := jiffies s + 1\<rparr>) = Inr ((), s1)"
    using f unfolding timer_handler_def by (auto elim!: kbind_InrE)
  have "sview s1 = sview s" using keepsD [OF keeps_lapic_eoi e, of sview] by simp
  then have s1: "kinv s1" using k kinv_seen [of s1 s] by simp
  have th: "thiscpu s1 = Inr (this_cpu s1, s1)" using kinv_len [OF s1] by (simp add: thiscpu_ok)
  show ?thesis
  proof (cases "cpu_task (this_cpu s1)")
    case None
    then show ?thesis using f s1 by (simp add: timer_handler_def e th)
  next
    case (Some p)
    then obtain s2 s3 where a: "kfor [0..<nat (total (cpu_rq (this_cpu s1)))] tick_sleeper s1 = Inr ((), s2)"
      and u: "upd_task (int p) (\<lambda>t. t\<lparr>remind_ticks := remind_ticks t - 1\<rparr>) s2 = Inr ((), s3)"
      and y: "t = s3 \<or> (\<exists>s4. upd_task (int p) (\<lambda>t. t\<lparr>state := TASK_RUNNABLE\<rparr>) s3 = Inr ((), s4) \<and> sched_yield s4 = Inr (r, t))"
      using f by (auto simp: timer_handler_def e th elim!: kbind_InrE dest!: get_taskD split: if_splits)
    have s2: "kinv s2" "rview s2 = rview s1" using kinv_tick_all [OF s1 a] by simp_all
    have "keeps sview (upd_task (int p) (\<lambda>t. t\<lparr>remind_ticks := remind_ticks t - 1\<rparr>))" by (intro kept; simp add: tview_def)
    from keeps_sview [OF this u] kinv_keeps [OF this u s2(1)] have s3: "kinv s3" "rview s3 = rview s1" using s2 by simp_all
    then have "cpu_task (this_cpu s3) = Some p" using rview_sel [OF s3(2)] Some by (simp add: this_cpu_def)
    then show ?thesis using y s3(1) kinv_give_up [OF s3(1), of p TASK_RUNNABLE] by auto
  qed
qed

lemma kinv_flow_as: "(\<And>r t. m s = Inr (r, t) \<Longrightarrow> kinv t) \<Longrightarrow> flow_as v m s = Inr (x, t) \<Longrightarrow> kinv t"
  by (auto simp: flow_as_def elim!: kbind_InrE split: flow.splits)

lemma kinv_ret_as: "(\<And>r t. m s = Inr (r, t) \<Longrightarrow> kinv t) \<Longrightarrow> ret_as g m s = Inr (x, t) \<Longrightarrow> kinv t"
  by (auto simp: ret_as_def elim!: kbind_InrE)

lemma kinv_sleep:
  fixes s :: "'a kernel_scheme"
  assumes k: "kinv s" and cur: "cpu_task (this_cpu s) = Some p"
    and u: "upd_task (int p) (\<lambda>t. t\<lparr>remind_ticks := a\<rparr>) s = Inr ((), s1)"
    and y: "upd_task (int p) (\<lambda>t. t\<lparr>state := TASK_SLEEP\<rparr>) s1 = Inr ((), s2)" "sched_yield s2 = Inr (r, t)"
  shows "kinv t"
proof -
  have "keeps sview (upd_task (int p) (\<lambda>t. t\<lparr>remind_ticks := a\<rparr>) :: ('a kernel_scheme, unit) kfun)"
    by (intro kept; simp add: tview_def)
  from keeps_sview [OF this u] kinv_keeps [OF this u k] have s1: "kinv s1" "rview s1 = rview s" by simp_all
  then have "cpu_task (this_cpu s1) = Some p" using rview_sel [OF s1(2)] cur by (simp add: this_cpu_def)
  then show ?thesis by (rule kinv_give_up [OF s1(1) _ _ _ y]) simp_all
qed

lemma kinv_do_syscall:
  fixes s :: "'a kernel_scheme"
  assumes k: "kinv s" and f: "do_syscall n a1 a2 a3 a4 a5 s = Inr (r, t)"
  shows "kinv t"
proof -
  have keep: "keeps sview m \<Longrightarrow> ret_as g m s = Inr (r, t) \<Longrightarrow> kinv t" for m :: "('a kernel_scheme, 'b) kfun" and g
    using kinv_keeps [OF _ _ k] by (rule kinv_ret_as)
  consider "n = SYS_fork" | "n = SYS_sleep" | "n = SYS_kill" | "n \<notin> {SYS_fork, SYS_sleep, SYS_kill}" by blast
  then show ?thesis
  proof cases
    case 1
    then show ?thesis using f kinv_sys_fork [OF k] by (auto simp: do_syscall_def intro: kinv_ret_as)
  next
    case 2
    then show ?thesis using f kinv_sleep [OF k]
      by (auto simp: do_syscall_def SYS_fork_def SYS_sleep_def SYS_getc_def SYS_puts_def SYS_getpid_def SYS_getcid_def
          flow_as_def this_cpu_def elim!: kbind_InrE dest!: cur_taskD split: flow.splits)
  next
    case 3
    then obtain p x s1 where "cpu_task (this_cpu s) = Some p" "get_task (int p) s = Inr (x, s1)"
      "flow_as 0 (sys_kill (task_id x)) s1 = Inr (r, t)"
      using f by (auto simp: do_syscall_def SYS_fork_def SYS_sleep_def SYS_getc_def SYS_puts_def SYS_getpid_def
          SYS_getcid_def SYS_kill_def this_cpu_def elim!: kbind_InrE dest!: cur_taskD)
    moreover from this have "task_id x = int p" "s1 = s"
      using kinv_member(3) [OF k kinv_len(3) [OF k] kinv_current [OF k kinv_len(3) [OF k]]]
      by (auto simp: this_cpu_def dest!: get_taskD)
    ultimately show ?thesis using kinv_sys_kill [OF k] by (auto intro: kinv_flow_as)
  next
    case 4
    then have "(n = SYS_fork) = False" "(n = SYS_sleep) = False" "(n = SYS_kill) = False" by auto
    then have "keeps sview (do_syscall n a1 a2 a3 a4 a5 :: ('a kernel_scheme, u32 flow) kfun)"
      by (simp only: do_syscall_def if_False ret_as_def do_getc_def k_getc_def sys_get_num_free_page_def
          sys_get_num_used_page_def sys_get_ticks_def) (intro kept; simp)
    from kinv_keeps [OF this f k] show ?thesis .
  qed
qed

lemma kinv_syscall_handler:
  fixes s :: "'a kernel_scheme"
  assumes k: "kinv s" and f: "syscall_handler p s = Inr (r, t)"
  shows "kinv t"
proof -
  obtain g s1 where a: "read_tf p s = Inr (g, s1)" using f unfolding syscall_handler_def by (rule kbind_InrE)
  note s1 = kinv_keeps [OF keeps_read_tf a k]
  then obtain v s2 where b: "do_syscall (reg_eax (tf_regs g)) (reg_edx (tf_regs g)) (reg_ecx (tf_regs g))
      (reg_ebx (tf_regs g)) (reg_edi (tf_regs g)) (reg_esi (tf_regs g)) s1 = Inr (v, s2)"
    and c: "(case v of Ret v \<Rightarrow> kbind (upd_tf p (tf_set_eax v)) (\<lambda>_. kreturn (Ret ()))
     | Switch t \<Rightarrow> kreturn (Switch t)) s2 = Inr (r, t)"
    using f by (auto simp: syscall_handler_def a Let_def elim!: kbind_InrE)
  note s2 = kinv_do_syscall [OF s1 b]
  have "keeps sview (case v of Ret v \<Rightarrow> kbind (upd_tf p (tf_set_eax v)) (\<lambda>_. kreturn (Ret ()))
     | Switch t \<Rightarrow> kreturn (Switch t))" by (intro kept; simp)
  from kinv_keeps [OF this c s2] show ?thesis .
qed

lemma kinv_run_handler:
  fixes s :: "'a kernel_scheme"
  assumes k: "kinv s" and f: "run_handler h p s = Inr (r, t)"
  shows "kinv t"
proof (cases h)
  case H_page_fault
  then show ?thesis using f kinv_keeps [OF keeps_page_fault_handler _ k] by (simp add: run_handler_def)
next
  case H_kbd
  have "keeps sview (kbind kbd_intr (\<lambda>_. kreturn (Ret ())) :: ('a kernel_scheme, unit flow) kfun)" by (intro kept; simp)
  with H_kbd show ?thesis using f kinv_keeps [OF _ _ k] by (simp add: run_handler_def)
next
  case H_timer
  then show ?thesis using f kinv_timer_handler [OF k] by (simp add: run_handler_def)
next
  case H_syscall
  then show ?thesis using f kinv_syscall_handler [OF k] by (simp add: run_handler_def)
qed

text \<open>The dispatcher around the handlers.\<close>

definition preserves :: "('a kernel_scheme, 'b) kfun \<Rightarrow> bool" where
  "preserves m \<longleftrightarrow> (\<forall>s x t. kinv s \<longrightarrow> m s = Inr (x, t) \<longrightarrow> kinv t)"

lemma preserves_keeps: "keeps sview m \<Longrightarrow> preserves m"
  unfolding preserves_def by (intro allI impI, rule kinv_keeps)

lemma preserves_bind: "preserves m \<Longrightarrow> (\<And>x. preserves (f x)) \<Longrightarrow> preserves (kbind m f)"
  unfolding preserves_def by (blast elim: kbind_InrE)

lemma preserves_if: "preserves m \<Longrightarrow> preserves n \<Longrightarrow> preserves (if b then m else n)"
  by simp

lemma preserves_option:
  "preserves m \<Longrightarrow> (\<And>x. preserves (f x)) \<Longrightarrow> preserves (case r of None \<Rightarrow> m | Some x \<Rightarrow> f x)"
  by (cases r) simp_all

lemma preserves_run_handler: "preserves (run_handler h p)"
  unfolding preserves_def by (intro allI impI, rule kinv_run_handler)

lemma preserves_default_trap_handler: "preserves (default_trap_handler p)"
proof -
  have a: "keeps sview (kmodify (\<lambda>s. s\<lparr>last_tf := Some p\<rparr>) :: ('a kernel_scheme, unit) kfun)" by (intro kept; simp)
  have b: "preserves (kbind (run_handler h q) (\<lambda>r. case r of Ret x \<Rightarrow> kreturn (PopTf q) | Switch t \<Rightarrow> kreturn (SwitchTo t)))" for h q
    by (rule preserves_bind [OF preserves_run_handler], rule preserves_keeps, intro kept)
  have "preserves (trap_dispatch p)"
    unfolding trap_dispatch_def
    by (rule preserves_bind preserves_if preserves_option b | rule preserves_keeps [OF a] | (rule preserves_keeps, intro kept; simp; fail))+
  then show ?thesis
    unfolding default_trap_handler_def by (intro preserves_bind preserves_keeps [OF a])
qed

end
