(* ===== verification/Timer.thy ===== *)
theory Timer
  imports Trap
begin

text \<open>
  The timer interrupt: what one call of \<^verbatim>\<open>timer_handler\<close> (\<^verbatim>\<open>kernel/timer.c\<close>) does to the tasks, and that it
  wakes a sleeping task after the number of ticks it asked for.
\<close>

section \<open>One tick\<close>

text \<open>What the loop makes of a task of the queue.\<close>

definition tick :: "Task \<Rightarrow> Task" where
  "tick t = (if state t = TASK_SLEEP then
       let t' = t\<lparr>remind_ticks := remind_ticks t - 1\<rparr>
       in if sint (remind_ticks t') \<le> 0 then t'\<lparr>state := TASK_RUNNABLE\<rparr> else t'
     else t)"

definition tick_at :: "nat \<Rightarrow> 'a kernel_scheme \<Rightarrow> 'a kernel_scheme" where
  "tick_at p s = s\<lparr>tasks := (tasks s)[p := tick (tasks s ! p)]\<rparr>"

definition ticked :: "nat list \<Rightarrow> 'a kernel_scheme \<Rightarrow> 'a kernel_scheme" where
  "ticked ps s = s\<lparr>tasks := map (\<lambda>p. if p \<in> set ps then tick (tasks s ! p) else tasks s ! p) [0..<length (tasks s)]\<rparr>"

lemma ticked_Cons:
  assumes "p \<notin> set ps" and "p < length (tasks s)"
  shows "ticked ps (tick_at p s) = ticked (p # ps) s"
proof -
  have "map (\<lambda>q. if q \<in> set ps then tick (tasks (tick_at p s) ! q) else tasks (tick_at p s) ! q) [0..<length (tasks (tick_at p s))] =
     map (\<lambda>q. if q \<in> set (p # ps) then tick (tasks s ! q) else tasks s ! q) [0..<length (tasks s)]"
    using assms by (intro map_cong) (auto simp: nth_list_update tick_at_def)
  then show ?thesis unfolding ticked_def by (simp only:) (simp add: tick_at_def)
qed

lemma ticked_Nil: "ticked [] s = s"
  by (simp add: ticked_def map_nth)

lemma sched_wf_tick_at: "sched_wf s \<Longrightarrow> p < 32 \<Longrightarrow> sched_wf (tick_at p s)"
  by (auto simp: sched_wf_def tick_at_def tick_def Let_def nth_list_update pgdir_ok_def NR_TASKS_def)

lemma tick_sleeper_ok:
  assumes w: "sched_wf s" and i: "0 \<le> int i" "int i < rq_size s"
  shows "tick_sleeper i s = Inr ((), tick_at (rq_pid s (int i)) s)"
proof -
  note l = sched_wf_simps [OF w] and r = rq_entry [OF w i]
  show ?thesis
    using l r list_update_id [of "tasks s" "rq_pid s (int i)"]
    by (simp add: tick_sleeper_def kbind_apply thiscpu_ok get_task_ok upd_task_ok kwhen_def tick_at_def tick_def Let_def)
qed

text \<open>The numbers of the tasks in this processor's queue, from position \<open>i\<close> on.\<close>

definition rq_pids :: "'a kernel_scheme \<Rightarrow> nat \<Rightarrow> nat list" where
  "rq_pids s i = map (\<lambda>j. rq_pid s (int j)) [i..<nat (rq_size s)]"

lemma tick_at_same: "rq_pid (tick_at p s) j = rq_pid s j" "rq_size (tick_at p s) = rq_size s" "this_cpu (tick_at p s) = this_cpu s"
  by (simp_all add: tick_at_def rq_pid_def rq_size_def this_cpu_def)

lemma tick_loop_ok:
  assumes "sched_wf s" and "distinct (rq_pids s i)"
  shows "kfor [i..<nat (rq_size s)] tick_sleeper s = Inr ((), ticked (rq_pids s i) s)"
  using assms
proof (induction "nat (rq_size s) - i" arbitrary: i s)
  case 0
  then show ?case by (simp add: rq_pids_def ticked_Nil)
next
  case (Suc k)
  let ?p = "rq_pid s (int i)"
  have i: "int i < rq_size s" using Suc.hyps(2) by linarith
  then have up: "[i..<nat (rq_size s)] = i # [Suc i..<nat (rq_size s)]" by (simp add: upt_conv_Cons)
  then have ps: "rq_pids s i = ?p # rq_pids s (Suc i)" by (simp add: rq_pids_def)
  have p: "?p < 32" using rq_entry [OF Suc.prems(1) _ i] by simp
  have same: "rq_pids (tick_at ?p s) (Suc i) = rq_pids s (Suc i)" by (simp add: rq_pids_def tick_at_same)
  have "kfor [Suc i..<nat (rq_size s)] tick_sleeper (tick_at ?p s) = Inr ((), ticked (rq_pids s (Suc i)) (tick_at ?p s))"
    using Suc.hyps(1) [of "tick_at ?p s" "Suc i"] Suc.hyps(2) Suc.prems sched_wf_tick_at [OF Suc.prems(1) p]
    by (simp add: tick_at_same same ps)
  then show ?case
    using tick_sleeper_ok [OF Suc.prems(1) _ i] ticked_Cons [of ?p "rq_pids s (Suc i)" s] Suc.prems(2) p
      sched_wf_simps(1) [OF Suc.prems(1)]
    by (simp add: up ps)
qed

section \<open>The handler\<close>

definition end_of_interrupt :: "'a kernel_scheme \<Rightarrow> 'a kernel_scheme" where
  "end_of_interrupt s = s\<lparr>jiffies := jiffies s + 1,
     lapic_log := (if lapic s = 0 then lapic_log s else lapic_log s @ [(cur_cpu s, LA_EOI, 0)])\<rparr>"

text \<open>The tasks after the handler's loop and the tick of the current task \<open>cur\<close>.\<close>

definition after_tick :: "nat \<Rightarrow> 'a kernel_scheme \<Rightarrow> 'a kernel_scheme" where
  "after_tick cur s =
     (let u = ticked (rq_pids s 0) (end_of_interrupt s)
      in u\<lparr>tasks := (tasks u)[cur := (tasks u ! cur)\<lparr>remind_ticks := remind_ticks (tasks u ! cur) - 1\<rparr>]\<rparr>)"

definition preempted :: "nat \<Rightarrow> 'a kernel_scheme \<Rightarrow> 'a kernel_scheme" where
  "preempted cur s = s\<lparr>tasks := (tasks s)[cur := (tasks s ! cur)\<lparr>state := TASK_RUNNABLE\<rparr>]\<rparr>"

lemma eoi_same:
  "tasks (end_of_interrupt s) = tasks s" "cpus (end_of_interrupt s) = cpus s" "cpunum (end_of_interrupt s) = cpunum s"
  "this_cpu (end_of_interrupt s) = this_cpu s" "rq_pid (end_of_interrupt s) i = rq_pid s i" "rq_size (end_of_interrupt s) = rq_size s"
  "rq_pids (end_of_interrupt s) j = rq_pids s j" "sched_wf (end_of_interrupt s) = sched_wf s"
  by (simp_all add: end_of_interrupt_def cpunum_def this_cpu_def rq_pid_def rq_size_def rq_pids_def sched_wf_def)

lemma after_tick_len [simp]: "length (tasks (after_tick c s)) = length (tasks s)" "cpus (after_tick c s) = cpus s"
  "cpunum (after_tick c s) = cpunum s"
  by (simp_all add: after_tick_def ticked_def Let_def eoi_same)

lemma timer_handler_ok:
  assumes w: "sched_wf s" and d: "distinct (rq_pids s 0)"
  shows "timer_handler s = (case cpu_task (this_cpu s) of
     None \<Rightarrow> Inr (Ret (), end_of_interrupt s)
   | Some cur \<Rightarrow>
       if sint (remind_ticks (tasks (after_tick cur s) ! cur)) \<le> 0 then sched_yield (preempted cur (after_tick cur s))
       else Inr (Ret (), after_tick cur s))"
proof -
  let ?e = "end_of_interrupt s"
  have eoi: "lapic_eoi (s\<lparr>jiffies := jiffies s + 1\<rparr>) = Inr ((), ?e)"
    by (simp add: lapic_eoi_def lapicw_def end_of_interrupt_def kwhen_def)
  note l = sched_wf_simps [OF w]
  have th: "thiscpu ?e = Inr (this_cpu s, ?e)" using l by (simp add: thiscpu_ok eoi_same)
  have loop: "kfor [0..<nat (total (cpu_rq (this_cpu s)))] tick_sleeper ?e = Inr ((), ticked (rq_pids s 0) ?e)"
    using tick_loop_ok [of ?e 0] w d by (simp add: eoi_same rq_size_def)
  show ?thesis
  proof (cases "cpu_task (this_cpu s)")
    case None
    then show ?thesis by (simp add: timer_handler_def kbind_apply eoi th)
  next
    case (Some cur)
    then have cur: "cur < 32" using w l by (auto simp: sched_wf_def this_cpu_def NR_TASKS_def)
    have len: "length (tasks (ticked (rq_pids s 0) ?e)) = 32" using l by (simp add: ticked_def eoi_same)
    show ?thesis
      using Some cur len
      by (simp add: timer_handler_def kbind_apply eoi th loop upd_task_ok get_task_ok after_tick_def preempted_def Let_def)
  qed
qed


text \<open>What the handler relies on: well-formed queues, no task twice in the queue, and an existing task as the current one.\<close>

definition timer_ok :: "'a kernel_scheme \<Rightarrow> bool" where
  "timer_ok s \<longleftrightarrow> sched_wf s \<and> distinct (rq_pids s 0) \<and>
     (\<forall>cur. cpu_task (this_cpu s) = Some cur \<longrightarrow> state (tasks s ! cur) \<noteq> TASK_FREE)"

lemma tick_same [simp]: "pgdir (tick t) = pgdir t" "task_id (tick t) = task_id t" "(state (tick t) = TASK_FREE) = (state t = TASK_FREE)"
  by (simp_all add: tick_def Let_def)

definition tick_task :: "nat \<Rightarrow> 'a kernel_scheme \<Rightarrow> nat \<Rightarrow> Task" where
  "tick_task cur s p =
     (let t = (if p \<in> set (rq_pids s 0) then tick (tasks s ! p) else tasks s ! p)
      in if p = cur then t\<lparr>remind_ticks := remind_ticks t - 1\<rparr> else t)"

lemma tasks_after_tick: "p < length (tasks s) \<Longrightarrow> tasks (after_tick cur s) ! p = tick_task cur s p"
  by (simp add: after_tick_def ticked_def Let_def tick_task_def eoi_same nth_list_update)

lemma tick_task_same [simp]:
  "pgdir (tick_task c s p) = pgdir (tasks s ! p)" "(state (tick_task c s p) = TASK_FREE) = (state (tasks s ! p) = TASK_FREE)"
  by (simp_all add: tick_task_def Let_def)

lemma sched_wf_after_tick: "sched_wf s \<Longrightarrow> sched_wf (after_tick cur s)"
  by (simp add: sched_wf_def tasks_after_tick pgdir_ok_def NR_TASKS_def NCPU_def)

lemma sched_wf_preempted:
  assumes "timer_ok s" and "cpu_task (this_cpu s) = Some cur"
  shows "sched_wf (preempted cur (after_tick cur s))"
proof -
  have w: "sched_wf (after_tick cur s)" "sched_wf s" using assms sched_wf_after_tick by (auto simp: timer_ok_def)
  have cur: "cur < 32" using w(2) assms(2) sched_wf_simps [OF w(2)] by (auto simp: sched_wf_def this_cpu_def NR_TASKS_def)
  then have "pgdir_ok (tasks (after_tick cur s) ! cur)"
    using assms w(1) sched_wf_simps [OF w(2)] by (simp add: timer_ok_def sched_wf_def tasks_after_tick NR_TASKS_def)
  then show ?thesis
    using w(1) cur by (auto simp: sched_wf_def preempted_def nth_list_update pgdir_ok_def NR_TASKS_def split: if_splits)
qed

lemma sched_yield_returns: "sched_wf s \<Longrightarrow> \<exists>r t. sched_yield s = Inr (r, t)"
  by (auto simp: sched_yield_search search_def split: option.splits)

lemma timer_handler_returns:
  assumes "timer_ok s"
  shows "\<exists>r t. timer_handler s = Inr (r, t)"
proof -
  have w: "sched_wf s" "distinct (rq_pids s 0)" using assms by (simp_all add: timer_ok_def)
  show ?thesis
    unfolding timer_handler_ok [OF w] using sched_yield_returns [OF sched_wf_preempted [OF assms]]
    by (simp split: option.splits)
qed

text \<open>A switch changes no task but the one it switches to, which was runnable.\<close>

lemma sched_yield_task:
  assumes "sched_wf s" and "sched_yield s = Inr (r, t)"
  shows "tasks t ! p = tasks s ! p \<or> state (tasks s ! p) = TASK_RUNNABLE \<and> state (tasks t ! p) = TASK_RUNNING"
proof -
  have "t = s \<or> (\<exists>i. rq_runnable s i \<and> t = switched i s)"
    using assms by (auto simp: sched_yield_search search_def find_Some_iff split: option.splits)
  moreover have upd: "xs[i := x] ! p = xs ! p \<or> i = p \<and> xs[i := x] ! p = x" for xs :: "Task list" and i x
    by (cases "i = p"; cases "p < length xs") (auto simp: list_update_beyond)
  ultimately show ?thesis
  proof (elim disjE exE conjE)
    fix i assume "rq_runnable s i" "t = switched i s"
    then show ?thesis
      using upd [of "tasks s" "rq_pid s i" "(tasks s ! rq_pid s i)\<lparr>state := TASK_RUNNING, remind_ticks := TIME_QUANT\<rparr>"]
      by (auto simp: switched_def rq_runnable_def Let_def)
  qed simp
qed

lemma timer_handler_task:
  assumes k: "timer_ok s" and f: "timer_handler s = Inr (r, t)" and c: "cpu_task (this_cpu s) = Some cur"
    and p: "p \<in> set (rq_pids s 0)" "p \<noteq> cur"
  shows "tasks t ! p = tick (tasks s ! p) \<or> state (tick (tasks s ! p)) = TASK_RUNNABLE \<and> state (tasks t ! p) = TASK_RUNNING"
proof -
  have w: "sched_wf s" "distinct (rq_pids s 0)" using k by (simp_all add: timer_ok_def)
  have "p < 32" using p(1) rq_entry(2) [OF w(1)] by (auto simp: rq_pids_def)
  then have a: "tasks (after_tick cur s) ! p = tick (tasks s ! p)"
    using sched_wf_simps [OF w(1)] p by (simp add: tasks_after_tick tick_task_def)
  then have b: "tasks (preempted cur (after_tick cur s)) ! p = tick (tasks s ! p)" using p by (simp add: preempted_def)
  show ?thesis
    using f unfolding timer_handler_ok [OF w] c
    using a b sched_yield_task [OF sched_wf_preempted [OF k c], of r t p] by (auto split: if_splits)
qed

section \<open>Waking up\<close>

lemma sint_minus_one: "0 < sint w \<Longrightarrow> sint (w - 1 :: u32) = sint w - 1"
proof -
  assume "0 < sint w"
  moreover have "sint w < 2 ^ 31" using sint_lt [of w] by simp
  ultimately show ?thesis by (simp add: sint_word_ariths signed_take_bit_int_eq_self)
qed


lemma tick_sleeping:
  assumes "state t = TASK_SLEEP" and "0 < sint (remind_ticks t)"
  shows "sint (remind_ticks (tick t)) = sint (remind_ticks t) - 1"
    and "state (tick t) = (if sint (remind_ticks t) = 1 then TASK_RUNNABLE else TASK_SLEEP)"
  using assms sint_minus_one [OF assms(2)] by (simp_all add: tick_def Let_def)

section \<open>Properties\<close>

text \<open>
  C13. The timer interrupt always returns or switches to another task, and does to the tasks what it should:
  every sleeping task in the processor's queue comes one tick closer to waking and is woken when none is left, the
  current task loses one tick of its time slice, and when the slice is used up the task becomes runnable and the
  scheduler is called.
\<close>
theorem timer_handler_correct:
  assumes "timer_ok s"
  shows "(\<exists>r t. timer_handler s = Inr (r, t)) \<and>
    (cpu_task (this_cpu s) = None \<longrightarrow> timer_handler s = Inr (Ret (), end_of_interrupt s)) \<and>
    (\<forall>cur. cpu_task (this_cpu s) = Some cur \<longrightarrow>
      (\<forall>p < NR_TASKS. tasks (after_tick cur s) ! p = tick_task cur s p) \<and>
      timer_handler s =
        (if sint (remind_ticks (tick_task cur s cur)) \<le> 0 then sched_yield (preempted cur (after_tick cur s))
         else Inr (Ret (), after_tick cur s)))"
proof -
  have w: "sched_wf s" "distinct (rq_pids s 0)" using assms by (simp_all add: timer_ok_def)
  have "cur < 32" if "cpu_task (this_cpu s) = Some cur" for cur
    using w(1) that sched_wf_simps [OF w(1)] by (auto simp: sched_wf_def this_cpu_def NR_TASKS_def)
  then show ?thesis
    using timer_handler_returns [OF assms] timer_handler_ok [OF w] sched_wf_simps(1) [OF w(1)]
    by (auto simp: tasks_after_tick NR_TASKS_def)
qed

lemma demo_kernel_timer_ok: "timer_ok demo_kernel"
  using demo_kernel_wf demo_kernel_rq
  by (simp add: timer_ok_def rq_pids_def upt_rec this_cpu_def demo_kernel_sel demo_cpus_def demo_task_def)

theorem timer_handler_correct_witness:
  "timer_ok demo_kernel \<and> timer_handler demo_kernel = sched_yield (preempted 0 (after_tick 0 demo_kernel)) \<and>
   tasks (after_tick 0 demo_kernel) ! 1 = demo_task 1 TASK_SLEEP 1"
proof -
  have c: "cpu_task (this_cpu demo_kernel) = Some 0" by (simp add: this_cpu_def demo_kernel_sel demo_cpus_def)
  have ps: "rq_pids demo_kernel 0 = [0, 1, 2]" using demo_kernel_rq by (simp add: rq_pids_def upt_rec)
  have t: "tick_task 0 demo_kernel 0 = demo_task 0 TASK_RUNNING 0" "tick_task 0 demo_kernel 1 = demo_task 1 TASK_SLEEP 1"
    by (simp_all add: tick_task_def ps demo_kernel_sel demo_task_def tick_def)
  show ?thesis
    using timer_handler_correct [OF demo_kernel_timer_ok] demo_kernel_timer_ok c t
    by (simp add: NR_TASKS_def) (simp add: demo_task_def)
qed

text \<open>
  C12. A sleeping task wakes after the number of ticks it asked for. Take any sequence of timer interrupts of its
  processor, between which nobody touches the task, while the processor has another current task and the sleeper
  stays in its queue. If \<open>n\<close> ticks are left at first, the task sleeps through the first \<open>n - 1\<close> interrupts
  and is runnable, or running already, after the one that makes them \<open>n\<close>.
\<close>
theorem sleeping_task_wakes:
  assumes ok: "\<And>k. k < n \<Longrightarrow> timer_ok (s k)"
    and tick: "\<And>k. k < n \<Longrightarrow> timer_handler (s k) = Inr (r k, t k)"
    and current: "\<And>k. k < n \<Longrightarrow> cpu_task (this_cpu (s k)) = Some (cur k) \<and> cur k \<noteq> p"
    and queue: "\<And>k. k < n \<Longrightarrow> p \<in> set (rq_pids (s k) 0)"
    and alone: "\<And>k. Suc k < n \<Longrightarrow> tasks (s (Suc k)) ! p = tasks (t k) ! p"
    and sleep: "state (tasks (s 0) ! p) = TASK_SLEEP" "sint (remind_ticks (tasks (s 0) ! p)) = int n" "0 < n"
  shows "(\<forall>k < n. state (tasks (s k) ! p) = TASK_SLEEP) \<and> state (tasks (t (n - 1)) ! p) \<in> {TASK_RUNNABLE, TASK_RUNNING}"
proof -
  have step: "tasks (t k) ! p = Timer.tick (tasks (s k) ! p) \<or>
      state (Timer.tick (tasks (s k) ! p)) = TASK_RUNNABLE \<and> state (tasks (t k) ! p) = TASK_RUNNING" if "k < n" for k
    using timer_handler_task [OF ok [OF that] tick [OF that] _ queue [OF that]] current [OF that] by simp
  have left: "state (tasks (s k) ! p) = TASK_SLEEP \<and> sint (remind_ticks (tasks (s k) ! p)) = int n - int k" if "k < n" for k
    using that
  proof (induction k)
    case (Suc k)
    then have "state (tasks (s k) ! p) = TASK_SLEEP" "sint (remind_ticks (tasks (s k) ! p)) = int n - int k" by simp_all
    then show ?case using step [of k] alone [of k] Suc.prems tick_sleeping [of "tasks (s k) ! p"] by auto
  qed (use sleep in simp)
  have "state (tasks (s (n - 1)) ! p) = TASK_SLEEP" "sint (remind_ticks (tasks (s (n - 1)) ! p)) = 1"
    using left [of "n - 1"] sleep(3) by auto
  then have "state (tasks (t (n - 1)) ! p) \<in> {TASK_RUNNABLE, TASK_RUNNING}"
    using step [of "n - 1"] tick_sleeping [of "tasks (s (n - 1)) ! p"] sleep(3) by auto
  then show ?thesis using left by blast
qed

theorem sleeping_task_wakes_witness:
  "\<exists>(u :: kernel) r t. timer_ok u \<and> state (tasks u ! 1) = TASK_SLEEP \<and> timer_handler u = Inr (r, t) \<and>
     state (tasks t ! 1) \<in> {TASK_RUNNABLE, TASK_RUNNING}"
proof -
  define u where "u = demo_kernel\<lparr>tasks := (tasks demo_kernel)[1 := demo_task 1 TASK_SLEEP 1]\<rparr>"
  have q: "rq_pid u i = rq_pid demo_kernel i" "rq_size u = 3" "this_cpu u = this_cpu demo_kernel" "rq_pids u 0 = rq_pids demo_kernel 0" for i
    using demo_kernel_rq by (simp_all add: u_def rq_pid_def rq_size_def this_cpu_def rq_pids_def)
  have c: "cpu_task (this_cpu demo_kernel) = Some 0" by (simp add: this_cpu_def demo_kernel_sel demo_cpus_def)
  have p: "1 \<in> set (rq_pids demo_kernel 0)" using demo_kernel_rq by (simp add: rq_pids_def upt_rec)
  have t1: "tasks demo_kernel ! 1 = demo_task 1 TASK_SLEEP 2" "tasks u ! 1 = demo_task 1 TASK_SLEEP 1" "tasks u ! 0 = tasks demo_kernel ! 0"
    by (simp_all add: u_def demo_kernel_sel)
  have "sched_wf u"
    using demo_kernel_wf by (auto simp: sched_wf_def u_def nth_list_update demo_task_def pgdir_ok_def demo_kernel_sel(3))
  then have ok: "timer_ok u" using demo_kernel_timer_ok by (simp add: timer_ok_def q c t1)
  obtain r0 t0 where a: "timer_handler demo_kernel = Inr (r0, t0)" using timer_handler_returns [OF demo_kernel_timer_ok] by blast
  obtain r1 t1 where b: "timer_handler u = Inr (r1, t1)" using timer_handler_returns [OF ok] by blast
  have "tasks t0 ! 1 = demo_task 1 TASK_SLEEP 1"
    using timer_handler_task [OF demo_kernel_timer_ok a c p] t1(1) by (simp add: tick_def demo_task_def)
  then have "state (tasks t1 ! 1) \<in> {TASK_RUNNABLE, TASK_RUNNING}"
    using sleeping_task_wakes [of 2 "\<lambda>k. if k = 0 then demo_kernel else u" "\<lambda>k. if k = 0 then r0 else r1"
      "\<lambda>k. if k = 0 then t0 else t1" "\<lambda>_. 0" 1] demo_kernel_timer_ok ok a b c p q(3,4) t1
    by (simp add: demo_task_def)
  then show ?thesis using ok b t1(2) by (auto simp: demo_task_def)
qed

end
