(* ===== verification/Reach.thy ===== *)
theory Reach
  imports Machine Timer
begin

text \<open>
  The machine as a whole. \<^verbatim>\<open>kernel_main\<close> establishes the invariant of the run queues, every trap keeps it, and so
  it holds in every state the machine reaches by any sequence of traps on any of its processors, a trap
  being one step.
\<close>

section \<open>Starting the machine\<close>

lemma upd_thiscpuE:
  assumes "upd_thiscpu f s = Inr (x, t)"
  shows "cpunum s < length (cpus s)" "t = s\<lparr>cpus := (cpus s)[cpunum s := f (cpus s ! cpunum s)]\<rparr>"
  using assms by (auto simp: upd_thiscpu_def upd_cpu_def kbind_apply split: if_splits)

text \<open>A processor without tasks sets itself up: it gets its first task, and nothing else changes.\<close>

lemma task_init_percpu_view:
  fixes s :: "'a kernel_scheme"
  assumes k: "kinv s" and empty: "queue_of (cpus s) (cpunum s) = []" and f: "task_init_percpu s = Inr (x, t)"
  shows "kinv t" "snd (rview t) = snd (rview s)" "\<exists>c. cpu_id c = cpu_id (cpus s ! cpunum s) \<and> cpus t = (cpus s)[cpunum s := c]"
proof -
  let ?c = "cpunum s"
  note l = kinv_len [OF k] and q = k [unfolded kinv_views, THEN conjunct1]
  obtain g d i s1 s2 r s3 s4 pd s5 eip s6 s7 where e: "upd_thiscpu (\<lambda>c. c\<lparr>cpu_tss := g\<rparr>) s = Inr ((), s1)"
    "set_gdt i d s1 = Inr ((), s2)" and cr: "task_create s2 = Inr (r, s3)" "0 \<le> r"
    and e2: "upd_thiscpu (\<lambda>c. c\<lparr>cpu_task := Some (nat r)\<rparr>) s3 = Inr ((), s4)" "map_user_image pd s4 = Inr ((), s5)"
    "upd_task r (\<lambda>t. t\<lparr>tf := (tf t)\<lparr>tf_eip := eip\<rparr>, state := TASK_RUNNING\<rparr>) s5 = Inr ((), s6)"
    "upd_thiscpu (\<lambda>c. c\<lparr>cpu_rq := first_rq r\<rparr>) s6 = Inr ((), s7)"
    and t: "sview t = sview s7"
    using f unfolding task_init_percpu_def the_pgdir_def
    by (auto elim!: kbind_InrE dest!: thiscpu_view get_taskD get_cpuD split: if_splits option.splits)
  note v1 = upd_thiscpu_view [OF e(1)] and v2 = keeps_sview [OF keeps_gates(3) e(2), simplified]
  have n2: "length (tasks s2) = 32" using v1(1) v2(1) l(1) by (metis length_map)
  obtain p pd' where p: "p < 32" "pd' < npages s2" "r = int p" "fst (tviews s ! p) = TASK_FREE"
    "tviews s3 = (tviews s)[p := (TASK_RUNNABLE, int p, Some pd')]" "rview s3 = rview s2"
    using task_create_view [OF cr(1) n2] cr(2) v1(1) v2(1) by auto
  note v4 = upd_thiscpu_view [OF e2(1)] and v5 = keeps_sview [OF keeps_map_user_image e2(2), simplified]
    and v6 = upd_task_view [OF e2(3), of "\<lambda>(_, b). (TASK_RUNNING, b)", unfolded tview_def, simplified, folded tview_def]
    and v7 = upd_thiscpu_view [OF e2(4)]
  have t': "tviews t = tviews s7" "rview t = rview s7" using t by (simp_all add: sview_rview)
  have num: "cpunum s3 = ?c" "cpunum s6 = ?c" "snd (rview t) = snd (rview s)"
    using v1 v2(2) p(6) v4 v5(2) v6(3) v7 t'(2) by (simp_all add: rview_def cpunum_def)
  define c where "c = (cpus s ! ?c)\<lparr>cpu_tss := g, cpu_task := Some p, cpu_rq := first_rq (int p)\<rparr>"
  have c2: "cpus s3 = (cpus s)[?c := (cpus s ! ?c)\<lparr>cpu_tss := g\<rparr>]" using v1(2) v2(2) p(6) by (simp add: rview_def)
  have c6: "cpus s6 = (cpus s)[?c := (cpus s ! ?c)\<lparr>cpu_tss := g, cpu_task := Some p\<rparr>]"
    using v4(2) v5(2) v6(3) c2 num l p(3) by (simp add: rview_def)
  have ct: "cpus t = (cpus s)[?c := c]" using v7(2) t'(2) c6 num l p(3) by (simp add: rview_def c_def)
  have ts: "tviews t = (tviews s)[p := (TASK_RUNNING, int p, Some pd')]"
    using t'(1) v7(1) v6(4) v5(1) v4(1) p l by simp
  have "npages s2 = npages s" using v1(4) v2(2) by (simp add: rview_def)
  then have "queues_ok (tviews t) (cpus t)"
    unfolding ts ct using p kinv_bound [OF k] l by (intro queues_first [OF q _ _ _ empty]) (simp_all add: c_def)
  then show "kinv t" using num(3) k by (auto simp: kinv_views rview_def cpunum_def split: if_splits)
  show "snd (rview t) = snd (rview s)" by (rule num(3))
  show "\<exists>c. cpu_id c = cpu_id (cpus s ! ?c) \<and> cpus t = (cpus s)[?c := c]" 
    by (intro exI [of _ c]) (simp add: ct c_def)
qed


text \<open>
  The processors before any has a task: empty queues, and the processors found so far carry
  their numbers.
\<close>

definition fresh_cpus :: "CpuInfo list \<Rightarrow> bool" where
  "fresh_cpus cs \<longleftrightarrow> length cs = 8 \<and>
     (\<forall>c < 8. rq_wf (cpu_rq (cs ! c)) \<and> total (cpu_rq (cs ! c)) = 0 \<and> cpu_task (cs ! c) = None)"

definition numbered :: "int \<Rightarrow> CpuInfo list \<Rightarrow> bool" where
  "numbered n cs \<longleftrightarrow> 0 \<le> n \<and> n \<le> 8 \<and> cpu_id (cs ! 0) = 0 \<and> (\<forall>i < nat n. cpu_id (cs ! i) = of_nat i)"

definition boot_inv :: "'a kernel_scheme \<Rightarrow> bool" where
  "boot_inv s \<longleftrightarrow> fresh_cpus (cpus s) \<and> numbered (ncpu s) (cpus s) \<and> length (tasks s) = 32 \<and> cur_cpu s < 8"

lemma boot_inv_views:
  "tviews t = tviews s \<Longrightarrow> cpus t = cpus s \<Longrightarrow> ncpu t = ncpu s \<Longrightarrow> cur_cpu t = cur_cpu s \<Longrightarrow> boot_inv s \<Longrightarrow> boot_inv t"
  using map_eq_imp_length_eq [of tview "tasks t" tview "tasks s"] by (simp add: boot_inv_def)

subsection \<open>Memory\<close>

lemma nvram_bound: "unat ((ucast (lo :: u8) :: u32) OR push_bit 8 (ucast (hi :: u8))) < 0x10000"
proof -
  have "uint (ucast lo :: u32) < 2 ^ 16" using uint_lt2p [of lo] by (simp add: uint_up_ucast is_up)
  moreover have "uint (push_bit 8 (ucast hi) :: u32) < 2 ^ 16"
  proof -
    have "push_bit 8 (ucast hi) = (ucast hi * 256 :: u32)" by (simp add: push_bit_eq_mult)
    moreover have "uint (ucast hi * 256 :: u32) = uint hi * 256"
      using uint_lt2p [of hi] by (subst uint_mult_lem [THEN iffD1]) (simp_all add: uint_up_ucast is_up)
    ultimately show ?thesis using uint_lt2p [of hi] by simp
  qed
  ultimately have "uint ((ucast lo :: u32) OR push_bit 8 (ucast hi)) < 2 ^ 16"
    unfolding unsigned_or_eq by (intro OR_upper) simp_all
  then have "int (unat ((ucast lo :: u32) OR push_bit 8 (ucast hi))) < int (2 ^ 16)" by (simp only: uint_nat of_nat_power of_nat_numeral)
  then have "unat ((ucast lo :: u32) OR push_bit 8 (ucast hi)) < 2 ^ 16" by (simp only: of_nat_less_iff)
  then show ?thesis by simp
qed

lemma pages_bound:
  assumes "unat (x :: u32) < 0x10000"
  shows "unat (x * 1024 div PGSIZE) < 0x4000"
proof -
  have "unat (x * 1024) = unat x * 1024" using assms by (subst unat_mult_lem [THEN iffD1]) simp_all
  then show ?thesis using assms by (simp add: unat_div PGSIZE_def)
qed

text \<open>The clock's memory reports at most 64 MB beyond the first, so the machine has fewer than \<open>0x10000\<close> pages.\<close>

definition bview :: "'a kernel_scheme \<Rightarrow> (TaskState \<times> int \<times> nat option) list \<times> CpuInfo list \<times> int \<times> nat" where
  "bview s = (tviews s, cpus s, ncpu s, cur_cpu s)"

lemma sees_bview [simp, intro]: "sees bview"
  by (simp add: sees_def sview_def bview_def)

lemma bview_kept:
  assumes "keeps sview m"
  shows "triple (\<lambda>s. bview s = b) m (\<lambda>_ s. bview s = b)"
    "triple (\<lambda>s. bview s = b \<and> npages s \<le> n) m (\<lambda>_ s. bview s = b \<and> npages s \<le> n)"
  by (rule triple_kept [OF assms], simp add: sview_def bview_def)+

lemma nvram_read_triple:
  "triple (\<lambda>s. bview s = b \<and> P (npages_basemem s)) (nvram_read cmos r)
     (\<lambda>x s. bview s = b \<and> P (npages_basemem s) \<and> unat x < 0x10000)"
  by (simp add: triple_def nvram_read_def mc146818_read_def bview_def kbind_apply nvram_bound)

lemma detect_memory_triple:
  "triple (\<lambda>s. bview s = b) (i386_detect_memory cmos) (\<lambda>_ s. bview s = b \<and> npages s \<le> 0x10000)"
proof -
  have k: "keeps sview (kbind (kgets npages) (\<lambda>n. kbind (kgets npages_basemem) (\<lambda>nb.
     kbind (printk fmt (ap n nb)) (\<lambda>_. kreturn ()))))" for fmt ap by (intro kept; simp)
  let ?B = "\<lambda>s. bview s = b \<and> npages_basemem s \<le> 0x10000"
  have base: "triple (\<lambda>s. bview s = b \<and> True \<and> unat x < 0x10000)
      (kmodify (\<lambda>s. s\<lparr>npages_basemem := unat (x * 1024 div PGSIZE)\<rparr>)) (\<lambda>_. ?B)" for x :: u32
    by (rule triple_modify) (use pages_bound [of x] in \<open>simp add: bview_def\<close>)
  have ext: "triple (\<lambda>s. bview s = b \<and> npages_basemem s \<le> 0x10000 \<and> unat x < 0x10000)
      (kmodify (\<lambda>s. s\<lparr>npages := (if unat (x * 1024 div PGSIZE) \<noteq> 0 then unat (EXTPHYSMEM div PGSIZE) + unat (x * 1024 div PGSIZE)
        else npages_basemem s)\<rparr>)) (\<lambda>_ s. bview s = b \<and> npages s \<le> 0x10000)" for x :: u32
    by (rule triple_modify) (use pages_bound [of x] in \<open>auto simp: bview_def EXTPHYSMEM_def PGSIZE_def\<close>)
  show ?thesis
    unfolding i386_detect_memory_def Let_def
    by (rule triple_bind [OF nvram_read_triple [of b "\<lambda>_. True", simplified]], rule triple_bind [OF base [simplified]],
        rule triple_bind [OF nvram_read_triple], rule triple_bind [OF ext], rule bview_kept(2) [OF k])
qed

lemma mem_init_triple: "triple (\<lambda>s. bview s = b) (mem_init cmos kend) (\<lambda>_ s. bview s = b \<and> npages s \<le> 0x10000)"
  unfolding mem_init_def
  apply (rule triple_bind [OF bview_kept(1)], intro kept; simp)
  apply (rule triple_bind [OF bview_kept(1)], intro kept; simp)
  apply (rule triple_bind [OF detect_memory_triple])
  apply (rule bview_kept(2))
  apply (intro kept; simp)
  done

subsection \<open>Finding the processors\<close>

definition boot_ok :: "'a kernel_scheme \<Rightarrow> bool" where
  "boot_ok s \<longleftrightarrow> boot_inv s \<and> npages s \<le> 0x10000"

lemma boot_ok_kept: "keeps sview m \<Longrightarrow> triple boot_ok m (\<lambda>_. boot_ok)"
proof (rule triple_kept)
  show "boot_ok t" if "sview t = sview s" "boot_ok s" for s t :: "'a kernel_scheme"
    using that boot_inv_views [of t s] by (simp add: boot_ok_def sview_def)
qed

lemma fresh_cpus_upd:
  assumes "fresh_cpus cs" and "cpu_rq (f (cs ! i)) = cpu_rq (cs ! i)" and "cpu_task (f (cs ! i)) = cpu_task (cs ! i)"
  shows "fresh_cpus (cs[i := f (cs ! i)])"
  using assms by (cases "i < 8") (auto simp: fresh_cpus_def nth_list_update list_update_beyond)

lemma numbered_next:
  assumes "numbered n cs" and "n < 8" and "length cs = 8"
  shows "numbered (n + 1) (cs[nat n := (cs ! nat n)\<lparr>cpu_id := of_int n\<rparr>])"
  using assms by (auto simp: numbered_def nth_list_update nat_add_distrib less_Suc_eq)

lemma add_cpu_triple:
  "triple (\<lambda>s. boot_ok s \<and> ncpu s = n) (if n < int NCPU then
       kbind (upd_cpu (nat n) (\<lambda>c. c\<lparr>cpu_id := of_int n\<rparr>)) (\<lambda>_. kmodify (\<lambda>s. s\<lparr>ncpu := ncpu s + 1\<rparr>))
     else kbind (proc_apicid p) (\<lambda>a. say fmt (ap a) ())) (\<lambda>_. boot_ok)"
proof (cases "n < 8")
  case True
  then show ?thesis
    using numbered_next [of n] fresh_cpus_upd
    by (auto simp: triple_def NCPU_def upd_cpu_def boot_ok_def boot_inv_def kbind_apply fresh_cpus_def split: if_splits)
next
  case False
  have "keeps sview (kbind (proc_apicid p) (\<lambda>a. say fmt (ap a) ()))" unfolding proc_apicid_def say_def by (intro kept; simp)
  from boot_ok_kept [OF this] False show ?thesis by (auto simp: triple_def NCPU_def)
qed

lemma triple_if: "triple P m Q \<Longrightarrow> triple P n Q \<Longrightarrow> triple P (if b then m else n) Q"
  by simp

lemma add_processor_triple: "triple boot_ok (add_processor p) (\<lambda>_. boot_ok)"
proof -
  have a: "keeps sview (proc_flags p)" unfolding proc_flags_def by (intro kept)
  have b: "keeps sview (kwhen x (kmodify (\<lambda>s. s\<lparr>bootcpu := nat (ncpu s)\<rparr>)))" for x by (intro kept; simp add: sview_def)
  have n: "triple boot_ok (kgets ncpu) (\<lambda>n s. boot_ok s \<and> ncpu s = n)" by (simp add: triple_def)
  show ?thesis
    unfolding add_processor_def
    by (rule triple_bind [OF boot_ok_kept [OF a]], rule triple_bind [OF boot_ok_kept [OF b]], rule triple_bind [OF n],
        rule add_cpu_triple)
qed

lemma entries_loop_triple: "triple boot_ok (entries_loop n p) (\<lambda>_. boot_ok)"
proof (induction n arbitrary: p)
  case 0
  show ?case by (simp only: entries_loop.simps) (rule boot_ok_kept, intro kept)
next
  case (Suc n)
  have k: "keeps sview (kload8 p)" by (intro kept)
  have u: "keeps sview (kbind (printk fmt ap) (\<lambda>_. kmodify (\<lambda>s. s\<lparr>ismp := False\<rparr>)))" for fmt ap by (intro kept; simp add: sview_def)
  show ?case
    unfolding entries_loop.simps
    by (rule triple_bind [OF boot_ok_kept [OF k]]) (intro triple_if triple_bind [OF add_processor_triple] Suc.IH boot_ok_kept [OF u])
qed

lemma mp_init_triple: "triple boot_ok (mp_init imcr) (\<lambda>_. boot_ok)"
proof -
  have b: "keeps sview (kmodify (\<lambda>s. s\<lparr>bootcpu := 0\<rparr>))" "keeps sview (kmodify (\<lambda>s. s\<lparr>ismp := True\<rparr>))"
    "keeps sview (kmodify (\<lambda>s. s\<lparr>lapicaddr := la\<rparr>))" for la by (intro kept; simp add: sview_def)+
  have st: "triple boot_ok (upd_cpu i (\<lambda>c. c\<lparr>cpu_status := CPU_STARTED\<rparr>)) (\<lambda>_. boot_ok)" for i
    using fresh_cpus_upd [of _ "\<lambda>c. c\<lparr>cpu_status := CPU_STARTED\<rparr>"]
    by (auto simp: triple_def upd_cpu_def boot_ok_def boot_inv_def numbered_def nth_list_update split: if_splits)
  have one: "triple boot_ok (kmodify (\<lambda>s. s\<lparr>ncpu := 1, lapicaddr := 0\<rparr>)) (\<lambda>_. boot_ok)"
    by (rule triple_modify) (simp add: boot_ok_def boot_inv_def numbered_def)
  have r: "triple boot_ok (case r of None \<Rightarrow> m | Some (mp, conf) \<Rightarrow> f mp conf) Q"
    if "triple boot_ok m Q" "\<And>mp conf. triple boot_ok (f mp conf) Q" for r m f Q
    using that by (cases r) auto
  show ?thesis
    unfolding mp_init_def conf_lapicaddr_def conf_entry_def say_def mp_imcrp_def
    by (rule r triple_if triple_bind [OF entries_loop_triple] triple_bind [OF st] triple_bind [OF one] |
        rule triple_bind [OF boot_ok_kept] b keeps_mpconfig sees_simps | (rule boot_ok_kept, intro kept; simp; fail)
        | (intro kept; fail) | intro kept; simp; fail)+
qed


subsection \<open>The local interrupt controller\<close>

definition lview :: "'a kernel_scheme \<Rightarrow> ((TaskState \<times> int \<times> nat option) list \<times> CpuInfo list \<times> int \<times> nat) \<times> nat" where
  "lview s = (bview s, npages s)"

lemma sees_lview [simp, intro]: "sees lview"
  by (simp add: sees_def lview_def bview_def sview_def)

text \<open>A controller that is mapped already stays where it is.\<close>

lemma lapic_init_view:
  fixes s :: "'a kernel_scheme"
  assumes f: "lapic_init s = Inr (x, t)"
  shows "lview t = lview s" "lapic s \<noteq> 0 \<Longrightarrow> sview t = sview s"
proof -
  have m: "keeps lview (kmodify (\<lambda>s. s\<lparr>lapic := va\<rparr>) :: ('a kernel_scheme, unit) kfun)" for va
    by (simp add: keeps_def lview_def bview_def)
  have w: "keeps lview (kwhen b (kbind (mmio_map_region la 4096) (\<lambda>va. kmodify (\<lambda>s. s\<lparr>lapic := va\<rparr>))) :: ('a kernel_scheme, unit) kfun)" for b la
    by (intro keeps_when keeps_bind keeps_mmio_map_region m) simp
  have "keeps lview (lapic_init :: ('a kernel_scheme, unit) kfun)"
    unfolding lapic_init_def
    by (rule keeps_bind [OF keeps_simple(3)], rule keeps_if [OF keeps_simple(1)], rule keeps_bind [OF keeps_simple(3)],
        rule keeps_bind [OF w]) (intro kept; simp)
  from keepsD [OF this f] show "lview t = lview s" .
  have z: "triple (\<lambda>s :: 'a kernel_scheme. sview s = v \<and> l \<noteq> 0) (kbind (kwhen (l = 0) a) b) (\<lambda>_ s. sview s = v)"
    if "\<And>x. keeps sview (b x)" for v and l :: u32 and a and b :: "unit \<Rightarrow> ('a kernel_scheme, unit) kfun"
    using that by (cases "l = 0") (auto simp: triple_def kwhen_def kbind_apply dest: keepsD)
  have g: "triple (\<lambda>s :: 'a kernel_scheme. sview s = v \<and> lapic s \<noteq> 0) (kgets lapic) (\<lambda>l s. sview s = v \<and> l \<noteq> 0)"
    "triple (\<lambda>s :: 'a kernel_scheme. sview s = v \<and> lapic s \<noteq> 0) (kgets lapicaddr) (\<lambda>_ s. sview s = v \<and> lapic s \<noteq> 0)"
    "triple (\<lambda>s :: 'a kernel_scheme. sview s = v \<and> lapic s \<noteq> 0) (kreturn ()) (\<lambda>_ s. sview s = v)" for v
    by (simp_all add: triple_def)
  have "triple (\<lambda>s :: 'a kernel_scheme. sview s = v \<and> lapic s \<noteq> 0) lapic_init (\<lambda>_ s. sview s = v)" for v
    unfolding lapic_init_def
    by (rule triple_bind [OF g(2)], rule triple_if [OF g(3)], rule triple_bind [OF g(1)], rule z) (intro kept; simp)
  from tripleD [OF this _ f, of "sview s"] show "sview t = sview s" if "lapic s \<noteq> 0" using that by simp
qed

subsection \<open>The first task of each processor\<close>

lemma clear_tasks_view:
  assumes "kfor is (\<lambda>i. upd_task (int i) (\<lambda>_. z)) s = Inr (x, t)"
  shows "rview t = rview s \<and> length (tasks t) = length (tasks s) \<and>
    (\<forall>i < length (tasks s). tasks t ! i = (if i \<in> set is then z else tasks s ! i))"
  using assms
proof (induction "is" arbitrary: s)
  case (Cons i "is")
  then obtain s1 where u: "upd_task (int i) (\<lambda>_. z) s = Inr ((), s1)" "kfor is (\<lambda>i. upd_task (int i) (\<lambda>_. z)) s1 = Inr (x, t)"
    by (auto elim: kbind_InrE)
  then have "s1 = s\<lparr>tasks := (tasks s)[i := z]\<rparr>" "i < length (tasks s)" by (auto simp: upd_task_def split: if_splits)
  then show ?case using Cons.IH [OF u(2)] by (auto simp: rview_def nth_list_update)
qed simp

lemma queues_same:
  assumes "queues_ok ts cs" and "length ds = length cs"
    and "\<And>c. c < 8 \<Longrightarrow> cpu_rq (ds ! c) = cpu_rq (cs ! c) \<and> cpu_task (ds ! c) = cpu_task (cs ! c)"
  shows "queues_ok ts ds"
  using assms by (simp add: queues_ok_def cong: conj_cong)

lemma queues_none:
  assumes f: "fresh_cpus cs" and n: "length ts = 32" and free: "\<And>p. p < 32 \<Longrightarrow> fst (ts ! p) = TASK_FREE"
  shows "queues_ok ts cs"
proof -
  have e: "queue_of cs c = []" "rq_wf (cpu_rq (cs ! c))" "cpu_task (cs ! c) = None" if "c < 8" for c
    using f that by (simp_all add: fresh_cpus_def rq_list_def)
  show ?thesis by (rule queues_okI) (use e free n f in \<open>simp_all add: fresh_cpus_def\<close>)
qed

text \<open>All tasks are in queues, and the processors that have not started yet have none.\<close>

definition started :: "int \<Rightarrow> nat \<Rightarrow> nat \<Rightarrow> 'a kernel_scheme \<Rightarrow> bool" where
  "started n me i s \<longleftrightarrow> kinv s \<and> ncpu s = n \<and> numbered n (cpus s) \<and> cpunum s = me \<and>
     (\<forall>d < 8. i \<le> d \<and> d \<noteq> me \<longrightarrow> queue_of (cpus s) d = [])"

lemma started_kept: "keeps sview m \<Longrightarrow> triple (started n me i) m (\<lambda>_. started n me i)"
proof (rule triple_kept)
  show "started n me i t" if "sview t = sview s" "started n me i s" for s t :: "'a kernel_scheme"
    using that kinv_seen [of t s] rview_sel [of t s] by (simp add: started_def sview_rview)
qed

lemma numbered_upd: "numbered n cs \<Longrightarrow> length cs = 8 \<Longrightarrow> cpu_id c = cpu_id (cs ! j) \<Longrightarrow> numbered n (cs[j := c])"
  by (cases "j < 8") (auto simp: numbered_def nth_list_update list_update_beyond)

lemma task_init_view:
  fixes s :: "'a kernel_scheme"
  assumes b: "boot_ok s" and f: "task_init s = Inr (x, t)"
  shows "started (ncpu t) (cpunum t) 0 t"
proof -
  have k: "keeps sview (kmodify (\<lambda>s. s\<lparr>UTEXT_SZ := UTEXT_end s - UTEXT_start s,
       UDATA_SZ := UDATA_end s - UDATA_start s, UBSS_SZ := UBSS_end s - UBSS_start s,
       URODATA_SZ := URODATA_end s - URODATA_start s\<rparr>) :: ('a kernel_scheme, unit) kfun)"
    "keeps sview (kmodify (\<lambda>s. s\<lparr>tasks_lock := spin_initlock ''&tasks_lock'' (tasks_lock s),
       cpus_lock := spin_initlock ''&cpus_lock'' (cpus_lock s)\<rparr>) :: ('a kernel_scheme, unit) kfun)"
    by (intro kept; simp add: sview_def)+
  obtain u1 u2 u3 s1 s2 s3 where e: "kmodify (\<lambda>s. s\<lparr>UTEXT_SZ := UTEXT_end s - UTEXT_start s,
       UDATA_SZ := UDATA_end s - UDATA_start s, UBSS_SZ := UBSS_end s - UBSS_start s,
       URODATA_SZ := URODATA_end s - URODATA_start s\<rparr>) s = Inr (u1, s1)"
    "kmodify (\<lambda>s. s\<lparr>tasks_lock := spin_initlock ''&tasks_lock'' (tasks_lock s),
       cpus_lock := spin_initlock ''&cpus_lock'' (cpus_lock s)\<rparr>) s1 = Inr (u2, s2)"
    "kfor [0..<NR_TASKS] (\<lambda>i. upd_task (int i) (\<lambda>_. zero_task\<lparr>state := TASK_FREE\<rparr>)) s2 = Inr (u3, s3)"
    "task_init_percpu s3 = Inr (x, t)"
    using f unfolding task_init_def by (elim kbind_InrE) (rule that)
  have s2: "boot_ok s2" using tripleD [OF boot_ok_kept [OF k(2)] tripleD [OF boot_ok_kept [OF k(1)] b e(1)] e(2)] .
  note c = clear_tasks_view [OF e(3)]
  have fr: "fresh_cpus (cpus s3)" "numbered (ncpu s3) (cpus s3)" "length (tasks s3) = 32" "cpunum s3 < 8" "npages s3 \<le> 0x10000"
    using s2 c by (auto simp: boot_ok_def boot_inv_def rview_def cpunum_def)
  have "fst (tviews s3 ! p) = TASK_FREE" if "p < 32" for p using that c fr(3) by (simp add: tview_def NR_TASKS_def)
  then have k3: "kinv s3" using queues_none [OF fr(1)] fr by (simp add: kinv_views)
  have q3: "queue_of (cpus s3) d = []" if "d < 8" for d using fr(1) that by (simp add: fresh_cpus_def rq_list_def)
  note p = task_init_percpu_view [OF k3 q3 [OF fr(4)] e(4)]
  then have "cpunum t = cpunum s3" "ncpu t = ncpu s3" by (simp_all add: rview_def cpunum_def)
  moreover obtain c where "cpu_id c = cpu_id (cpus s3 ! cpunum s3)" "cpus t = (cpus s3)[cpunum s3 := c]" using p(3) by blast
  ultimately show ?thesis
    using p(1) fr q3 numbered_upd [OF fr(2)] by (auto simp: started_def fresh_cpus_def nth_list_update)
qed


subsection \<open>The other processors\<close>

lemma mp_main_view:
  fixes s :: "'a kernel_scheme"
  assumes k: "kinv s" and empty: "queue_of (cpus s) (cpunum s) = []" and l: "lapic s \<noteq> 0" and f: "mp_main s = Inr (x, t)"
  shows "kinv t" "snd (rview t) = snd (rview s)" "\<exists>c. cpu_id c = cpu_id (cpus s ! cpunum s) \<and> cpus t = (cpus s)[cpunum s := c]"
proof -
  obtain kp pa n y u1 u2 u3 u4 u5 s1 s2 s3 s4 s5 s6 s7 s8 s9 where e: "kgets kern_pgdir s = Inr (kp, s1)"
    "PADDR (frame_kva kp) s1 = Inr (pa, s2)" "lcr3 pa s2 = Inr (u1, s3)" "kgets cpunum s3 = Inr (n, s4)"
    "printk (''SMP: CPU %d starting'' @ nl) [VW (of_nat n)] s4 = Inr (y, s5)" "lapic_init s5 = Inr (u2, s6)"
    "task_init_percpu s6 = Inr (u3, s7)" "kmodify (\<lambda>s. s\<lparr>idtr_loaded := True\<rparr>) s7 = Inr (u4, s8)"
    "upd_thiscpu (\<lambda>c. c\<lparr>cpu_status := CPU_STARTED\<rparr>) s8 = Inr (u5, s9)" "enter_user s9 = Inr (x, t)"
    using f unfolding mp_main_def by (elim kbind_InrE) (rule that)
  have "sview s5 = sview s"
    using e(1,4) keepsD [OF keeps_mem_ops(3) e(2), of sview] keepsD [OF keeps_lcr3(1) e(3), of sview]
      keepsD [OF keeps_printk(1) e(5), of sview] by simp
  moreover from this have "sview s6 = sview s5" using lapic_init_view(2) [OF e(6)] l by (simp add: sview_def)
  ultimately have v6: "sview s6 = sview s" by simp
  then have "kinv s6" "cpunum s6 = cpunum s" "cpus s6 = cpus s" "rview s6 = rview s"
    using k kinv_seen [of s6 s] rview_sel [of s6 s] by (simp_all add: sview_rview)
  note s6 = this and p = task_init_percpu_view [OF \<open>kinv s6\<close> _ e(7), unfolded s6(2,3), OF empty]
  obtain c where c: "cpu_id c = cpu_id (cpus s ! cpunum s)" "cpus s7 = (cpus s)[cpunum s := c]" using p(3) by blast
  have v8: "sview s8 = sview s7" using e(8) by auto
  note v9 = upd_thiscpu_view [OF e(9)] and vt = keeps_sview [OF keeps_enter_user e(10), simplified]
  have num: "cpunum s8 = cpunum s" "cpus s8 = cpus s7" "tviews s8 = tviews s7" "npages s8 = npages s"
    using v8 p(2) s6(4) by (simp_all add: sview_def rview_def cpunum_def)
  have len: "cpunum s < length (cpus s)" using kinv_len [OF k] by simp
  have ct: "cpus t = (cpus s)[cpunum s := c\<lparr>cpu_status := CPU_STARTED\<rparr>]"
    using v9(2) vt(2) num c(2) len by (simp add: rview_def)
  show "snd (rview t) = snd (rview s)" using v9(4) vt(2) v8 p(2) s6(4) by (simp add: sview_rview)
  show "\<exists>c. cpu_id c = cpu_id (cpus s ! cpunum s) \<and> cpus t = (cpus s)[cpunum s := c]"
    using ct c(1) by (intro exI [of _ "c\<lparr>cpu_status := CPU_STARTED\<rparr>"]) simp
  have "queues_ok (tviews s7) (cpus s7)" using p(1) by (simp add: kinv_views)
  then have "queues_ok (tviews t) (cpus t)"
    unfolding ct c(2) vt(1) v9(1) num(3) by (rule queues_same) (use len in \<open>auto simp: nth_list_update\<close>)
  then show "kinv t" using k \<open>snd (rview t) = snd (rview s)\<close> by (auto simp: kinv_views rview_def cpunum_def split: if_splits)
qed


lemma startap_lapic:
  fixes s :: "'a kernel_scheme"
  assumes "lapic_startap a b s = Inr (x, t)"
  shows "lapic s \<noteq> 0"
proof -
  have "triple (\<lambda>s :: 'a kernel_scheme. lapic s = 0) (lapicw i v) (\<lambda>_ _. False)" for i v
    by (simp add: triple_def lapicw_def)
  note w = this
  have k: "triple (\<lambda>s :: 'a kernel_scheme. lapic s = 0) m (\<lambda>_ s. lapic s = 0)" if "keeps lapic m" for m :: "('a kernel_scheme, 'b) kfun"
    by (rule triple_kept [OF that]) simp
  have f: "triple (\<lambda>_. False) m Q" for m :: "('a kernel_scheme, 'b) kfun" and Q by (simp add: triple_def)
  have o: "keeps lapic (outb p v :: ('a kernel_scheme, unit) kfun)" "keeps lapic (warm_reset_vector c :: ('a kernel_scheme, unit) kfun)" for p v c
    unfolding warm_reset_vector_def by (intro kept; simp)+
  have "triple (\<lambda>s :: 'a kernel_scheme. lapic s = 0) (lapic_startap a b) (\<lambda>_ _. False)"
    unfolding lapic_startap_def
    by (rule triple_bind [OF k [OF o(1)]], rule triple_bind [OF k [OF o(1)]], rule triple_bind [OF k [OF o(2)]],
        rule triple_bind [OF w], rule f)
  from tripleD [OF this _ assms] show ?thesis by blast
qed

lemma boot_ap_started:
  fixes s :: "'a kernel_scheme"
  assumes st: "started n me i s" and i: "i < nat n" and f: "boot_ap i s = Inr (x, t)"
  shows "started n me (Suc i) t"
proof -
  have k: "kinv s" and num: "cpunum s = me" "numbered n (cpus s)" "ncpu s = n" using st by (simp_all add: started_def)
  have i8: "i < 8" "n \<le> 8" using num(2) i by (auto simp: numbered_def)
  have id: "unat (cpu_id (cpus s ! i)) = i" using num(2) i i8 by (simp add: numbered_def unat_of_nat)
  have g: "get_cpu i s = Inr (cpus s ! i, s)" using kinv_len [OF k] i8 by (simp add: get_cpu_def)
  show ?thesis
  proof (cases "i = me")
    case True
    then have "t = s" using f id g by (simp add: boot_ap_def num)
    then show ?thesis using st by (auto simp: started_def)
  next
    case False
    define s1 where "s1 = s\<lparr>mpentry_kstack := percpu_kstacks s i + KSTKSIZE\<rparr>"
    obtain u1 u2 s2 s3 c s4 where e: "lapic_startap (cpu_id (cpus s ! i)) MPENTRY_PADDR s1 = Inr (u1, s2)"
      "as_cpu i mp_main s2 = Inr (u2, s3)" "get_cpu i s3 = Inr (c, s4)" "t = s4"
      using f False id by (auto simp: boot_ap_def g num s1_def elim!: kbind_InrE split: if_splits)
    have v2: "sview s2 = sview s" using keepsD [OF keeps_lapic_startap e(1), of sview] by (simp add: s1_def)
    have l2: "lapic s2 \<noteq> 0" using startap_lapic [OF e(1)] v2 by (simp add: s1_def sview_def)
    obtain t1 where m: "mp_main (s2\<lparr>cur_cpu := i\<rparr>) = Inr (u2, t1)"
      and s3: "sview s3 = (tviews t1, cpus t1, ncpu t1, npages t1, lapic t1, cur_cpu s2)"
      using e(2) by (auto simp: as_cpu_def sview_def split: sum.splits prod.splits)
    let ?s = "s2\<lparr>cur_cpu := i\<rparr>"
    have s': "kinv ?s" "cpunum ?s = i" "cpus ?s = cpus s" "lapic ?s \<noteq> 0"
      using k v2 l2 i8 by (simp_all add: kinv_views sview_def cpunum_def)
    have q: "queue_of (cpus s) i = []" using st i8 False by (simp add: started_def)
    note p = mp_main_view [OF s'(1) _ s'(4) m, unfolded s'(2,3), OF q]
    obtain c' where c': "cpu_id c' = cpu_id (cpus s ! i)" "cpus t1 = (cpus s)[i := c']" using p(3) by blast
    have t: "t = s3" using e(3,4) get_cpuD [of i s3] by simp
    have r: "cpunum t = me" "ncpu t = n" "npages t = npages s" "cpus t = cpus t1" "tviews t = tviews t1"
      using s3 p(2) v2 num t by (auto simp: sview_def rview_def cpunum_def split: if_splits)
    have "kinv t" using p(1) r k num by (simp add: kinv_views)
    then show ?thesis
      using st r c' numbered_upd [OF num(2), of c' i] kinv_len [OF k] i8 by (auto simp: started_def nth_list_update)
  qed
qed

lemma boot_aps_triple: "triple (\<lambda>s. \<exists>n me. started n me 0 s) (boot_aps :: ('a kernel_scheme, unit) kfun) (\<lambda>_. kinv)"
proof -
  have loop: "triple (started n me i) (kfor [i..<nat n] boot_ap :: ('a kernel_scheme, unit) kfun) (\<lambda>_. kinv)" for n me i
  proof (induction "nat n - i" arbitrary: i)
    case 0
    then show ?case by (simp add: triple_def started_def)
  next
    case (Suc k)
    then have i: "[i..<nat n] = i # [Suc i..<nat n]" by (simp add: upt_conv_Cons)
    have "triple (started n me i) (boot_ap i :: ('a kernel_scheme, unit) kfun) (\<lambda>_. started n me (Suc i))"
      unfolding triple_def by (intro allI impI, rule boot_ap_started) (use Suc.hyps(2) in auto)
    moreover have "triple (started n me (Suc i)) (kfor [Suc i..<nat n] boot_ap :: ('a kernel_scheme, unit) kfun) (\<lambda>_. kinv)"
      by (rule Suc.hyps(1)) (use Suc.hyps(2) in simp)
    ultimately show ?case unfolding i kfor.simps by (rule triple_bind)
  qed
  have k: "keeps sview (KADDR MPENTRY_PADDR)" "keeps sview (kmodify (\<lambda>s. s\<lparr>pmem := g s\<rparr>) :: ('a kernel_scheme, unit) kfun)" for g
    by (intro kept; simp)+
  have n: "triple (started n me 0) (kgets ncpu) (\<lambda>m s. m = n \<and> started n me 0 s)" for n me
    by (simp add: triple_def started_def)
  have eq: "triple (\<lambda>s. m = n \<and> started n me 0 s) (kfor [0..<nat m] boot_ap :: ('a kernel_scheme, unit) kfun) (\<lambda>_. kinv)" for m n me
    using loop [of n me 0] by (auto simp: triple_def)
  have "triple (started n me 0) (boot_aps :: ('a kernel_scheme, unit) kfun) (\<lambda>_. kinv)" for n me
    unfolding boot_aps_def
    by (rule triple_bind [OF started_kept [OF k(1)]], rule triple_bind [OF started_kept [OF k(2)]],
        rule triple_bind [OF n], rule eq)
  then show ?thesis by (auto simp: triple_def)
qed


subsection \<open>From the first instruction in C\<close>

text \<open>
  Variables without an initial value are zero: all queues are empty and no task or
  processor is known. The program starts on one of the processors the arrays have room for.
\<close>

definition zero_bss :: "'a kernel_scheme \<Rightarrow> bool" where
  "zero_bss s \<longleftrightarrow> length (tasks s) = NR_TASKS \<and> ncpu s = 0 \<and> cur_cpu s < NCPU \<and> length (cpus s) = NCPU \<and>
     (\<forall>c \<in> set (cpus s). cpu_id c = 0 \<and> cpu_task c = None \<and>
        cpu_rq c = \<lparr>total = 0, current_index = 0, runQueue = replicate NR_TASKS 0\<rparr>)"

lemma zero_bss_boot: "zero_bss s \<Longrightarrow> boot_inv s"
proof -
  assume z: "zero_bss s"
  have "cpus s ! c \<in> set (cpus s)" if "c < 8" for c using z that by (simp add: zero_bss_def NCPU_def)
  then have "cpu_id (cpus s ! c) = 0 \<and> cpu_task (cpus s ! c) = None \<and>
      cpu_rq (cpus s ! c) = \<lparr>total = 0, current_index = 0, runQueue = replicate NR_TASKS 0\<rparr>" if "c < 8" for c
    using z that by (simp add: zero_bss_def)
  then show ?thesis
    using z by (simp add: boot_inv_def fresh_cpus_def numbered_def zero_bss_def NR_TASKS_def NCPU_def rq_wf_def)
qed

lemma kernel_main_triple:
  "triple zero_bss (kernel_main cmos imcr stext etext rdata_end data_start kend :: ('a kernel_scheme, user_start) kfun) (\<lambda>_. kinv)"
proof -
  have k: "keeps sview (init_video :: ('a kernel_scheme, unit) kfun)" by (intro kept; simp)
  have boot: "triple boot_inv (init_video :: ('a kernel_scheme, unit) kfun) (\<lambda>_. boot_inv)"
    by (rule triple_kept [OF k]) (use boot_inv_views in \<open>auto simp: sview_def\<close>)
  have mem: "triple boot_inv (mem_init cmos kend :: ('a kernel_scheme, unit) kfun) (\<lambda>_. boot_ok)"
    using tripleD [OF mem_init_triple] boot_inv_views unfolding triple_def boot_ok_def
    by (metis (mono_tags, lifting) bview_def prod.inject)
  have lap: "triple boot_ok (lapic_init :: ('a kernel_scheme, unit) kfun) (\<lambda>_. boot_ok)"
    unfolding triple_def boot_ok_def
  proof (intro allI impI)
    fix s t :: "'a kernel_scheme" and x
    assume "boot_inv s \<and> npages s \<le> 0x10000" "lapic_init s = Inr (x, t)"
    then show "boot_inv t \<and> npages t \<le> 0x10000"
      using lapic_init_view(1) [of s x t] boot_inv_views [of t s] by (simp add: lview_def bview_def)
  qed
  have task: "triple boot_ok (task_init :: ('a kernel_scheme, unit) kfun) (\<lambda>_ s. \<exists>n me. started n me 0 s)"
    unfolding triple_def using task_init_view by blast
  have st: "triple (\<lambda>s. \<exists>n me. started n me 0 s) m (\<lambda>_ s. \<exists>n me. started n me 0 s)" if "keeps sview m"
    for m :: "('a kernel_scheme, 'b) kfun" using started_kept [OF that] unfolding triple_def by blast
  have last: "triple kinv m (\<lambda>_. kinv)" if "keeps sview m" for m :: "('a kernel_scheme, 'b) kfun"
    using kinv_keeps [OF that] by (auto simp: triple_def)
  have fin: "triple boot_inv (kernel_main cmos imcr stext etext rdata_end data_start kend :: ('a kernel_scheme, user_start) kfun) (\<lambda>_. kinv)"
    unfolding kernel_main_def
    by (rule triple_bind [OF boot], rule triple_bind [OF mem], rule triple_bind [OF mp_init_triple], rule triple_bind [OF lap],
        rule triple_bind [OF task], (rule triple_bind [OF st], intro kept, simp)+, rule triple_bind [OF boot_aps_triple],
        rule last, intro kept; simp)
  show ?thesis unfolding triple_def using tripleD [OF fin zero_bss_boot] by blast
qed

section \<open>The reachable states\<close>

text \<open>
  A step of the machine. Between traps, user programs run on one of the processors: they change
  memory and registers, and keys are pressed; the kernel's variables stay as they are. A trap
  runs the kernel from \<^verbatim>\<open>default_trap_handler\<close> until it leaves for user mode again.
\<close>

inductive machine_step :: "'a kernel_scheme \<Rightarrow> 'a kernel_scheme \<Rightarrow> bool" where
  user: "c < NCPU \<Longrightarrow>
    machine_step s (s\<lparr>cur_cpu := c, pmem := m, cr3 := d, tlb := e, cr2 := a, stack_tf := f, if_flag := b, kbq := q, kb_idle := k\<rparr>)"
| trap: "default_trap_handler p s = Inr (x, t) \<Longrightarrow> machine_step s t"

inductive_cases machine_stepE: "machine_step s t"

lemma machine_step_kinv: "machine_step s t \<Longrightarrow> kinv s \<Longrightarrow> kinv t"
proof (elim machine_stepE)
  fix c m d e a f b q k
  assume "kinv s" "c < NCPU"
    "t = s\<lparr>cur_cpu := c, pmem := m, cr3 := d, tlb := e, cr2 := a, stack_tf := f, if_flag := b, kbq := q, kb_idle := k\<rparr>"
  then show "kinv t" by (simp add: kinv_def cpunum_def NCPU_def)
next
  fix p x assume "kinv s" "default_trap_handler p s = Inr (x, t)"
  then show "kinv t" using preserves_default_trap_handler [of p] unfolding preserves_def by blast
qed

lemma reachable_kinv: "machine_step\<^sup>*\<^sup>* s t \<Longrightarrow> kinv s \<Longrightarrow> kinv t"
  by (induction rule: rtranclp_induct) (auto intro: machine_step_kinv)

text \<open>The example machine satisfies the invariant, also with a timer handler installed.\<close>

lemma demo_kernel_kinv: "kinv demo_kernel"
proof -
  have q: "queue_of demo_cpus c = (if c = 0 then [0, 1, 2] else [])" "rq_wf (cpu_rq (demo_cpus ! c))"
    "cpu_task (demo_cpus ! c) = (if c = 0 then Some 0 else None)" if "c < 8" for c
    using that by (auto simp: demo_cpus_def rq_list_def rq_wf_def nth_Cons' NR_TASKS_def)
  have t: "tviews demo_kernel ! p = (if p = 0 then (TASK_RUNNING, 0, Some 1) else if p = 1 then (TASK_SLEEP, 1, Some 2)
      else if p = 2 then (TASK_RUNNABLE, 2, Some 3) else (TASK_FREE, 0, None))" if "p < 32" for p
    using that by (auto simp: demo_kernel_sel nth_Cons' demo_task_def tview_def zero_task_def)
  have "queues_ok (tviews demo_kernel) demo_cpus"
  proof (rule queues_okI)
    show "length demo_cpus = 8" by (simp add: demo_cpus_def)
    show "\<exists>c < 8. int p \<in> set (queue_of demo_cpus c)" if "p < 32" "fst (tviews demo_kernel ! p) \<noteq> TASK_FREE" for p
      using that q(1) [of 0] t [OF that(1)] by (intro exI [of _ 0]) (auto split: if_splits)
    show "\<exists>c < 8. cpu_task (demo_cpus ! c) = Some p" if "p < 32" "fst (tviews demo_kernel ! p) = TASK_RUNNING" for p
      using that q(3) [of 0] t [OF that(1)] by (intro exI [of _ 0]) (auto split: if_splits)
  qed (use q t in \<open>auto simp: demo_kernel_sel split: if_splits\<close>)
  then show ?thesis by (simp add: kinv_views demo_kernel_sel) (simp add: demo_kernel_defs)
qed

lemma kinv_timer_ok:
  assumes k: "kinv s"
  shows "timer_ok s"
proof -
  note l = kinv_len [OF k] and q = k [unfolded kinv_views, THEN conjunct1]
  have w: "rq_wf (cpu_rq (this_cpu s))" by (rule sched_wf_simps [OF kinv_sched_wf [OF k]])
  have "rq_pids s 0 = map nat (queue_of (cpus s) (cpunum s))"
    using w by (intro nth_equalityI)
      (auto simp: rq_pids_def rq_pid_def rq_size_def this_cpu_def rq_list_def rq_wf_def)
  moreover have "inj_on nat (set (queue_of (cpus s) (cpunum s)))"
    using rq_list_bounds [OF w] by (auto intro!: inj_onI simp: this_cpu_def eq_nat_nat_iff)
  ultimately have "distinct (rq_pids s 0)" using queues_okD(4) [OF q l(3)] by (simp add: distinct_map)
  then show ?thesis
    using kinv_sched_wf [OF k] kinv_member(2) [OF k l(3) kinv_current [OF k l(3)]] by (simp add: timer_ok_def this_cpu_def)
qed

text \<open>A timer interrupt whose frame is on the kernel stack, with the timer's handler installed.\<close>

definition timer_trap :: "'a kernel_scheme \<Rightarrow> bool" where
  "timer_trap s \<longleftrightarrow> length (trap_hnd s) = 256 \<and> trap_hnd s ! 32 = Some H_timer \<and> tf_trapno (stack_tf s) = 32"

definition from_user :: "'a kernel_scheme \<Rightarrow> bool" where
  "from_user s \<longleftrightarrow> tf_cs (stack_tf s) AND 3 = 3"

lemma timer_trap_runs:
  fixes s :: "'a kernel_scheme"
  assumes k: "kinv s" and tr: "timer_trap s"
  shows "from_user s \<Longrightarrow> cpu_task (this_cpu s) = None \<Longrightarrow> default_trap_handler StackFrame s = Inl NullDeref"
    and "from_user s \<Longrightarrow> cpu_task (this_cpu s) = Some c \<Longrightarrow> \<exists>x t. default_trap_handler StackFrame s = Inr (x, t)"
    and "\<not> from_user s \<Longrightarrow> \<exists>x t. default_trap_handler StackFrame s = Inr (x, t)"
proof -
  have len: "length (tasks s) = 32" "cpunum s < length (cpus s)" "cpunum s < 8" using kinv_len [OF k] by simp_all
  have t: "length (trap_hnd s) = 256" "trap_hnd s ! 32 = Some H_timer" "tf_trapno (stack_tf s) = 32" using tr by (simp_all add: timer_trap_def)
  have num: "cpunum (s\<lparr>last_tf := a, if_flag := b\<rparr>) = cpunum s" for a b by (simp add: cpunum_def)
  note run = default_trap_handler_def trap_dispatch_def read_tf_def kbind_apply IRQ_OFFSET_def IRQ_SPURIOUS_def
        trap_hnd_at_def save_user_tf_def cur_task_def thiscpu_ok this_cpu_def upd_task_ok run_handler_def
  show "default_trap_handler StackFrame s = Inl NullDeref" if "from_user s" "cpu_task (this_cpu s) = None"
    using that t len num by (simp add: run from_user_def)
  show "\<exists>x t. default_trap_handler StackFrame s = Inr (x, t)" if u: "from_user s" "cpu_task (this_cpu s) = Some c"
  proof -
    define v where "v = s\<lparr>last_tf := Some StackFrame, if_flag := False, tasks := (tasks s)[c := (tasks s ! c)\<lparr>tf := stack_tf s\<rparr>]\<rparr>"
    have c: "c < 32" using kinv_member(1) [OF k len(3) kinv_current [OF k len(3)]] u(2) by (simp add: this_cpu_def)
    have "tviews v = tviews s" using len(1) c by (simp add: v_def map_update tview_def list_update_same_conv)
    then have "sview v = sview s" by (simp add: v_def sview_def)
    then have "kinv v" using k kinv_seen [of v s] by simp
    then obtain r w where "timer_handler v = Inr (r, w)" using timer_handler_returns [OF kinv_timer_ok] by blast
    then show ?thesis
      using t len u c num unfolding v_def from_user_def by (cases r) (simp_all add: run)
  qed
  show "\<exists>x t. default_trap_handler StackFrame s = Inr (x, t)" if u: "\<not> from_user s"
  proof -
    define v where "v = s\<lparr>last_tf := Some StackFrame\<rparr>"
    have "sview v = sview s" by (simp add: v_def sview_def)
    then have "kinv v" using k kinv_seen [of v s] by simp
    then obtain r w where "timer_handler v = Inr (r, w)" using timer_handler_returns [OF kinv_timer_ok] by blast
    then show ?thesis
      using t u unfolding v_def from_user_def by (cases r) (simp_all add: run)
  qed
qed

text \<open>The timer interrupt of a user program on the example machine.\<close>

definition demo_trap :: kernel where
  "demo_trap = demo_kernel\<lparr>trap_hnd := (replicate 256 None)[32 := Some H_timer], stack_tf := user_tf\<lparr>tf_trapno := 32\<rparr>\<rparr>"

lemma demo_trap_timer: "timer_trap demo_trap" "from_user demo_trap" "cpu_task (this_cpu demo_trap) = Some 0"
  by (simp_all add: timer_trap_def from_user_def demo_trap_def user_tf_def GD_UT_def this_cpu_def cpunum_def demo_kernel_sel demo_cpus_def)
    (simp_all add: demo_kernel_defs)

lemma demo_trap_step: "kinv demo_trap" "\<exists>t. machine_step demo_trap t"
proof -
  have "sview demo_trap = sview demo_kernel" by (simp add: demo_trap_def sview_def)
  then show k: "kinv demo_trap" using demo_kernel_kinv kinv_seen [of demo_trap demo_kernel] by simp
  show "\<exists>t. machine_step demo_trap t"
    using timer_trap_runs(2) [OF k demo_trap_timer] by (blast intro: machine_step.trap)
qed

section \<open>Properties\<close>

text \<open>
  C1. The invariant of the run queues holds in every state the machine reaches, by any sequence of traps on any
  of its processors, one trap after the other, and any user activity in between, from a state in which it holds: every task that exists is in
  exactly one run queue and occurs there once, queue entries are numbers of existing tasks, each task
  carries its own number and a page directory the kernel can address, the current task of a processor
  is in that processor's queue, and a task marked as running is the current task of some processor.
\<close>
theorem machine_invariant:
  assumes "kinv s" and "machine_step\<^sup>*\<^sup>* s t"
  shows "kinv t"
  using assms by (rule reachable_kinv [rotated])

theorem machine_invariant_witness:
  "\<exists>t :: kernel. machine_step demo_trap t \<and> kinv t"
  using demo_trap_step machine_invariant [OF demo_trap_step(1)] by (blast intro: r_into_rtranclp)

text \<open>
  As long as the traps of different processors come one after the other, the current tasks of two processors are
  different. Two processors in the kernel at once can break this: \<^verbatim>\<open>sys_kill\<close> changes its run queue without the lock.
\<close>
lemma no_task_on_two_processors:
  assumes "kinv s" and "c < NCPU" and "d < NCPU" and "c \<noteq> d" and "cpu_task (cpus s ! c) = Some p"
  shows "cpu_task (cpus s ! d) \<noteq> Some p"
proof
  assume d: "cpu_task (cpus s ! d) = Some p"
  have "queues_ok (tviews s) (cpus s)" using assms(1) by (simp add: kinv_views)
  then show False
    using queues_okD(5) [of "tviews s" "cpus s" c d "int p"] kinv_current [OF assms(1), of c p] kinv_current [OF assms(1), of d p]
      assms(2-5) d by (simp add: NCPU_def)
qed

text \<open>
  Start-up establishes the invariant: if \<^verbatim>\<open>kernel_main\<close>, started with zeroed variables on any of the
  processors, gets to its final \<^verbatim>\<open>iret\<close> (memory set up and checked, the processors found and started, each with its
  first task), then the run queues are consistent. The firmware's tables, the clock's memory and the linker's
  symbols are arbitrary.
\<close>
lemma kernel_main_establishes_invariant:
  assumes "zero_bss s"
  shows "case kernel_main cmos imcr stext etext rdata_end data_start kend s of Inl e \<Rightarrow> True | Inr (u, t) \<Rightarrow> kinv t"
  using tripleD [OF kernel_main_triple assms] by (auto split: sum.splits)

lemma kernel_main_establishes_invariant_witness:
  "\<exists>s :: kernel. zero_bss s \<and>
     (case kernel_main (\<lambda>_. 0) 0 0xF0100000 0xF0110000 0xF0118000 0xF0118000 0xF0120000 s of Inl e \<Rightarrow> True | Inr (u, t) \<Rightarrow> kinv t)"
proof -
  define s where "s = demo_kernel\<lparr>tasks := replicate 32 zero_task, ncpu := 0, cpus := replicate 8
    \<lparr>cpu_id = 0, cpu_status = CPU_UNUSED, cpu_task = None,
     cpu_rq = \<lparr>total = 0, current_index = 0, runQueue = replicate 32 0\<rparr>, cpu_tss = zero_tss\<rparr>\<rparr>"
  have "cur_cpu s = 0" by (simp add: s_def) (simp add: demo_kernel_defs)
  then have "zero_bss s" by (simp add: zero_bss_def NR_TASKS_def NCPU_def) (simp add: s_def)
  from this kernel_main_establishes_invariant [OF this] show ?thesis by blast
qed

text \<open>
  C14. Timer interrupts in the reachable states. The whole trap, from \<^verbatim>\<open>default_trap_handler\<close> through the handler and the
  scheduler to the return or the switch to another task, runs to its end: no array access is out of range,
  no null pointer is followed, and no page directory is loaded that the kernel cannot address; and the run queues are consistent
  afterwards. There is exactly one exception: an interrupt of user mode on a processor without a current task
  follows the null pointer \<^verbatim>\<open>thiscpu->cpu_task\<close>.
\<close>
theorem timer_trap_outcome:
  assumes "kinv s" and "machine_step\<^sup>*\<^sup>* s t" and "timer_trap t"
  shows "if from_user t \<and> cpu_task (this_cpu t) = None then default_trap_handler StackFrame t = Inl NullDeref
    else \<exists>x u. default_trap_handler StackFrame t = Inr (x, u) \<and> kinv u"
proof -
  have k: "kinv t" using assms by (blast intro: reachable_kinv)
  have keep: "kinv u" if "default_trap_handler StackFrame t = Inr (x, u)" for x u
    using that k by (blast intro: machine_step_kinv machine_step.trap)
  have "\<exists>x u. default_trap_handler StackFrame t = Inr (x, u)" if "\<not> (from_user t \<and> cpu_task (this_cpu t) = None)"
    using that timer_trap_runs(2,3) [OF k assms(3)] by (cases "cpu_task (this_cpu t)") blast+
  then show ?thesis using timer_trap_runs(1) [OF k assms(3)] keep by auto
qed

theorem timer_trap_outcome_witness:
  "(\<exists>x u. default_trap_handler StackFrame demo_trap = Inr (x, u) \<and> kinv u) \<and>
   (\<exists>s t :: kernel. kinv s \<and> machine_step s t \<and> default_trap_handler StackFrame t = Inl NullDeref)"
proof -
  let ?s = "demo_trap\<lparr>lapic := 0xEF800000\<rparr>" and ?t = "demo_trap\<lparr>lapic := 0xEF800000, cur_cpu := 1\<rparr>"
  have k: "kinv ?s" using demo_trap_step(1) by (simp add: kinv_def cpunum_def) (simp add: demo_trap_def demo_kernel_defs)
  have "machine_step ?s (?s\<lparr>cur_cpu := 1, pmem := pmem ?s, cr3 := cr3 ?s, tlb := tlb ?s, cr2 := cr2 ?s, stack_tf := stack_tf ?s,
      if_flag := if_flag ?s, kbq := kbq ?s, kb_idle := kb_idle ?s\<rparr>)"
    by (rule machine_step.user) (simp add: NCPU_def)
  then have s: "machine_step ?s ?t" by simp
  have n: "timer_trap ?t" "from_user ?t"
    using demo_trap_timer by (simp_all add: timer_trap_def from_user_def)
  have "cpu_task (this_cpu ?t) = None" by (simp add: this_cpu_def cpunum_def) (simp add: demo_trap_def demo_kernel_sel demo_cpus_def)
  then have "default_trap_handler StackFrame ?t = Inl NullDeref"
    using timer_trap_outcome [OF k r_into_rtranclp [of machine_step, OF s] n(1)] n(2) by simp
  moreover have "\<exists>x u. default_trap_handler StackFrame demo_trap = Inr (x, u) \<and> kinv u"
    using timer_trap_outcome [OF demo_trap_step(1) rtranclp.rtrancl_refl demo_trap_timer(1)] demo_trap_timer(3) by simp
  ultimately show ?thesis using k s by blast
qed

end
