(* ===== verification/Ulib.thy ===== *)
theory Ulib
  imports Trap
begin

text \<open>
  The library of user programs: system call stubs (\<^verbatim>\<open>lib/syscall.c\<close>), console (\<^verbatim>\<open>lib/console.c\<close>) and line
  editor (\<^verbatim>\<open>lib/readline.c\<close>).

  The operating system is a parameter: \<open>os_int48\<close> is what the instruction \<^verbatim>\<open>int $T_SYSCALL\<close> does with the
  registers given, \<open>os_puts\<close> what the call \<^verbatim>\<open>puts\<close> does with the bytes of a buffer on the stack. Both
  act on a \<open>world\<close> of which the program sees nothing else. The program's own memory is a set of byte
  objects: the line buffer, the rows of the history and the string constants.
\<close>

section \<open>State\<close>

record 'w os =
  os_int48 :: "PushRegs \<Rightarrow> ('w, u32) kfun"
  os_puts :: "u8 list \<Rightarrow> ('w, unit) kfun"

record 'w ustate =
  umem :: bmem
  hist_head :: int
  hist_tail :: int
  hist_curr :: int
  tab_idx :: int
  is_tab :: bool
  is_found :: bool
  world :: 'w

definition in_world :: "('w, 'b) kfun \<Rightarrow> ('w ustate, 'b) kfun" where
  "in_world m = (\<lambda>s. case m (world s) of Inl e \<Rightarrow> Inl e | Inr (x, w) \<Rightarrow> Inr (x, s\<lparr>world := w\<rparr>))"

definition in_umem :: "(bmem, 'b) kfun \<Rightarrow> ('w ustate, 'b) kfun" where
  "in_umem m = (\<lambda>s. case m (umem s) of Inl e \<Rightarrow> Inl e | Inr (x, b) \<Rightarrow> Inr (x, s\<lparr>umem := b\<rparr>))"

text \<open>The objects: the line buffer, the history's rows and the string constants.\<close>

definition SHELL_HIST_MAX :: nat where "SHELL_HIST_MAX = 10"
definition BUF_LEN :: nat where "BUF_LEN = 1024"
definition BUFLEN :: int where "BUFLEN = 1024"

definition buf_at :: "int \<Rightarrow> ptr" where "buf_at i = (0, nat i)"
definition hist_at :: "int \<Rightarrow> int \<Rightarrow> ptr" where "hist_at k i = (1 + nat k, nat i)"
definition name_at :: "nat \<Rightarrow> ptr" where "name_at k = (20 + k, 0)"
definition WHITESPACE :: ptr where "WHITESPACE = (19, 0)"

text \<open>The table of \<^verbatim>\<open>user/shell.c\<close>; the functions are selected by the position in it.\<close>

definition commands :: "(string \<times> string) list" where
  "commands =
     [(''help'', ''Display this list of commands''),
      (''mem_stat'', ''Show current usage of physical memory''),
      (''print_tick'', ''Display system tick''),
      (''chgcolor'', ''Change screen text color''),
      (''forktest'', ''Test functionality of fork()''),
      (''spinlocktest'', ''Test spinlock'')]"

definition NCOMMANDS :: nat where "NCOMMANDS = length commands"

section \<open>System calls\<close>

definition syscall_regs :: "u32 \<Rightarrow> u32 \<Rightarrow> u32 \<Rightarrow> u32 \<Rightarrow> u32 \<Rightarrow> u32 \<Rightarrow> PushRegs" where
  "syscall_regs num a1 a2 a3 a4 a5 = zero_regs\<lparr>reg_eax := num, reg_edx := a1, reg_ecx := a2,
     reg_ebx := a3, reg_edi := a4, reg_esi := a5\<rparr>"

definition syscall :: "'w os \<Rightarrow> u32 \<Rightarrow> u32 \<Rightarrow> u32 \<Rightarrow> u32 \<Rightarrow> u32 \<Rightarrow> u32 \<Rightarrow> ('w ustate, int) kfun" where
  "syscall os num a1 a2 a3 a4 a5 =
     in_world (kbind (os_int48 os (syscall_regs num a1 a2 a3 a4 a5)) (\<lambda>r. kreturn (sint r)))"

definition getc :: "'w os \<Rightarrow> ('w ustate, int) kfun" where
  "getc os = syscall os SYS_getc 0 0 0 0 0"

definition getcid :: "'w os \<Rightarrow> ('w ustate, int) kfun" where
  "getcid os = syscall os SYS_getcid 0 0 0 0 0"

definition puts :: "'w os \<Rightarrow> u32 \<Rightarrow> u32 \<Rightarrow> ('w ustate, unit) kfun" where
  "puts os p len = kbind (syscall os SYS_puts p len 0 0 0) (\<lambda>_. kreturn ())"

definition getpid :: "'w os \<Rightarrow> ('w ustate, int) kfun" where
  "getpid os = syscall os SYS_getpid 0 0 0 0 0"

definition fork :: "'w os \<Rightarrow> ('w ustate, int) kfun" where
  "fork os = syscall os SYS_fork 0 0 0 0 0"

definition kill_self :: "'w os \<Rightarrow> ('w ustate, unit) kfun" where
  "kill_self os = kbind (syscall os SYS_kill 0 0 0 0 0) (\<lambda>_. kreturn ())"

definition sleep :: "'w os \<Rightarrow> u32 \<Rightarrow> ('w ustate, unit) kfun" where
  "sleep os ticks = kbind (syscall os SYS_sleep ticks 0 0 0 0) (\<lambda>_. kreturn ())"

definition get_num_used_page :: "'w os \<Rightarrow> ('w ustate, int) kfun" where
  "get_num_used_page os = syscall os SYS_get_num_used_page 0 0 0 0 0"

definition get_num_free_page :: "'w os \<Rightarrow> ('w ustate, int) kfun" where
  "get_num_free_page os = syscall os SYS_get_num_free_page 0 0 0 0 0"

definition get_ticks :: "'w os \<Rightarrow> ('w ustate, u32) kfun" where
  "get_ticks os = kbind (syscall os SYS_get_ticks 0 0 0 0 0) (\<lambda>r. kreturn (of_int r))"

definition settextcolor :: "'w os \<Rightarrow> u8 \<Rightarrow> u8 \<Rightarrow> ('w ustate, unit) kfun" where
  "settextcolor os forecolor backcolor =
     kbind (syscall os SYS_settextcolor (ucast forecolor) (ucast backcolor) 0 0 0) (\<lambda>_. kreturn ())"

definition cls :: "'w os \<Rightarrow> ('w ustate, int) kfun" where
  "cls os = syscall os SYS_cls 0 0 0 0 0"

section \<open>Console\<close>

definition out :: "'w os \<Rightarrow> string \<Rightarrow> va list \<Rightarrow> ('w ustate, unit) kfun" where
  "out os fmt ap = kbind (in_world (cprintf (os_puts os) fmt ap)) (\<lambda>_. kreturn ())"

definition cputchar :: "'w os \<Rightarrow> int \<Rightarrow> ('w ustate, unit) kfun" where
  "cputchar os ch = in_world (os_puts os [of_int ch])"

text \<open>The first argument bounds the number of polls; a loop that polls longer is seen as not ending.\<close>

fun getchar :: "nat \<Rightarrow> 'w os \<Rightarrow> ('w ustate, int) kfun" where
  "getchar 0 os = kfail Hang"
| "getchar (Suc n) os = kbind (getc os) (\<lambda>r. if r = 0 then getchar n os else kreturn r)"

section \<open>The line editor\<close>

text \<open>\<open>More i\<close>: the loop goes on with \<open>i\<close> characters in the buffer; \<open>Done r\<close>: \<^verbatim>\<open>readline\<close> returns \<open>r\<close>.\<close>

datatype rl_step = More int | Done "ptr option"

definition backspace :: string where "backspace = [CHR 0x08]"

text \<open>A pending completion is taken over into the buffer by any key but the tabulator.\<close>

definition accept_completion :: "int \<Rightarrow> int \<Rightarrow> ('w ustate, int) kfun" where
  "accept_completion c i =
     kbind (kgets (\<lambda>s. (is_tab s \<and> is_found s, tab_idx s))) (\<lambda>(pending, k).
     if pending \<and> c \<noteq> 9 then
       kbind (in_umem (strcpy (buf_at 0) (name_at (nat k)))) (\<lambda>_.
       kbind (in_umem (strlen (buf_at 0))) (\<lambda>n.
       kbind (kmodify (\<lambda>s. s\<lparr>tab_idx := 0, is_tab := False, is_found := False\<rparr>)) (\<lambda>_.
       kreturn n)))
     else kreturn i)"

text \<open>The search for the next command that starts with the \<open>i\<close> characters typed, from those given.\<close>

fun find_completion :: "'w os \<Rightarrow> nat list \<Rightarrow> int \<Rightarrow> ('w ustate, unit) kfun" where
  "find_completion os [] i = kmodify (\<lambda>s. s\<lparr>is_found := False\<rparr>)"
| "find_completion os (k # ks) i =
     kbind (in_umem (strncmp (name_at k) (buf_at 0) (of_int i))) (\<lambda>r.
     if r = 0 then
       kbind (out os ''%s'' [VS (Some (drop (nat i) (str (fst (commands ! k)))))]) (\<lambda>_.
       kmodify (\<lambda>s. s\<lparr>is_tab := True, is_found := True, tab_idx := int k\<rparr>))
     else find_completion os ks i)"

definition tab_key :: "'w os \<Rightarrow> int \<Rightarrow> ('w ustate, rl_step) kfun" where
  "tab_key os i =
     kbind (kgets (\<lambda>s. (is_found s, tab_idx s))) (\<lambda>(found, k).
     kbind (kwhen found
       (kbind (in_umem (strlen (name_at (nat k)))) (\<lambda>n.
        kfor [0..<nat (n - i)] (\<lambda>_. out os backspace [])))) (\<lambda>_.
     kbind (find_completion os [(if found then nat (k + 1) else 0)..<NCOMMANDS] i) (\<lambda>_.
     kreturn (More i))))"

text \<open>
  A row of the history replaces the line. The first argument bounds the copy by the length of a
  row; a row with no end runs out of it.
\<close>

fun copy_row :: "nat \<Rightarrow> 'w os \<Rightarrow> int \<Rightarrow> int \<Rightarrow> ('w ustate, int) kfun" where
  "copy_row 0 os k i = kfail BadIndex"
| "copy_row (Suc n) os k i =
     kbind (in_umem (load (hist_at k i))) (\<lambda>c.
     if c = 0 then kreturn i
     else
       kbind (in_umem (store (buf_at i) c)) (\<lambda>_.
       kbind (out os ''%c'' [VW (scast c)]) (\<lambda>_.
       copy_row n os k (i + 1))))"

definition recall :: "'w os \<Rightarrow> int \<Rightarrow> ('w ustate, rl_step) kfun" where
  "recall os i =
     kbind (kfor [0..<nat i] (\<lambda>_. out os backspace [])) (\<lambda>_.
     kbind (kgets hist_curr) (\<lambda>k.
     kbind (copy_row (Suc BUF_LEN) os k 0) (\<lambda>j. kreturn (More j))))"

definition hist_up :: "'w ustate \<Rightarrow> 'w ustate" where
  "hist_up s = (if hist_curr s \<noteq> hist_head s
     then s\<lparr>hist_curr := (if hist_curr s = 0 then int SHELL_HIST_MAX - 1 else hist_curr s - 1)\<rparr> else s)"

definition hist_down :: "'w ustate \<Rightarrow> 'w ustate" where
  "hist_down s = (if hist_curr s \<noteq> hist_tail s
     then s\<lparr>hist_curr := (if hist_curr s = int SHELL_HIST_MAX - 1 then 0 else hist_curr s + 1)\<rparr> else s)"

definition rl_key :: "'w os \<Rightarrow> u8 list option \<Rightarrow> int \<Rightarrow> int \<Rightarrow> ('w ustate, rl_step) kfun" where
  "rl_key os prompt c i =
     (if c < 0 then
        kbind (out os (''read error: %e'' @ nl) [VW (of_int c)]) (\<lambda>_. kreturn (Done None))
      else if (c = 8 \<or> c = 0x7F) \<and> i > 0 then
        kbind (out os backspace []) (\<lambda>_. kreturn (More (i - 1)))
      else if c \<ge> 32 \<and> c \<le> 0x7E \<and> i < BUFLEN - 1 then
        kbind (out os ''%c'' [VW (of_int c)]) (\<lambda>_.
        kbind (in_umem (store (buf_at i) (of_int c))) (\<lambda>_. kreturn (More (i + 1))))
      else if c = 10 \<or> c = 13 then
        kbind (out os nl []) (\<lambda>_.
        kbind (in_umem (store (buf_at i) 0)) (\<lambda>_. kreturn (Done (Some (buf_at 0)))))
      else if c = 0xC then
        kbind (cls os) (\<lambda>_.
        kbind (out os ''%s'' [VS prompt]) (\<lambda>_. kreturn (More i)))
      else if c = 9 then tab_key os i
      else if c \<ge> 0x80 then
        (if c = uint KEY_UP then kbind (kmodify hist_up) (\<lambda>_. recall os i)
         else if c = uint KEY_DN then kbind (kmodify hist_down) (\<lambda>_. recall os i)
         else kreturn (More i))
      else kreturn (More i))"

fun rl_loop :: "nat \<Rightarrow> 'w os \<Rightarrow> u8 list option \<Rightarrow> int \<Rightarrow> ('w ustate, ptr option) kfun" where
  "rl_loop 0 os prompt i = kfail Hang"
| "rl_loop (Suc n) os prompt i =
     kbind (getchar (Suc n) os) (\<lambda>c.
     kbind (accept_completion c i) (\<lambda>i.
     kbind (rl_key os prompt c i) (\<lambda>r.
     case r of Done p \<Rightarrow> kreturn p | More i \<Rightarrow> rl_loop n os prompt i)))"

definition readline :: "nat \<Rightarrow> 'w os \<Rightarrow> u8 list option \<Rightarrow> ('w ustate, ptr option) kfun" where
  "readline n os prompt =
     kbind (kwhen (prompt \<noteq> None) (out os ''%s'' [VS prompt])) (\<lambda>_. rl_loop n os prompt 0)"

end
