(* ===== verification/Calls.thy ===== *)
theory Calls
  imports Reach Ulib
begin

text \<open>
  What the system calls promise: where a new task is queued (the last step of \<^verbatim>\<open>sys_fork\<close>), which gates a user
  program can use, how number, arguments and result of a call travel between the stub of \<^verbatim>\<open>lib/syscall.c\<close> and
  \<^verbatim>\<open>kernel/syscall.c\<close>, and what \<^verbatim>\<open>sleep\<close> does when nothing else can run.
\<close>

section \<open>Placing a new task\<close>

interpretation cpus_lk: lock_field cpus_lock cpus_lock_update
  by unfold_locales simp_all

definition load_of :: "'a kernel_scheme \<Rightarrow> nat \<Rightarrow> int" where
  "load_of s c = total (cpu_rq (cpus s ! c))"

text \<open>Processor \<open>i\<close> is the first of those before \<open>n\<close> with the fewest tasks.\<close>

definition least_loaded :: "'a kernel_scheme \<Rightarrow> nat \<Rightarrow> nat \<Rightarrow> bool" where
  "least_loaded s n i \<longleftrightarrow> i < n \<and> (\<forall>j < n. load_of s i \<le> load_of s j) \<and> (\<forall>j < i. load_of s i < load_of s j)"

lemma least_loaded_Suc:
  assumes "least_loaded s n i"
  shows "least_loaded s (Suc n) (if load_of s n < load_of s i then n else i)"
  using assms by (auto simp: least_loaded_def less_Suc_eq)

lemma pick_cpu_least:
  assumes "n \<le> length (cpus s)" and "least_loaded s a i" and "a \<le> n"
  shows "\<exists>k. pick_cpu [a..<n] (load_of s i) i s = Inr (k, s) \<and> least_loaded s n k"
  using assms
proof (induction "n - a" arbitrary: a i)
  case (Suc d)
  let ?k = "if load_of s a < load_of s i then a else i"
  have "\<exists>k. pick_cpu [Suc a..<n] (load_of s ?k) ?k s = Inr (k, s) \<and> least_loaded s n k"
    using Suc by (intro Suc.hyps(1) least_loaded_Suc) auto
  moreover have "pick_cpu [a..<n] (load_of s i) i s = pick_cpu [Suc a..<n] (load_of s ?k) ?k s"
    using Suc by (simp add: upt_conv_Cons kbind_apply get_cpu_def load_of_def)
  ultimately show ?case by simp
qed simp

lemma pick_cpu_ok:
  assumes "n \<le> length (cpus s)" and "0 < n" and "load_of s 0 < 32"
  shows "\<exists>k. pick_cpu [0..<n] (int NR_TASKS) 0 s = Inr (k, s) \<and> least_loaded s n k"
proof -
  have "pick_cpu [0..<n] (int NR_TASKS) 0 s = pick_cpu [1..<n] (load_of s 0) 0 s"
    using assms by (cases "cpus s") (simp_all add: upt_conv_Cons kbind_apply get_cpu_def load_of_def NR_TASKS_def)
  then show ?thesis using pick_cpu_least [of n s 1 0] assms by (simp add: least_loaded_def)
qed

lemma rq_push_ok:
  assumes "rq_wf rq" and "total rq < 32"
  shows "\<exists>q. rq_push pid rq = Inr q \<and> rq_list q = rq_list rq @ [pid] \<and> current_index q = current_index rq"
proof -
  have "nat (total rq) < length (runQueue rq)" "nat (total rq + 1) = Suc (nat (total rq))"
    using assms by (auto simp: rq_wf_def NR_TASKS_def)
  then show ?thesis
    using assms by (simp add: rq_push_def rq_wf_def rq_list_def NR_TASKS_def take_Suc_conv_app_nth)
qed

lemma enqueue_runs:
  assumes "lock_free (cpus_lock s)" and "0 < ncpu s" and "nat (ncpu s) \<le> length (cpus s)"
    and "\<forall>c < length (cpus s). rq_wf (cpu_rq (cpus s ! c))" and "load_of s 0 < 32"
  shows "\<exists>i q k. enqueue pid s = Inr ((), s\<lparr>cpus := (cpus s)[i := (cpus s ! i)\<lparr>cpu_rq := q\<rparr>], cpus_lock := k\<rparr>) \<and>
    least_loaded s (nat (ncpu s)) i \<and> rq_list q = rq_list (cpu_rq (cpus s ! i)) @ [pid] \<and>
    current_index q = current_index (cpu_rq (cpus s ! i)) \<and> lock_free k"
proof -
  obtain l where l: "acquire cpus_lock cpus_lock_update s = Inr ((), s\<lparr>cpus_lock := l\<rparr>)" "holding s l"
    using cpus_lk.acquire_free [OF assms(1)] by auto
  let ?s = "s\<lparr>cpus_lock := l\<rparr>"
  have same: "least_loaded ?s = least_loaded s" "load_of ?s = load_of s"
    by (simp_all add: least_loaded_def load_of_def fun_eq_iff)
  obtain i where i: "pick_cpu [0..<nat (ncpu s)] (int NR_TASKS) 0 ?s = Inr (i, ?s)" "least_loaded s (nat (ncpu s)) i"
    using pick_cpu_ok [of "nat (ncpu s)" ?s] assms by (auto simp: same)
  have len: "i < length (cpus s)" "load_of s i < 32" using i(2) assms by (auto simp: least_loaded_def)
  then obtain q where q: "rq_push pid (cpu_rq (cpus s ! i)) = Inr q" "rq_list q = rq_list (cpu_rq (cpus s ! i)) @ [pid]"
      "current_index q = current_index (cpu_rq (cpus s ! i))"
    using rq_push_ok [of "cpu_rq (cpus s ! i)" pid] assms(4) by (auto simp: load_of_def)
  let ?u = "?s\<lparr>cpus := (cpus s)[i := (cpus s ! i)\<lparr>cpu_rq := q\<rparr>]\<rparr>"
  have "holding ?u (cpus_lock ?u)" using l(2) by (simp add: holding_def)
  then obtain k where k: "release cpus_lock cpus_lock_update ?u = Inr ((), ?u\<lparr>cpus_lock := k\<rparr>)" "lock_free k"
    using cpus_lk.release_held by blast
  have "enqueue pid s = Inr ((), s\<lparr>cpus := (cpus s)[i := (cpus s ! i)\<lparr>cpu_rq := q\<rparr>], cpus_lock := k\<rparr>)"
    using l(1) i(1) q(1) k(1) len
    by (simp add: enqueue_def kbind_apply get_cpu_def upd_cpu_def ksum_def)
  then show ?thesis using i(2) q k(2) by blast
qed

text \<open>
  C18. A new task goes to the processor with the fewest tasks, the first of them if there are several: the last
  step of \<^verbatim>\<open>sys_fork\<close> (\<^verbatim>\<open>kernel/task.c\<close>) appends it to that processor's run queue, which keeps its position, and
  leaves the other processors, all tasks and the lock as they were. It does so whenever the lock is free and the
  first processor's queue is not full.
\<close>
theorem enqueue_least_loaded:
  assumes "lock_free (cpus_lock s)" and "0 < ncpu s" and "nat (ncpu s) \<le> length (cpus s)"
    and "\<forall>c < length (cpus s). rq_wf (cpu_rq (cpus s ! c))" and "load_of s 0 < 32"
  shows "\<exists>i q t. enqueue pid s = Inr ((), t) \<and> least_loaded s (nat (ncpu s)) i \<and>
    rq_list q = rq_list (cpu_rq (cpus s ! i)) @ [pid] \<and> current_index q = current_index (cpu_rq (cpus s ! i)) \<and>
    cpus t = (cpus s)[i := (cpus s ! i)\<lparr>cpu_rq := q\<rparr>] \<and> tasks t = tasks s \<and> lock_free (cpus_lock t)"
proof -
  obtain i q k where e: "enqueue pid s = Inr ((), s\<lparr>cpus := (cpus s)[i := (cpus s ! i)\<lparr>cpu_rq := q\<rparr>], cpus_lock := k\<rparr>)"
    "least_loaded s (nat (ncpu s)) i" "rq_list q = rq_list (cpu_rq (cpus s ! i)) @ [pid]"
    "current_index q = current_index (cpu_rq (cpus s ! i))" "lock_free k"
    using enqueue_runs [OF assms, of pid] by blast
  then show ?thesis by (intro exI [of _ i] exI [of _ q] exI) (intro conjI; assumption?; simp)
qed

theorem enqueue_least_loaded_witness:
  "\<exists>t. enqueue 5 demo_kernel = Inr ((), t) \<and> queue_of (cpus t) 1 = [5]"
proof -
  have d: "lock_free (cpus_lock demo_kernel)" "ncpu demo_kernel = 2"
    by (simp_all add: demo_kernel_defs free_lock_def lock_free_def)
  have w: "\<forall>c < length (cpus demo_kernel). rq_wf (cpu_rq (cpus demo_kernel ! c))" and len: "length (cpus demo_kernel) = 8"
    using demo_kernel_wf by (simp_all add: sched_wf_def NCPU_def)
  have t: "load_of demo_kernel 0 = 3" "load_of demo_kernel 1 = 0" by (simp_all add: load_of_def demo_kernel_sel demo_cpus_def)
  obtain i q t where e: "enqueue 5 demo_kernel = Inr ((), t)" "least_loaded demo_kernel 2 i"
    "rq_list q = queue_of (cpus demo_kernel) i @ [5]" "cpus t = (cpus demo_kernel)[i := (cpus demo_kernel ! i)\<lparr>cpu_rq := q\<rparr>]"
    using enqueue_least_loaded [OF d(1) _ _ w, of 5] d(2) len t(1) by auto
  have "i = 1" using e(2) t by (auto simp: least_loaded_def less_Suc_eq numeral_2_eq_2)
  then have "queue_of (cpus t) 1 = [5]" using e(3,4) len by (simp add: demo_kernel_sel demo_cpus_def rq_list_def)
  then show ?thesis using e(1) by blast
qed

section \<open>The trap tables\<close>

definition gview :: "'a kernel_scheme \<Rightarrow> Gatedesc list \<times> handler option list \<times> (isr \<Rightarrow> u32) \<times> bool" where
  "gview s = (idt s, trap_hnd s, isr_addr s, idtr_loaded s)"

lemma gview_modify: "(\<And>s. gview (f s) = gview s) \<Longrightarrow> keeps gview (kmodify f)"
  by (simp add: keeps_def)

lemma gview_screen: "on_screen m \<Longrightarrow> keeps gview m"
  unfolding keeps_def
proof (intro allI impI)
  fix s t :: "'a kernel_scheme" and x
  assume "on_screen m" and "m s = Inr (x, t)"
  then have "screen_frame s t" by (auto simp: on_screen_def)
  then show "gview t = gview s" by (auto simp: screen_frame_def gview_def)
qed

lemma gview_kbd_intr: "keeps gview kbd_intr"
proof -
  have d: "keeps gview kbd_data" "keeps gview (cons_put c)" for c
    by (auto simp: keeps_def kbd_data_def cons_put_def gview_def split: list.splits if_splits)
  have p: "keeps gview kbd_proc_data"
    unfolding kbd_proc_data_def kbd_key_def kbd_status_def
    by (intro keeps_bind keeps_simple keeps_if keeps_let keeps_when d gview_modify gview_screen screen_frames) (simp_all add: gview_def)
  have "keeps gview (cons_intr n kbd_proc_data)" for n
    by (induction n) (simp_all add: p d keeps_bind keeps_if keeps_simple)
  then show ?thesis unfolding keeps_def kbd_intr_def by blast
qed

lemma gview_irq: "keeps gview pic_init" "keeps gview (irq_enable i)" "keeps gview (set_timer hz)"
  unfolding pic_init_def irq_enable_def irq_setmask_8259A_def set_timer_def
  by (intro keeps_bind keeps_simple keeps_if keeps_when gview_modify gview_screen screen_frames; simp add: gview_def)+

lemma irq_returns: "\<exists>t. pic_init s = Inr ((), t) \<and> (screen_ok s \<longrightarrow> screen_ok t) \<and> (cons_inv s \<longrightarrow> cons_inv t)"
  "\<exists>t. irq_enable i s = Inr ((), t)" "\<exists>t. set_timer TIME_HZ s = Inr ((), t)"
  by (simp_all add: pic_init_def irq_enable_def irq_setmask_8259A_def set_timer_def TIME_HZ_def kbind_apply kwhen_apply
      screen_ok_def cons_inv_def)

lemma gview_register:
  assumes "gview s = (g, h, a, l)" and "length g = 256" and "length h = 256" and "\<forall>e. a e \<noteq> 0" and "n < 256"
  shows "\<exists>t. register_handler (int n) k e b d s = Inr ((), t) \<and> gview t = (g[n := SETGATE b GD_KT (a e) d], h[n := Some k], a, l)"
proof -
  have "gates_ok s" using assms by (simp add: gates_ok_def gview_def)
  from register_handler_ok [OF this assms(5)] show ?thesis using assms(1) by (simp add: gview_def)
qed


text \<open>The entry point and the handler of each trap.\<close>

definition entry_of :: "nat \<Rightarrow> isr" where
  "entry_of n = (if n = T_GPFLT then GPFLT else if n = T_STACK then STACK_ISR else if n = T_PGFLT then PGFLT
     else if n = IRQ_OFFSET + IRQ_KBD then KBD_Input else if n = IRQ_OFFSET + IRQ_TIMER then TIM_ISR
     else if n = T_SYSCALL then SYSCALL else Default_ISR)"

definition handler_of :: "nat \<Rightarrow> handler option" where
  "handler_of n = (if n = T_PGFLT then Some H_page_fault else if n = IRQ_OFFSET + IRQ_KBD then Some H_kbd
     else if n = IRQ_OFFSET + IRQ_TIMER then Some H_timer else if n = T_SYSCALL then Some H_syscall else None)"

definition gate_for :: "(isr \<Rightarrow> u32) \<Rightarrow> nat \<Rightarrow> Gatedesc" where
  "gate_for a n = SETGATE (n \<noteq> IRQ_OFFSET + IRQ_KBD \<and> n \<noteq> IRQ_OFFSET + IRQ_TIMER) GD_KT (a (entry_of n)) (if n = T_SYSCALL then 3 else 0)"

lemmas trap_numbers = T_GPFLT_def T_STACK_def T_PGFLT_def IRQ_OFFSET_def IRQ_KBD_def IRQ_TIMER_def T_SYSCALL_def

lemma tables_filled:
  "(replicate 256 (SETGATE True GD_KT (a Default_ISR) 0))
      [T_GPFLT := SETGATE True GD_KT (a GPFLT) 0, T_STACK := SETGATE True GD_KT (a STACK_ISR) 0,
       T_PGFLT := SETGATE True GD_KT (a PGFLT) 0, IRQ_OFFSET + IRQ_KBD := SETGATE False GD_KT (a KBD_Input) 0,
       IRQ_OFFSET + IRQ_TIMER := SETGATE False GD_KT (a TIM_ISR) 0, T_SYSCALL := SETGATE True GD_KT (a SYSCALL) 3] =
    map (gate_for a) [0..<256]" (is "?l = _")
  "(replicate 256 None)[T_PGFLT := Some H_page_fault, IRQ_OFFSET + IRQ_KBD := Some H_kbd,
       IRQ_OFFSET + IRQ_TIMER := Some H_timer, T_SYSCALL := Some H_syscall] = map handler_of [0..<256]"
  by (rule nth_equalityI; simp add: gate_for_def entry_of_def handler_of_def trap_numbers nth_list_update)+

lemma init_traps_ok:
  fixes s :: "'a kernel_scheme"
  assumes "gates_ok s" and "screen_ok s" and "cons_inv s"
  shows "\<exists>t. kbind trap_init (\<lambda>_. kbind pic_init (\<lambda>_. kbind kbd_init (\<lambda>_. kbind timer_init (\<lambda>_. syscall_init)))) s = Inr ((), t) \<and>
    gview t = (map (gate_for (isr_addr s)) [0..<256], map handler_of [0..<256], isr_addr s, True)"
proof -
  let ?a = "isr_addr s"
  let ?g = "(replicate 256 (SETGATE True GD_KT (?a Default_ISR) 0))[T_GPFLT := SETGATE True GD_KT (?a GPFLT) 0,
    T_STACK := SETGATE True GD_KT (?a STACK_ISR) 0, T_PGFLT := SETGATE True GD_KT (?a PGFLT) 0]"
  let ?h = "(replicate 256 None)[T_PGFLT := Some H_page_fault]"
  let ?g5 = "?g[IRQ_OFFSET + IRQ_KBD := SETGATE False GD_KT (?a KBD_Input) 0]" and ?h5 = "?h[IRQ_OFFSET + IRQ_KBD := Some H_kbd]"
  let ?g8 = "?g5[IRQ_OFFSET + IRQ_TIMER := SETGATE False GD_KT (?a TIM_ISR) 0]" and ?h8 = "?h5[IRQ_OFFSET + IRQ_TIMER := Some H_timer]"
  note nz = assms(1) [unfolded gates_ok_def, THEN conjunct2, THEN conjunct2]
  have num: "IRQ_OFFSET + IRQ_KBD < 256" "IRQ_OFFSET + IRQ_TIMER < 256" "T_SYSCALL < 256" by (simp_all add: trap_numbers)
  obtain s1 where s1: "trap_init s = Inr ((), s1)" "screen_ok s1" "cons_inv s1" and g1: "gview s1 = (?g, ?h, ?a, True)"
    using trap_init_ok [OF assms(1)] assms(2,3) by (simp add: gview_def screen_ok_def cons_inv_def)
  obtain s2 where s2: "pic_init s1 = Inr ((), s2)" "screen_ok s2" "cons_inv s2" using irq_returns(1) [of s1] s1(2,3) by blast
  obtain s3 where s3: "kbd_intr s2 = Inr ((), s3)"
    using kbd_intr_ok [OF s2(2,3), of "Suc (length (kbq s2))"] by (auto simp: kbd_intr_def)
  obtain s4 where s4: "irq_enable IRQ_KBD s3 = Inr ((), s4)" using irq_returns(2) by blast
  have g4: "gview s4 = gview s1"
    using keepsD [OF gview_irq(1) s2(1)] keepsD [OF gview_kbd_intr s3] keepsD [OF gview_irq(2) s4] by simp
  obtain s5 where s5: "register_handler (int (IRQ_OFFSET + IRQ_KBD)) H_kbd KBD_Input False 0 s4 = Inr ((), s5)"
    and g5: "gview s5 = (?g5, ?h5, ?a, True)" using gview_register [OF g4 [unfolded g1] _ _ nz num(1), of H_kbd KBD_Input False 0] by auto
  obtain s6 where s6: "set_timer TIME_HZ s5 = Inr ((), s6)" using irq_returns(3) by blast
  obtain s7 where s7: "irq_enable IRQ_TIMER s6 = Inr ((), s7)" using irq_returns(2) by blast
  have g7: "gview s7 = gview s5" using keepsD [OF gview_irq(3) s6] keepsD [OF gview_irq(2) s7] by simp
  obtain s8 where s8: "register_handler (int (IRQ_OFFSET + IRQ_TIMER)) H_timer TIM_ISR False 0 s7 = Inr ((), s8)"
    and g8: "gview s8 = (?g8, ?h8, ?a, True)" using gview_register [OF g7 [unfolded g5] _ _ nz num(2), of H_timer TIM_ISR False 0] by auto
  obtain t where t: "register_handler (int T_SYSCALL) H_syscall SYSCALL True 3 s8 = Inr ((), t)"
    and gt: "gview t = (?g8[T_SYSCALL := SETGATE True GD_KT (?a SYSCALL) 3], ?h8[T_SYSCALL := Some H_syscall], ?a, True)" using gview_register [OF g8 _ _ nz num(3), of H_syscall SYSCALL True 3] by auto
  show ?thesis
    using s1(1) s2(1) s3 s4 s5 s6 s7 s8 t gt
    by (simp add: kbind_apply kbd_init_def timer_init_def syscall_init_def tables_filled)
qed


text \<open>
  C16. User programs can enter the kernel by one door only: once \<^verbatim>\<open>kernel_main\<close> has run \<^verbatim>\<open>trap_init\<close>, \<^verbatim>\<open>pic_init\<close>, \<^verbatim>\<open>kbd_init\<close>, \<^verbatim>\<open>timer_init\<close>
  and \<^verbatim>\<open>syscall_init\<close>, which return, each of the 256 gates is present, runs in the kernel's code segment and leads to the
  entry point of its trap; only the gate of the system call, number 48, may be used from user mode; the two
  device interrupts, and only they, disable interrupts on entry; and the dispatcher's table names the handlers of the page
  fault, the keyboard, the timer and the system call and no other.
\<close>
theorem only_syscall_gate_open:
  fixes s :: "'a kernel_scheme"
  assumes "gates_ok s" and "screen_ok s" and "cons_inv s"
  shows "\<exists>t. kbind trap_init (\<lambda>_. kbind pic_init (\<lambda>_. kbind kbd_init (\<lambda>_. kbind timer_init (\<lambda>_. syscall_init)))) s = Inr ((), t) \<and>
    idtr_loaded t \<and> length (idt t) = 256 \<and> length (trap_hnd t) = 256 \<and>
    (\<forall>n < 256. gd_p (idt t ! n) = 1 \<and> gd_sel (idt t ! n) = ucast GD_KT \<and>
       gate_off (idt t ! n) = isr_addr s (entry_of n) \<and> gd_dpl (idt t ! n) = (if n = 48 then 3 else 0) \<and>
       gd_type (idt t ! n) = (if n = 32 \<or> n = 33 then STS_IG32 else STS_TG32) \<and> trap_hnd t ! n = handler_of n)"
proof -
  obtain t where t: "kbind trap_init (\<lambda>_. kbind pic_init (\<lambda>_. kbind kbd_init (\<lambda>_. kbind timer_init (\<lambda>_. syscall_init)))) s = Inr ((), t)"
    "idt t = map (gate_for (isr_addr s)) [0..<256]" "trap_hnd t = map handler_of [0..<256]" "idtr_loaded t"
    using init_traps_ok [OF assms] by (auto simp: gview_def)
  have "gd_p (gate_for a n) = 1 \<and> gd_sel (gate_for a n) = ucast GD_KT \<and> gate_off (gate_for a n) = a (entry_of n) \<and>
      gd_dpl (gate_for a n) = (if n = 48 then 3 else 0) \<and> gd_type (gate_for a n) = (if n = 32 \<or> n = 33 then STS_IG32 else STS_TG32)" for a n
    by (auto simp: gate_for_def gate_off_SETGATE trap_numbers)
  then show ?thesis using t by (intro exI [of _ t]) simp
qed

theorem only_syscall_gate_open_witness:
  "\<exists>t. kbind trap_init (\<lambda>_. kbind pic_init (\<lambda>_. kbind kbd_init (\<lambda>_. kbind timer_init (\<lambda>_. syscall_init)))) demo_kernel = Inr ((), t) \<and>
    gd_dpl (idt t ! 14) = 0 \<and> gd_dpl (idt t ! 48) = 3 \<and> gate_off (idt t ! 48) = 0xF0101000"
proof -
  have "gates_ok demo_kernel" "screen_ok demo_kernel" "cons_inv demo_kernel"
    by (simp_all add: demo_kernel_defs gates_ok_def screen_ok_def vga_ok_def cons_defs demo_screen_def objects_ok_def lock_free_def)
  from only_syscall_gate_open [OF this] obtain t where
    t: "kbind trap_init (\<lambda>_. kbind pic_init (\<lambda>_. kbind kbd_init (\<lambda>_. kbind timer_init (\<lambda>_. syscall_init)))) demo_kernel = Inr ((), t)"
    "\<And>n. n < 256 \<Longrightarrow> gate_off (idt t ! n) = isr_addr demo_kernel (entry_of n) \<and> gd_dpl (idt t ! n) = (if n = 48 then 3 else 0)"
    by blast
  show ?thesis using t(1) t(2) [of 14] t(2) [of 48] by (auto simp: demo_kernel_defs)
qed

section \<open>Sleeping\<close>

text \<open>
  C28. A task that asks to sleep while no other task in its run queue can run does not sleep: the system call
  marks the caller as sleeping and returns to it at once, because \<^verbatim>\<open>sched_yield\<close> returns when it finds nothing runnable.
\<close>
theorem sleep_alone_returns:
  assumes "sched_wf s" and "cpu_task (this_cpu s) = Some c" and "state (tasks s ! c) = TASK_RUNNING"
    and "\<forall>i. 0 \<le> i \<and> i < rq_size s \<longrightarrow> \<not> rq_runnable s i"
  shows "do_syscall SYS_sleep n a2 a3 a4 a5 s =
    Inr (Ret 0, s\<lparr>tasks := (tasks s)[c := (tasks s ! c)\<lparr>remind_ticks := n, state := TASK_SLEEP\<rparr>]\<rparr>)"
proof -
  let ?t = "s\<lparr>tasks := (tasks s)[c := (tasks s ! c)\<lparr>remind_ticks := n, state := TASK_SLEEP\<rparr>]\<rparr>"
  note w = sched_wf_simps [OF assms(1)]
  have c: "c < 32" using assms(1,2) w(3) by (auto simp: sched_wf_def this_cpu_def NCPU_def NR_TASKS_def)
  have wf: "sched_wf ?t"
    using assms(1,3) c by (auto simp: sched_wf_def NR_TASKS_def nth_list_update pgdir_ok_def cpunum_def)
  have same: "rq_size ?t = rq_size s" "rq_pid ?t i = rq_pid s i" "rq_runnable ?t i \<Longrightarrow> rq_runnable s i" for i
    using w(1) c by (auto simp: rq_size_def rq_pid_def rq_runnable_def this_cpu_def cpunum_def nth_list_update split: if_splits)
  have "\<not> rq_runnable ?t (rq_pos ?t k)" if "k < nat (rq_size ?t)" for k
  proof -
    have "0 \<le> rq_pos ?t k" "rq_pos ?t k < rq_size s" using that by (simp_all add: rq_pos_def same(1))
    then show ?thesis using assms(4) same(3) by blast
  qed
  then have "sched_yield ?t = Inr (Ret (), ?t)" using sched_yield_search [OF wf] search_none by metis
  then show ?thesis
    using w(1-3) c assms(2)
    by (simp add: do_syscall_def SYS_sleep_def SYS_fork_def SYS_getc_def SYS_puts_def SYS_getpid_def SYS_getcid_def kbind_apply
        cur_task_def thiscpu_ok upd_task_ok flow_as_def)
qed

theorem sleep_alone_returns_witness:
  "\<exists>t. do_syscall SYS_sleep 10 0 0 0 0 (demo_kernel\<lparr>tasks := (tasks demo_kernel)[2 := demo_task 2 TASK_SLEEP 5]\<rparr>) = Inr (Ret 0, t) \<and>
    state (tasks t ! 0) = TASK_SLEEP"
proof -
  let ?s = "demo_kernel\<lparr>tasks := (tasks demo_kernel)[2 := demo_task 2 TASK_SLEEP 5]\<rparr>"
  have c: "cpunum ?s = 0" by (simp add: cpunum_def demo_kernel_defs)
  have wf: "sched_wf ?s"
    using demo_kernel_wf c by (auto simp: sched_wf_def NR_TASKS_def nth_list_update pgdir_ok_def demo_kernel_sel(1) demo_task_def)
  have st: "cpu_task (this_cpu ?s) = Some 0" "state (tasks ?s ! 0) = TASK_RUNNING" "rq_size ?s = 3"
    unfolding this_cpu_def rq_size_def c by (simp_all add: demo_kernel_sel demo_cpus_def demo_task_def)
  have "\<not> rq_runnable ?s i" if "0 \<le> i" "i < 3" for i
  proof -
    have "i = 0 \<or> i = 1 \<or> i = 2" using that by linarith
    then show ?thesis
      unfolding rq_runnable_def rq_pid_def this_cpu_def c by (auto simp: demo_kernel_sel demo_cpus_def demo_task_def)
  qed
  then show ?thesis using sleep_alone_returns [OF wf st(1,2)] st(3) by (simp add: demo_kernel_sel)
qed

section \<open>A system call from end to end\<close>

text \<open>
  What \<^verbatim>\<open>int $T_SYSCALL\<close> does to a user program that the kernel returns to: the entry code has pushed the program's
  registers, the trap number and the user's code segment, \<^verbatim>\<open>default_trap_handler\<close> runs, and the registers of the frame
  it names are loaded. A call that switches to another task does not come back here.
\<close>

definition syscall_frame :: "PushRegs \<Rightarrow> Trapframe \<Rightarrow> Trapframe" where
  "syscall_frame r f = f\<lparr>tf_regs := r, tf_trapno := of_nat T_SYSCALL, tf_cs := ucast GD_UT OR 3\<rparr>"

definition int48 :: "PushRegs \<Rightarrow> ('a kernel_scheme, u32) kfun" where
  "int48 r =
     kbind (kmodify (\<lambda>s. s\<lparr>stack_tf := syscall_frame r (stack_tf s)\<rparr>)) (\<lambda>_.
     kbind (default_trap_handler StackFrame) (\<lambda>e.
     case e of
       PopTf p \<Rightarrow> kbind (read_tf p) (\<lambda>f. kreturn (reg_eax (tf_regs f)))
     | _ \<Rightarrow> kfail Hang))"

text \<open>The state in which the call itself runs: the frame is saved in the calling task, interrupts are off.\<close>

definition in_call :: "nat \<Rightarrow> PushRegs \<Rightarrow> 'a kernel_scheme \<Rightarrow> 'a kernel_scheme" where
  "in_call c r s = s\<lparr>stack_tf := syscall_frame r (stack_tf s), last_tf := Some StackFrame, if_flag := False,
     tasks := (tasks s)[c := (tasks s ! c)\<lparr>tf := syscall_frame r (stack_tf s)\<rparr>]\<rparr>"

definition call_ready :: "nat \<Rightarrow> 'a kernel_scheme \<Rightarrow> bool" where
  "call_ready c s \<longleftrightarrow> length (trap_hnd s) = 256 \<and> trap_hnd s ! T_SYSCALL = Some H_syscall \<and> cpunum s < length (cpus s) \<and>
     cpu_task (this_cpu s) = Some c \<and> c < length (tasks s)"

lemma syscall_frame_sel [simp]:
  "tf_regs (syscall_frame r f) = r" "tf_trapno (syscall_frame r f) = 48" "tf_cs (syscall_frame r f) AND 3 = 3"
  by (simp_all add: syscall_frame_def T_SYSCALL_def GD_UT_def)

lemma set_tf_eax: "t\<lparr>tf := tf_set_eax v (tf t)\<rparr> = set_eax v t"
  by (simp add: tf_set_eax_def set_eax_def)

lemma cpunum_same: "cpunum (s\<lparr>stack_tf := f, last_tf := p, if_flag := b\<rparr>) = cpunum s"
  by (simp add: cpunum_def)

lemma int48_ok:
  assumes r: "call_ready c s" and v: "do_syscall (reg_eax r) (reg_edx r) (reg_ecx r) (reg_ebx r) (reg_edi r) (reg_esi r) (in_call c r s) = Inr (Ret v, t)"
    and c: "c < length (tasks t)"
  shows "int48 r s = Inr (v, t\<lparr>tasks := (tasks t)[c := set_eax v (tasks t ! c)]\<rparr>)"
proof -
  let ?f = "syscall_frame r (stack_tf s)"
  let ?s = "s\<lparr>stack_tf := ?f, last_tf := Some StackFrame, if_flag := False\<rparr>"
  have cpu: "thiscpu ?s = Inr (this_cpu s, ?s)" "cpu_task (this_cpu s) = Some c"
    using r by (simp_all add: call_ready_def thiscpu_ok this_cpu_def cpunum_same)
  have l: "c < length (tasks s)" "48 < length (trap_hnd s)" "trap_hnd s ! 48 = Some H_syscall"
    using r by (simp_all add: call_ready_def T_SYSCALL_def)
  have "in_call c r s = ?s\<lparr>tasks := (tasks s)[c := (tasks s ! c)\<lparr>tf := ?f\<rparr>]\<rparr>" by (simp add: in_call_def)
  with v cpu l c show ?thesis
    by (simp add: int48_def default_trap_handler_def trap_dispatch_def read_tf_def kbind_apply IRQ_OFFSET_def IRQ_SPURIOUS_def
        trap_hnd_at_def save_user_tf_def cur_task_def upd_task_ok get_task_ok run_handler_def syscall_handler_def Let_def
        upd_tf_def set_tf_eax) (simp add: set_eax_def)
qed


text \<open>A user program on the example machine, with the handler of the system call registered.\<close>

definition demo_program :: "kernel ustate" where
  "demo_program = \<lparr>umem = \<lparr>blk = (\<lambda>_. []), bbase = (\<lambda>_. 0)\<rparr>, hist_head = 0, hist_tail = 0, hist_curr = 0, tab_idx = 0,
     is_tab = False, is_found = False, world = demo_kernel\<lparr>trap_hnd := (replicate 256 None)[T_SYSCALL := Some H_syscall]\<rparr>\<rparr>"

text \<open>
  C17. A system call reaches the kernel and its result the caller: when a user program calls \<^verbatim>\<open>syscall\<close> (\<^verbatim>\<open>lib/syscall.c\<close>) with a
  number and five arguments, the trap runs \<^verbatim>\<open>do_syscall\<close> (\<^verbatim>\<open>kernel/syscall.c\<close>) with that number and those arguments in that
  order, on behalf of the processor's current task; if the call returns, the stub returns the value of
  \<^verbatim>\<open>do_syscall\<close> as a signed number, which is also what the task's saved register \<^verbatim>\<open>eax\<close> then holds.
\<close>
theorem syscall_roundtrip:
  assumes "os_int48 os = int48" and "call_ready c (world u)" and "r = syscall_regs n a1 a2 a3 a4 a5"
    and "do_syscall n a1 a2 a3 a4 a5 (in_call c r (world u)) = Inr (Ret v, t)" and "c < length (tasks t)"
  shows "syscall os n a1 a2 a3 a4 a5 u = Inr (sint v, u\<lparr>world := t\<lparr>tasks := (tasks t)[c := set_eax v (tasks t ! c)]\<rparr>\<rparr>)"
  using int48_ok [OF assms(2), of r v t] assms
  by (simp add: syscall_def syscall_regs_def in_world_def kbind_apply)

theorem syscall_roundtrip_witness:
  "\<exists>u. settextcolor \<lparr>os_int48 = int48, os_puts = k_puts\<rparr> 4 2 demo_program = Inr ((), u) \<and> attrib (world u) = 0x24"
proof -
  let ?os = "\<lparr>os_int48 = int48, os_puts = k_puts\<rparr> :: kernel os" and ?s = "world demo_program"
  let ?r = "syscall_regs SYS_settextcolor 4 2 0 0 0"
  have c: "cpunum ?s = 0" by (simp add: demo_program_def cpunum_def demo_kernel_defs)
  have ready: "call_ready 0 ?s"
    unfolding call_ready_def this_cpu_def c
    by (simp add: demo_program_def T_SYSCALL_def demo_kernel_sel demo_cpus_def)
  have "do_syscall SYS_settextcolor 4 2 0 0 0 (in_call 0 ?r ?s) = Inr (Ret 0, (in_call 0 ?r ?s)\<lparr>attrib := 0x24\<rparr>)"
    by (simp add: do_syscall_def SYS_settextcolor_def SYS_sleep_def SYS_fork_def SYS_getc_def SYS_puts_def SYS_getpid_def SYS_getcid_def
        SYS_kill_def SYS_get_num_free_page_def SYS_get_num_used_page_def SYS_get_ticks_def ret_as_def sys_settextcolor_def kbind_apply)
  from syscall_roundtrip [OF _ ready refl this, of ?os] show ?thesis
    by (simp add: settextcolor_def kbind_apply in_call_def demo_program_def demo_kernel_sel)
qed

end
