(* ===== verification/Lines.thy ===== *)
theory Lines
  imports Calls
begin

text \<open>
  The line editor of user programs (\<^verbatim>\<open>lib/readline.c\<close>) on the kernel: a locale states what it needs of the operating
  system, the kernel's console, system calls and screen provide it, and a typed line arrives in the program's buffer.
\<close>

section \<open>Formats\<close>

lemma format_char: "format (str ''%c'') [VW w] = Inr [sint w]"
  by (simp add: format_def vprintfmt_def str_def fflags_init_def convert_def ksum_def kbind_apply logch_def)

lemma fmt_str_loop_log: "fmt_str_loop logch False cs (- 1) w l = Inr (w - int (length cs), l @ map sint cs)"
  by (induction cs arbitrary: w l) (simp_all add: kbind_apply logch_def)

lemma format_string: "\<exists>cs. format (str ''%s'') [VS p] = Inr cs"
  by (simp add: format_def vprintfmt_def str_def fflags_init_def convert_def ksum_def kbind_apply kwhen_apply fmt_string_def fmt_str_loop_log
      kfor_logch Let_def)

section \<open>The line editor\<close>

text \<open>
  What the editor relies on: the system call \<^verbatim>\<open>puts\<close> writes its bytes and leaves the waiting input alone; \<^verbatim>\<open>getc\<close> takes the first
  byte of it.
\<close>

locale console = byte_sink "os_puts os" for os :: "'w os" +
  fixes ok :: "'w \<Rightarrow> bool" and input :: "'w \<Rightarrow> u8 list"
  assumes puts_ok: "ok w \<Longrightarrow> \<exists>w'. os_puts os bs w = Inr ((), w') \<and> ok w' \<and> input w' = input w"
    and getc_ok: "ok w \<Longrightarrow> input w = k # ks \<Longrightarrow>
      \<exists>w'. os_int48 os (syscall_regs SYS_getc 0 0 0 0 0) w = Inr (ucast k, w') \<and> ok w' \<and> input w' = ks"

text \<open>The line after a key: a printable character is added while there is room, a backspace takes the last one away.\<close>

definition edit :: "u8 list \<Rightarrow> u8 \<Rightarrow> u8 list" where
  "edit l k = (if k = 8 \<or> k = 0x7F then butlast l
     else if 32 \<le> k \<and> k \<le> 0x7E \<and> length l < 1023 then l @ [k] else l)"

definition plain_key :: "u8 \<Rightarrow> bool" where
  "plain_key k \<longleftrightarrow> k < 0x80 \<and> k \<notin> {0, 9, 10, 12, 13}"

definition line :: "u8 list \<Rightarrow> 'w ustate \<Rightarrow> bool" where
  "line l s \<longleftrightarrow> length (blk (umem s) 0) = 1024 \<and> length l \<le> 1023 \<and> take (length l) (blk (umem s) 0) = l \<and>
     \<not> (is_tab s \<and> is_found s)"

text \<open>Only the world and the line buffer differ.\<close>

definition only_buf :: "'w ustate \<Rightarrow> 'w ustate \<Rightarrow> bool" where
  "only_buf s t \<longleftrightarrow> (\<exists>w b. t = s\<lparr>world := w, umem := (umem s)\<lparr>blk := (blk (umem s))(0 := b)\<rparr>\<rparr>)"

lemma only_buf_refl: "only_buf s (s\<lparr>world := w\<rparr>)"
  unfolding only_buf_def by (intro exI [of _ w] exI [of _ "blk (umem s) 0"]) simp

lemma only_buf_trans: "only_buf s t \<Longrightarrow> only_buf t u \<Longrightarrow> only_buf s u"
  unfolding only_buf_def by force

lemma line_world [simp]: "line l (s\<lparr>world := w\<rparr>) = line l s"
  by (simp add: line_def)

lemma store_buf:
  assumes "line l s" and "i \<le> 1023"
  shows "in_umem (store (buf_at (int i)) k) s = Inr ((), s\<lparr>umem := set_byte 0 i k (umem s)\<rparr>)"
  using assms by (simp add: in_umem_def buf_at_def line_def)

lemma line_snoc:
  assumes "line l s" and "length l < 1023"
  shows "line (l @ [k]) (s\<lparr>umem := set_byte 0 (length l) k (umem s)\<rparr>)"
  using assms by (simp add: line_def blk_set_byte take_Suc_conv_app_nth)

lemma line_butlast: "line l s \<Longrightarrow> line (butlast l) s"
  unfolding line_def by (auto simp: butlast_conv_take) (metis diff_le_self min.absorb1 take_take)+

lemma sint_byte: "sint (ucast (k :: u8) :: u32) = uint k"
proof -
  have "uint k < 256" "0 \<le> uint k" using unsigned_less [of k] by simp_all
  then have "signed_take_bit 31 (uint k) = uint k"
    unfolding signed_take_bit_int_eq_self_iff by (auto intro: order_trans [of _ 0])
  then show ?thesis using \<open>uint k < 256\<close> by (simp add: sint_uint unsigned_ucast_eq take_bit_int_eq_self)
qed

context console
begin

lemma out_ok:
  assumes "ok (world s)" and "format (str fmt) ap = Inr cs"
  shows "\<exists>w. out os fmt ap s = Inr ((), s\<lparr>world := w\<rparr>) \<and> ok w \<and> input w = input (world s)"
  using puts_ok [OF assms(1), of "map of_int cs"]
  by (auto simp: out_def in_world_def cprintf_def kbind_apply vcprintf_puts [OF assms(2)])

lemma getchar_ok:
  assumes "ok (world s)" and "input (world s) = k # ks" and "k \<noteq> 0"
  shows "\<exists>w. getchar (Suc n) os s = Inr (uint k, s\<lparr>world := w\<rparr>) \<and> ok w \<and> input w = ks"
proof -
  obtain w where w: "os_int48 os (syscall_regs SYS_getc 0 0 0 0 0) (world s) = Inr (ucast k, w)" "ok w" "input w = ks"
    using getc_ok [OF assms(1,2)] by blast
  have "uint k \<noteq> 0" using assms(3) by (simp add: unsigned_eq_0_iff)
  then have "getchar (Suc n) os s = Inr (uint k, s\<lparr>world := w\<rparr>)"
    using w(1) by (simp add: getc_def syscall_def in_world_def kbind_apply sint_byte)
  then show ?thesis using w(2,3) by blast
qed

lemma rl_key_plain:
  assumes "ok (world s)" and "line l s" and "plain_key k"
  shows "\<exists>t. rl_key os prompt (uint k) (int (length l)) s = Inr (More (int (length (edit l k))), t) \<and>
    line (edit l k) t \<and> only_buf s t \<and> ok (world t) \<and> input (world t) = input (world s)"
proof -
  have k: "uint k < 0x80" "uint k \<noteq> 9" "uint k \<noteq> 10" "uint k \<noteq> 12" "uint k \<noteq> 13" "0 \<le> uint k"
    using assms(3) by (simp_all add: plain_key_def word_less_alt word_uint_eq_iff)
  have e: "k = 8 \<longleftrightarrow> uint k = 8" "k = 0x7F \<longleftrightarrow> uint k = 0x7F" "32 \<le> k \<longleftrightarrow> 32 \<le> uint k" "k \<le> 0x7E \<longleftrightarrow> uint k \<le> 0x7E"
    by (simp_all add: word_uint_eq_iff word_le_def)
  have nochange: ?thesis if "rl_key os prompt (uint k) (int (length l)) s = Inr (More (int (length l)), s)" "edit l k = l"
    using that assms(1,2) only_buf_refl [of s "world s"] by (intro exI [of _ s]) simp
  consider (del) "uint k = 8 \<or> uint k = 0x7F" "l \<noteq> []" | (none) "uint k = 8 \<or> uint k = 0x7F" "l = []"
    | (add) "uint k \<noteq> 8" "32 \<le> uint k" "uint k \<le> 0x7E" "length l < 1023"
    | (ignore) "uint k \<noteq> 8" "uint k \<noteq> 0x7F" "\<not> (32 \<le> uint k \<and> uint k \<le> 0x7E \<and> length l < 1023)"
    using k(1) by linarith
  then show ?thesis
  proof cases
    case del
    obtain w where w: "out os backspace [] s = Inr ((), s\<lparr>world := w\<rparr>)" "ok w" "input w = input (world s)"
      using out_ok [OF assms(1) format_plain, of backspace "[]"] by (auto simp: backspace_def str_def)
    have "rl_key os prompt (uint k) (int (length l)) s = Inr (More (int (length (edit l k))), s\<lparr>world := w\<rparr>)"
      using del k w(1) by (auto simp: rl_key_def edit_def e kbind_apply of_nat_diff Suc_le_eq)
    moreover have "line (edit l k) s" using del line_butlast [OF assms(2)] by (auto simp: edit_def e)
    ultimately show ?thesis using w(2,3) only_buf_refl [of s w] by auto
  next
    case none
    then show ?thesis using k by (intro nochange) (auto simp: rl_key_def edit_def e)
  next
    case add
    let ?u = "\<lambda>w. s\<lparr>world := w, umem := set_byte 0 (length l) k (umem s)\<rparr>"
    obtain w where w: "out os ''%c'' [VW (of_int (uint k))] s = Inr ((), s\<lparr>world := w\<rparr>)" "ok w" "input w = input (world s)"
      using out_ok [OF assms(1) format_char] by blast
    have ed: "edit l k = l @ [k]" using add by (auto simp: edit_def e)
    have "rl_key os prompt (uint k) (int (length l)) s = Inr (More (int (length (edit l k))), ?u w)"
      using add k w(1) store_buf [of l "s\<lparr>world := w\<rparr>" "length l" k] assms(2) by (simp add: rl_key_def ed kbind_apply BUFLEN_def)
    moreover have "line (edit l k) (?u w)" unfolding ed using line_snoc [of l "s\<lparr>world := w\<rparr>" k] assms(2) add(4) by simp
    moreover have "only_buf s (?u w)" unfolding only_buf_def set_byte_def by blast
    ultimately show ?thesis using w(2,3) by (intro exI [of _ "?u w"]) simp
  next
    case ignore
    then show ?thesis using k by (intro nochange) (auto simp: rl_key_def edit_def e BUFLEN_def)
  qed
qed

lemma accept_none: "line l s \<Longrightarrow> accept_completion c i s = Inr (i, s)"
  by (auto simp: accept_completion_def line_def kbind_apply)

lemma rl_key_return:
  assumes "ok (world s)" and "line l s" and "(k :: u8) = 10 \<or> k = 13"
  shows "\<exists>t. rl_key os prompt (uint k) (int (length l)) s = Inr (Done (Some (buf_at 0)), t) \<and> only_buf s t \<and>
    length (blk (umem t) 0) = 1024 \<and> take (Suc (length l)) (blk (umem t) 0) = l @ [0] \<and> ok (world t) \<and> input (world t) = input (world s)"
proof -
  obtain w where w: "out os nl [] s = Inr ((), s\<lparr>world := w\<rparr>)" "ok w" "input w = input (world s)"
    using out_ok [OF assms(1) format_plain, of nl "[]"] by (auto simp: nl_def str_def)
  let ?t = "s\<lparr>world := w, umem := set_byte 0 (length l) 0 (umem s)\<rparr>"
  have l: "length (blk (umem s) 0) = 1024" "length l \<le> 1023" "take (length l) (blk (umem s) 0) = l"
    using assms(2) by (simp_all add: line_def)
  have k: "uint k = 10 \<or> uint k = 13" using assms(3) by auto
  have "rl_key os prompt (uint k) (int (length l)) s = Inr (Done (Some (buf_at 0)), ?t)"
    using w(1) store_buf [of l "s\<lparr>world := w\<rparr>" "length l" 0] assms(2) l(2) k
    by (elim disjE) (simp_all add: rl_key_def kbind_apply)
  moreover have "only_buf s ?t" unfolding only_buf_def set_byte_def by blast
  moreover have "take (Suc (length l)) (blk (umem ?t) 0) = l @ [0]" using l by (simp add: blk_set_byte take_Suc_conv_app_nth)
  ultimately show ?thesis using w(2,3) l(1) by (intro exI [of _ ?t]) simp
qed

lemma rl_loop_line:
  assumes "ok (world s)" and "line l s" and "input (world s) = ks @ k # rest" and "\<forall>x \<in> set ks. plain_key x" and "k = 10 \<or> k = 13"
  shows "\<exists>t. rl_loop (Suc (length ks + n)) os prompt (int (length l)) s = Inr (Some (buf_at 0), t) \<and> only_buf s t \<and>
    length (blk (umem t) 0) = 1024 \<and> take (Suc (length (foldl edit l ks))) (blk (umem t) 0) = foldl edit l ks @ [0] \<and>
    ok (world t) \<and> input (world t) = rest"
  using assms
proof (induction ks arbitrary: s l)
  case Nil
  then obtain w where w: "getchar (Suc n) os s = Inr (uint k, s\<lparr>world := w\<rparr>)" "ok w" "input w = rest"
    using getchar_ok [of s k rest n] by auto
  let ?s = "s\<lparr>world := w\<rparr>"
  have l: "line l ?s" using Nil.prems(2) by simp
  obtain t where t: "rl_key os prompt (uint k) (int (length l)) ?s = Inr (Done (Some (buf_at 0)), t)" "only_buf ?s t"
    "length (blk (umem t) 0) = 1024" "take (Suc (length l)) (blk (umem t) 0) = l @ [0]" "ok (world t)" "input (world t) = rest"
    using rl_key_return [OF _ l Nil.prems(5)] w(2,3) by auto
  have "rl_loop (Suc (length [] + n)) os prompt (int (length l)) s = Inr (Some (buf_at 0), t)"
    using w(1) t(1) accept_none [OF l] by (simp add: kbind_apply del: getchar.simps)
  then show ?case using t(3-6) only_buf_trans [OF only_buf_refl t(2)] by auto
next
  case (Cons x ks)
  then have x: "plain_key x" "x \<noteq> 0" by (auto simp: plain_key_def)
  then obtain w where w: "getchar (Suc (Suc (length ks + n))) os s = Inr (uint x, s\<lparr>world := w\<rparr>)" "ok w" "input w = ks @ k # rest"
    using getchar_ok [of s x "ks @ k # rest"] Cons.prems(1,3) by auto
  let ?s = "s\<lparr>world := w\<rparr>"
  have l: "line l ?s" using Cons.prems(2) by simp
  obtain u where u: "rl_key os prompt (uint x) (int (length l)) ?s = Inr (More (int (length (edit l x))), u)"
    "line (edit l x) u" "only_buf ?s u" "ok (world u)" "input (world u) = ks @ k # rest"
    using rl_key_plain [OF _ l x(1)] w(2,3) by auto
  have "rl_loop (Suc (length (x # ks) + n)) os prompt (int (length l)) s =
      rl_loop (Suc (length ks + n)) os prompt (int (length (edit l x))) u"
    using w(1) u(1) accept_none [OF l] by (simp add: kbind_apply del: getchar.simps)
  then show ?case
    using Cons.IH [OF u(4,2,5) _ Cons.prems(5)] Cons.prems(4) only_buf_trans [OF only_buf_trans [OF only_buf_refl u(3)]] by auto
qed

lemma readline_line:
  assumes "ok (world s)" and "length (blk (umem s) 0) = 1024" and "\<not> (is_tab s \<and> is_found s)"
    and "input (world s) = ks @ k # rest" and "\<forall>x \<in> set ks. plain_key x" and "k = 10 \<or> k = 13"
  shows "\<exists>t. readline (Suc (length ks + n)) os prompt s = Inr (Some (buf_at 0), t) \<and> only_buf s t \<and>
    length (blk (umem t) 0) = 1024 \<and> take (Suc (length (foldl edit [] ks))) (blk (umem t) 0) = foldl edit [] ks @ [0] \<and>
    ok (world t) \<and> input (world t) = rest"
proof -
  obtain w where w: "kwhen (prompt \<noteq> None) (out os ''%s'' [VS prompt]) s = Inr ((), s\<lparr>world := w\<rparr>)" "ok w" "input w = input (world s)"
    using out_ok [OF assms(1), of "''%s''" "[VS prompt]"] format_string [of prompt] assms(1) by (cases prompt) (force simp: kwhen_apply)+
  let ?s = "s\<lparr>world := w\<rparr>"
  have "line [] ?s" using assms(2,3) by (simp add: line_def)
  from rl_loop_line [OF _ this _ assms(5,6), of rest n prompt] w assms(4) obtain t where
    t: "rl_loop (Suc (length ks + n)) os prompt 0 ?s = Inr (Some (buf_at 0), t)" "only_buf ?s t"
    "length (blk (umem t) 0) = 1024" "take (Suc (length (foldl edit [] ks))) (blk (umem t) 0) = foldl edit [] ks @ [0]"
    "ok (world t)" "input (world t) = rest" by auto
  then show ?thesis
    using w(1) only_buf_trans [OF only_buf_refl t(2)] by (auto simp: readline_def kbind_apply simp del: rl_loop.simps)
qed

end

section \<open>The editor on the kernel\<close>

text \<open>
  The kernel as the operating system of a user program that is the current task \<open>c\<close>. Input goes through the whole trap. The
  bytes of \<^verbatim>\<open>puts\<close> lie in the program's own memory, which the model keeps apart from the machine's; what \<^verbatim>\<open>do_puts\<close> does with
  them, one \<^verbatim>\<open>k_putch\<close> each, is \<open>k_puts\<close>.
\<close>

definition kernel_os :: "'a kernel_scheme os" where
  "kernel_os = \<lparr>os_int48 = int48, os_puts = k_puts\<rparr>"

definition console_ok :: "nat \<Rightarrow> 'a kernel_scheme \<Rightarrow> bool" where
  "console_ok c s \<longleftrightarrow> call_ready c s \<and> screen_ok s \<and> cons_inv s"

lemma k_puts_console:
  assumes "console_ok c s"
  shows "\<exists>t. k_puts bs s = Inr ((), t) \<and> console_ok c t \<and> cons_queue t = cons_queue s"
proof -
  obtain t where t: "k_puts bs s = Inr ((), t)" "screen_ok t"
    using putch_all_ok [of s bs] assms unfolding console_ok_def k_puts_def by blast
  have "on_screen (k_puts bs :: ('a kernel_scheme, unit) kfun)" unfolding k_puts_def by (intro screen_frames)
  then have f: "screen_frame s t" using t(1) by (auto simp: on_screen_def)
  then have "call_ready c t = call_ready c s" "cons_inv t = cons_inv s" "cons_queue t = cons_queue s"
    by (auto simp: screen_frame_def call_ready_def this_cpu_def cpunum_def cons_defs)
  then show ?thesis using t assms by (auto simp: console_ok_def)
qed

lemma int48_getc:
  assumes "console_ok c s" and "cons_queue s = k # ks"
  shows "\<exists>t. int48 (syscall_regs SYS_getc 0 0 0 0 0) s = Inr (ucast k, t) \<and> console_ok c t \<and> cons_queue t = ks"
proof -
  let ?r = "syscall_regs SYS_getc 0 0 0 0 0"
  let ?s = "in_call c ?r s"
  have r: "call_ready c s" "screen_ok s" "cons_inv s" using assms(1) by (simp_all add: console_ok_def)
  have q: "cons_inv ?s" "cons_queue ?s = k # ks" using r(3) assms(2) by (simp_all add: in_call_def cons_defs)
  obtain t where t: "cons_getc ?s = Inr (uint k, t)" "cons_inv t" "cons_queue t = ks" using cq.get_first [OF q] by blast
  have "\<exists>p. t = ?s\<lparr>cons_rpos := p\<rparr>" using t(1) q(2) by (auto simp: cons_getc_def cons_defs split: if_splits)
  then obtain p where p: "t = ?s\<lparr>cons_rpos := p\<rparr>" by blast
  have c: "c < length (tasks t)" using r(1) by (simp add: p in_call_def call_ready_def)
  have "do_syscall (reg_eax ?r) (reg_edx ?r) (reg_ecx ?r) (reg_ebx ?r) (reg_edi ?r) (reg_esi ?r) ?s = Inr (Ret (ucast k), t)"
    using t(1) by (simp add: syscall_regs_def do_syscall_def SYS_getc_def SYS_fork_def ret_as_def do_getc_def k_getc_def kbind_apply)
  from int48_ok [OF r(1) this c]
  have i: "int48 ?r s = Inr (ucast k, t\<lparr>tasks := (tasks t)[c := set_eax (ucast k) (tasks t ! c)]\<rparr>)" .
  let ?u = "t\<lparr>tasks := (tasks t)[c := set_eax (ucast k) (tasks t ! c)]\<rparr>"
  have "call_ready c ?u" using r(1) by (auto simp: p in_call_def call_ready_def this_cpu_def cpunum_def split: if_splits)
  moreover have "screen_ok ?u" using r(2) by (simp add: p in_call_def screen_ok_def)
  moreover have "cons_inv ?u" "cons_queue ?u = ks" using t(2,3) by (simp_all add: cons_defs)
  ultimately show ?thesis using i unfolding console_ok_def by blast
qed

interpretation kernel_console: console kernel_os "console_ok c" cons_queue
proof unfold_locales
  fix w :: "'a kernel_scheme" and bs as k ks
  show "os_puts kernel_os [] = (kreturn () :: ('a kernel_scheme, unit) kfun)" by (simp add: kernel_os_def k_puts_def)
  show "os_puts kernel_os (as @ bs) = kbind (os_puts kernel_os as) (\<lambda>_. os_puts kernel_os bs :: ('a kernel_scheme, unit) kfun)"
    by (simp add: kernel_os_def k_puts_def kfor_append)
  show "console_ok c w \<Longrightarrow> \<exists>w'. os_puts kernel_os bs w = Inr ((), w') \<and> console_ok c w' \<and> cons_queue w' = cons_queue w"
    using k_puts_console by (simp add: kernel_os_def)
  show "console_ok c w \<Longrightarrow> cons_queue w = k # ks \<Longrightarrow>
      \<exists>w'. os_int48 kernel_os (syscall_regs SYS_getc 0 0 0 0 0) w = Inr (ucast k, w') \<and> console_ok c w' \<and> cons_queue w' = ks"
    using int48_getc by (simp add: kernel_os_def)
qed

section \<open>Properties\<close>

text \<open>
  C15. A typed line arrives in the program's buffer: on the kernel, with the characters of a line waiting in the console buffer and
  the return key behind them, \<^verbatim>\<open>readline\<close> (\<^verbatim>\<open>lib/readline.c\<close>) prints, polls the system call \<^verbatim>\<open>getc\<close> until it sees the return key and
  returns its buffer. That holds the edited line (each backspace has taken away the last character, characters beyond
  the buffer's 1023 are dropped) and a zero byte. No other object of the program is written, and the characters
  behind the line still wait. Tabulator, arrow and form-feed keys are excluded.
\<close>
theorem readline_reads_line:
  assumes "console_ok c (world s)" and "length (blk (umem s) 0) = BUF_LEN" and "\<not> (is_tab s \<and> is_found s)"
    and "cons_queue (world s) = ks @ k # rest" and "\<forall>x \<in> set ks. plain_key x" and "k = 10 \<or> k = 13"
  shows "\<exists>t. readline (Suc (length ks + n)) kernel_os prompt s = Inr (Some (buf_at 0), t) \<and>
    take (Suc (length (foldl edit [] ks))) (blk (umem t) 0) = foldl edit [] ks @ [0] \<and>
    (\<forall>b. b \<noteq> 0 \<longrightarrow> blk (umem t) b = blk (umem s) b) \<and> console_ok c (world t) \<and> cons_queue (world t) = rest"
proof -
  have "length (blk (umem s) 0) = 1024" using assms(2) by (simp add: BUF_LEN_def)
  from kernel_console.readline_line [OF assms(1) this assms(3-6), of n prompt]
  show ?thesis by (auto simp: only_buf_def)
qed

text \<open>The keys \<^verbatim>\<open>a\<close>, \<^verbatim>\<open>b\<close>, backspace, \<^verbatim>\<open>c\<close> and return.\<close>

theorem readline_reads_line_witness:
  "\<exists>t. readline 5 kernel_os None (demo_program\<lparr>umem := \<lparr>blk = (\<lambda>_. replicate 1024 1), bbase = (\<lambda>_. 0)\<rparr>,
      world := (world demo_program)\<lparr>cons_buf := [0x61, 0x62, 8, 0x63, 13] @ replicate 507 0, cons_rpos := 0, cons_wpos := 5\<rparr>\<rparr>) =
    Inr (Some (buf_at 0), t) \<and> take 3 (blk (umem t) 0) = [0x61, 0x63, 0]"
proof -
  let ?w = "(world demo_program)\<lparr>cons_buf := [0x61, 0x62, 8, 0x63, 13] @ replicate 507 0, cons_rpos := 0, cons_wpos := 5\<rparr>"
  let ?s = "demo_program\<lparr>umem := \<lparr>blk = (\<lambda>_. replicate 1024 1), bbase = (\<lambda>_. 0)\<rparr>, world := ?w\<rparr>"
  have c: "cpunum ?w = 0" by (simp add: demo_program_def cpunum_def demo_kernel_defs)
  have "call_ready 0 ?w"
    unfolding call_ready_def this_cpu_def c by (simp add: demo_program_def T_SYSCALL_def demo_kernel_sel demo_cpus_def)
  moreover have "screen_ok ?w" "cons_inv ?w"
    by (simp_all add: demo_program_def demo_kernel_defs screen_ok_def vga_ok_def cons_defs demo_screen_def objects_ok_def lock_free_def)
  ultimately have ok: "console_ok 0 (world ?s)" by (simp add: console_ok_def)
  have q: "cons_queue (world ?s) = [0x61, 0x62, 8, 0x63] @ 13 # []"
    by (simp add: cons_defs upt_rec)
  have e: "foldl edit [] [0x61, 0x62, 8, 0x63] = [0x61, 0x63]" by (simp add: edit_def)
  have "\<forall>x \<in> set [0x61, 0x62, 8, 0x63]. plain_key x" by (simp add: plain_key_def)
  from readline_reads_line [OF ok _ _ q this, of 0 None, unfolded e] show ?thesis
    by (auto simp: BUF_LEN_def demo_program_def numeral_eq_Suc)
qed

end
