(* ===== verification/Create.thy ===== *)
theory Create
  imports Reach
begin

text \<open>
  New tasks. \<^verbatim>\<open>task_create\<close> (\<^verbatim>\<open>kernel/task.c\<close>) returns when there are pages for an address space, and what the new task's
  page tables then map is given exactly; on top of it \<^verbatim>\<open>task_init_percpu\<close> and \<^verbatim>\<open>task_init\<close>, which give the first
  processor its task.
\<close>

section \<open>The user stack\<close>

definition stack_entry :: "nat \<Rightarrow> u32" where
  "stack_entry fr = page2pa fr OR (PTE_W OR PTE_U) OR PTE_P"

lemma stack_pages: "map PGNUM stack_vas = map (\<lambda>k. 0xEEBFD - k) [0..<10]" "va \<in> set stack_vas \<Longrightarrow> PDX va = 0x3BA"
proof -
  have n: "unat (USR_STACK_SIZE div PGSIZE) = 10" by (simp add: USR_STACK_SIZE_def PGSIZE_def unat_div)
  have a: "unat (USTACKTOP - of_nat k * PGSIZE - PGSIZE) = 0xEEBFD000 - k * 4096" if "k < 10" for k
  proof -
    have "USTACKTOP - of_nat k * PGSIZE - PGSIZE = of_nat (0xEEBFD000 - k * 4096)"
      using that by (simp add: USTACKTOP_def UTOP_def PGSIZE_def of_nat_diff layout_defs)
    moreover have "unat (of_nat (0xEEBFD000 - k * 4096) :: u32) = 0xEEBFD000 - k * 4096" by (rule unat_of_nat_small) simp
    ultimately show ?thesis by simp
  qed
  have p: "PGNUM (USTACKTOP - of_nat k * PGSIZE - PGSIZE) = 0xEEBFD - k" if "k < 10" for k
    using a [OF that] that by (simp add: PGNUM_div)
  show "map PGNUM stack_vas = map (\<lambda>k. 0xEEBFD - k) [0..<10]" unfolding stack_vas_def n by (simp add: p)
  show "va \<in> set stack_vas \<Longrightarrow> PDX va = 0x3BA"
    unfolding stack_vas_def n by (auto simp: PDX_div a)
qed

lemma pt_wf_alloc:
  fixes s :: "'a kmem_scheme" and l f
  assumes inv: "pages_inv s (pp # fl)" and wf: "pt_wf D s pg (pp # fl)"
  defines "t \<equiv> with_lock l (alloc_state f pp s)"
  shows "pt_wf D t pg fl" "pt_view D (pmem t) pg = pt_view D (pmem s) pg" "pmem t pg = pmem s pg"
proof -
  have m: "pmem t fr = pmem s fr" if "fr \<noteq> pp" for fr using that by (simp add: t_def)
  have pg: "pg \<noteq> pp" "PGNUM (pmem s pg i) \<noteq> pp" if "i \<in> D" "present (pmem s pg i)" for i
    using wf pt_wf_table(3) [OF wf that] by (auto simp: pt_wf_def)
  show d: "pmem t pg = pmem s pg" using wf by (intro m) (auto simp: pt_wf_def)
  show "pt_wf D t pg fl" using wf d by (simp add: pt_wf_def pt_frames_def pt_tables_def) (simp add: t_def)
  show "pt_view D (pmem t) pg = pt_view D (pmem s) pg"
    using pg(2) m by (auto simp: pt_view_def d fun_eq_iff)
qed

text \<open>
  From \<open>s\<close> to \<open>t\<close> only free frames and those of the address space \<open>pg\<close> were written, and new page tables lie in frames
  that were free.
\<close>

definition grows :: "'a kmem_scheme \<Rightarrow> nat list \<Rightarrow> nat \<Rightarrow> 'a kmem_scheme \<Rightarrow> bool" where
  "grows s fl pg t \<longleftrightarrow>
     (\<forall>fr. fr \<notin> set fl \<union> insert pg (pt_frames all_tables (pmem s) pg) \<longrightarrow> pmem t fr = pmem s fr) \<and>
     pt_frames all_tables (pmem t) pg \<subseteq> pt_frames all_tables (pmem s) pg \<union> set fl"

lemma grows_refl: "grows s fl pg s"
  by (simp add: grows_def)

lemma grows_trans:
  assumes "grows s fl pg u" and "grows u fl' pg t" and "set fl' \<subseteq> set fl"
  shows "grows s fl pg t"
proof -
  have "pmem t fr = pmem s fr" if fr: "fr \<notin> set fl \<union> insert pg (pt_frames all_tables (pmem s) pg)" for fr
  proof -
    have "fr \<notin> set fl' \<union> insert pg (pt_frames all_tables (pmem u) pg)" using fr assms(1,3) by (auto simp: grows_def)
    then have "pmem t fr = pmem u fr" using assms(2) by (simp add: grows_def)
    also have "\<dots> = pmem s fr" using fr assms(1) by (simp add: grows_def)
    finally show ?thesis .
  qed
  moreover have "pt_frames all_tables (pmem t) pg \<subseteq> pt_frames all_tables (pmem s) pg \<union> set fl"
    using assms unfolding grows_def by blast
  ultimately show ?thesis by (simp add: grows_def)
qed

lemma grows_alloc:
  assumes "pmem t pg = pmem s pg" and "\<And>fr. fr \<noteq> pp \<Longrightarrow> pmem t fr = pmem s fr"
  shows "grows s (pp # fl) pg t" "pt_frames all_tables (pmem t) pg = pt_frames all_tables (pmem s) pg"
  using assms by (auto simp: grows_def pt_frames_def pt_tables_def)

lemma alloc_stack_ok:
  fixes s :: "'a kernel_scheme"
  assumes "pages_inv s fl" and "pt_wf all_tables s pg fl" and "\<forall>va \<in> set vas. PDX va = i" and "i < 1024"
    and "distinct (map PGNUM vas)" and "\<forall>va \<in> set vas. pt_view all_tables (pmem s) pg (PGNUM va) = None"
    and "length vas + (if present (pmem s pg i) then 0 else 1) \<le> length fl"
  shows "\<exists>t fs fl'. alloc_stack pg vas s = Inr (True, t) \<and> pages_inv t fl' \<and> pt_wf all_tables t pg fl' \<and> mem_frame s t \<and>
    length fs = length vas \<and> distinct fs \<and> set fs \<subseteq> set fl \<and> set fl' \<subseteq> set fl - set fs \<and>
    grows s fl pg t \<and> set fs \<inter> pt_frames all_tables (pmem t) pg = {} \<and>
    pt_view all_tables (pmem t) pg = (pt_view all_tables (pmem s) pg)(map PGNUM vas [\<mapsto>] map stack_entry fs)"
  using assms
proof (induction vas arbitrary: s fl)
  case Nil
  then show ?case by (intro exI [of _ s] exI [of _ "[]"] exI [of _ fl]) (simp add: grows_refl)
next
  case (Cons va vas)
  then obtain pp fl1 where fl: "fl = pp # fl1" by (cases fl) auto
  note inv = Cons.prems(1) [unfolded fl] and wf = Cons.prems(2) [unfolded fl]
  have d: "pp \<notin> set fl1" "pp < npages s" using pages_inv_distinct [OF inv] pages_inv_bound [OF inv] by auto
  obtain l where l: "page_alloc ALLOC_ZERO s = Inr (Some pp, with_lock l (alloc_state ALLOC_ZERO pp s))" "lock_free l"
    using page_alloc_Some [OF inv] by blast
  let ?t = "with_lock l (alloc_state ALLOC_ZERO pp s)"
  note w = pt_wf_alloc [OF inv wf, of l ALLOC_ZERO] and ti = pages_inv_alloc [OF inv l(2)]
  have i: "PDX va = i" "PDX va \<in> all_tables" using Cons.prems(3,4) by simp_all
  let ?f = "if present (pmem s pg i) then fl1 else tl fl1"
  have mem: "present (pmem ?t pg (PDX va)) \<or> fl1 \<noteq> []" 
    unfolding w(3) i(1) using Cons.prems(7) by (auto simp: fl split: if_splits)
  have old: "pt_view all_tables (pmem ?t) pg (PGNUM va) = None" using Cons.prems(6) w(2) by simp
  obtain u where u: "page_insert pg pp va (PTE_W OR PTE_U) ?t = Inr (0, u)" "pages_inv u ?f" "pt_wf all_tables u pg ?f"
    "pt_view all_tables (pmem u) pg = (pt_view all_tables (pmem s) pg)(PGNUM va \<mapsto> stack_entry pp)" "mem_frame ?t u"
    "grows ?t fl1 pg u"
    using page_insert_unmapped [OF ti w(1) i(2) mem _ d(1) old, of "PTE_W OR PTE_U"] d(2)
    unfolding w(2,3) i(1) stack_entry_def grows_def by auto
  note a = grows_alloc [of ?t pg s pp, OF w(3)]
  have at: "grows s fl pg ?t" "pt_frames all_tables (pmem ?t) pg = pt_frames all_tables (pmem s) pg" unfolding fl by (rule a; simp)+
  have "pt_view all_tables (pmem u) pg (PGNUM va) \<noteq> None" by (simp add: u(4))
  then have p: "present (pmem u pg i)" by (auto simp: pt_view_PGNUM i(1) split: if_splits)
  have len: "length vas + (if present (pmem u pg i) then 0 else 1) \<le> length ?f"
    using Cons.prems(7) p by (auto simp: fl split: if_splits)
  have sub: "set ?f \<subseteq> set fl1" by (cases fl1) auto
  have pre: "\<forall>x \<in> set vas. PDX x = i" "distinct (map PGNUM vas)" "\<forall>x \<in> set vas. pt_view all_tables (pmem u) pg (PGNUM x) = None"
    using Cons.prems(3,5,6) by (auto simp: u(4) image_iff dest: sym)
  obtain t fs fl' where t: "alloc_stack pg vas u = Inr (True, t)" "pages_inv t fl'" "pt_wf all_tables t pg fl'" "mem_frame u t"
    "length fs = length vas" "distinct fs" "set fs \<subseteq> set ?f" "set fl' \<subseteq> set ?f - set fs"
    "pt_view all_tables (pmem t) pg = (pt_view all_tables (pmem u) pg)(map PGNUM vas [\<mapsto>] map stack_entry fs)"
    "grows u ?f pg t" "set fs \<inter> pt_frames all_tables (pmem t) pg = {}"
    using Cons.IH [OF u(2,3) pre(1) Cons.prems(4) pre(2,3) len] by blast
  have "alloc_stack pg (va # vas) s = Inr (True, t)" using l(1) u(1) t(1) by (simp add: kbind_apply)
  moreover have "mem_frame s t" using u(5) t(4) mem_frame_trans mem_frame_alloc by blast
  moreover have "grows s fl pg t"
    using grows_trans [OF grows_trans [OF at(1) u(6)] t(10)] sub unfolding fl by auto
  moreover have "pp \<notin> pt_frames all_tables (pmem t) pg"
  proof -
    have "pp \<notin> pt_frames all_tables (pmem s) pg" using wf by (auto simp: pt_wf_def)
    then show ?thesis using t(10) u(6) at(2) sub d(1) unfolding grows_def by blast
  qed
  ultimately show ?case
    using t(2,3,5,6,7,8,9,11) sub d(1) by (intro exI [of _ t] exI [of _ "pp # fs"] exI [of _ fl']) (auto simp: fl u(4))
qed

section \<open>A new address space\<close>

lemma kern_view_stack:
  assumes "kern_ok s" and "va \<in> set stack_vas"
  shows "kern_view s (PGNUM va) = None"
proof -
  have "PGNUM va \<in> set (map (\<lambda>k. 0xEEBFD - k) [0..<10])" using stack_pages(1) assms(2) by (metis imageI list.set_map)
  then have v: "0xEEBF4 \<le> PGNUM va" "PGNUM va \<le> 0xEEBFD" by auto
  have "0xEF800 \<le> PGNUM (lapic s)" using assms(1) by (simp add: kern_ok_def region_consts)
  then show ?thesis using v by (simp add: kern_view_def kstack_view_def Let_def NCPU_def)
qed

lemma distinct_stack: "distinct (map PGNUM stack_vas)"
  unfolding stack_pages(1) by (auto simp: distinct_map inj_on_def)

text \<open>The kernel's part and the ten pages of the stack.\<close>

definition task_view :: "'a kmem_scheme \<Rightarrow> nat list \<Rightarrow> nat \<Rightarrow> u32 option" where
  "task_view s fs = (kern_view s)(map PGNUM stack_vas [\<mapsto>] map stack_entry fs)"

lemma tasks_update_mem [simp]:
  "pages_inv (s\<lparr>tasks := ts\<rparr>) fl = pages_inv s fl" "pt_wf D (s\<lparr>tasks := ts\<rparr>) pg fl = pt_wf D s pg fl"
  by (simp_all add: pages_inv_def pt_wf_def)

lemma mem_frame_kernel:
  fixes s t :: "'a kernel_scheme"
  assumes "mem_frame s t"
  shows "tasks t = tasks s" "cpus t = cpus s" "tasks_lock t = tasks_lock s" "cur_cpu t = cur_cpu s" "lapic t = lapic s"
    "cpunum t = cpunum s" "npages t = npages s"
  using assms by (cases s, cases t, simp add: mem_frame_def cpunum_def)+

text \<open>
  The address space \<open>pg\<close> with the stack frames \<open>fs\<close> was made from the free frames \<open>fl\<close>: nothing else was written, and its
  directory and tables lie in frames of \<open>fl\<close> that are not frames of the stack.
\<close>

definition fresh_space :: "'a kmem_scheme \<Rightarrow> nat list \<Rightarrow> nat \<Rightarrow> nat list \<Rightarrow> 'a kmem_scheme \<Rightarrow> bool" where
  "fresh_space s fl pg fs t \<longleftrightarrow> (\<forall>fr. fr \<notin> set fl \<longrightarrow> pmem t fr = pmem s fr) \<and>
     insert pg (pt_frames all_tables (pmem t) pg) \<subseteq> set fl \<and> set fs \<inter> insert pg (pt_frames all_tables (pmem t) pg) = {}"

lemma new_space_ok:
  fixes s :: "'a kernel_scheme"
  assumes inv: "pages_inv s (pg # fl)" and ok: "kern_ok s" and mem: "79 \<le> length fl" and p: "p < length (tasks s)"
  shows "\<exists>u t fs fl'. new_space p s = Inr (True, t) \<and> mem_frame s u \<and> mem_frame (u\<lparr>tasks := (tasks s)[p := (tasks s ! p)\<lparr>pgdir := Some pg\<rparr>]\<rparr>) t \<and>
    pages_inv t fl' \<and> pt_wf all_tables t pg fl' \<and> length fs = 10 \<and> distinct fs \<and> set fs \<subseteq> set fl \<and> set fl' \<subseteq> set fl - set fs \<and>
    pt_view all_tables (pmem t) pg = task_view s fs \<and> fresh_space s (pg # fl) pg fs t"
proof -
  obtain u k where u: "setupkvm s = Inr (Some pg, u)" "k \<le> 68" "pages_inv u (drop k fl)" "pt_wf all_tables u pg (drop k fl)"
    "pt_view all_tables (pmem u) pg = kern_view s" "mem_frame s u"
    "\<forall>i. i \<notin> set (pg # fl) \<longrightarrow> pmem u i = pmem s i" "pt_frames all_tables (pmem u) pg \<subseteq> set fl"
    using setupkvm_ok [OF inv ok] mem by auto
  note f = mem_frame_kernel [OF u(6)]
  let ?ts = "(tasks s)[p := (tasks s ! p)\<lparr>pgdir := Some pg\<rparr>]"
  let ?u = "u\<lparr>tasks := ?ts\<rparr>"
  have up: "upd_task (int p) (\<lambda>t. t\<lparr>pgdir := Some pg\<rparr>) u = Inr ((), ?u)" using p f(1) by (simp add: upd_task_ok)
  have len: "length stack_vas = 10" by (simp add: stack_vas_def USR_STACK_SIZE_def PGSIZE_def unat_div)
  have none: "\<forall>va \<in> set stack_vas. pt_view all_tables (pmem ?u) pg (PGNUM va) = None"
    using kern_view_stack [OF ok] u(5) by simp
  have l: "length stack_vas + (if present (pmem ?u pg 0x3BA) then 0 else 1) \<le> length (drop k fl)" using mem u(2) len by auto
  have a: "pages_inv ?u (drop k fl)" "pt_wf all_tables ?u pg (drop k fl)" "\<forall>va \<in> set stack_vas. PDX va = 0x3BA"
    "(0x3BA :: nat) < 1024" using u(3,4) stack_pages(2) by simp_all
  obtain t fs fl' where t: "alloc_stack pg stack_vas ?u = Inr (True, t)" "pages_inv t fl'" "pt_wf all_tables t pg fl'" "mem_frame ?u t"
    "length fs = length stack_vas" "distinct fs" "set fs \<subseteq> set (drop k fl)" "set fl' \<subseteq> set (drop k fl) - set fs"
    "pt_view all_tables (pmem t) pg = (pt_view all_tables (pmem u) pg)(map PGNUM stack_vas [\<mapsto>] map stack_entry fs)"
    "grows ?u (drop k fl) pg t" "set fs \<inter> pt_frames all_tables (pmem t) pg = {}"
    using alloc_stack_ok [OF a distinct_stack none l] by auto
  have "new_space p s = Inr (True, t)" using u(1) up t(1) by (simp add: new_space_def kbind_apply)
  moreover have "fresh_space s (pg # fl) pg fs t"
  proof -
    have sub: "set (drop k fl) \<subseteq> set fl" "pg \<notin> set fl" using set_drop_subset [of k fl] pages_inv_distinct [OF inv] by auto
    have "pmem t fr = pmem s fr" if "fr \<notin> set (pg # fl)" for fr
    proof -
      have "fr \<notin> set (drop k fl) \<union> insert pg (pt_frames all_tables (pmem ?u) pg)" using that sub u(8) by auto
      then have "pmem t fr = pmem ?u fr" using t(10) by (simp add: grows_def)
      then show ?thesis using that u(7) by simp
    qed
    moreover have "pt_frames all_tables (pmem t) pg \<subseteq> set fl" using t(10) sub u(8) by (auto simp: grows_def)
    moreover have "pg \<notin> set fs" using t(7) sub by auto
    ultimately show ?thesis using t(11) by (auto simp: fresh_space_def)
  qed
  ultimately show ?thesis
    using t(2-8) t(9) [unfolded u(5)] u(6) len set_drop_subset [of k fl] unfolding task_view_def
    by (intro exI [of _ u] exI [of _ t] exI [of _ fs] exI [of _ fl']) auto
qed

section \<open>Creating a task\<close>

interpretation tasks_lk: lock_field tasks_lock tasks_lock_update
  by unfold_locales simp_all

definition first_free :: "'a kernel_scheme \<Rightarrow> nat \<Rightarrow> bool" where
  "first_free s p \<longleftrightarrow> p < 32 \<and> state (tasks s ! p) = TASK_FREE \<and> (\<forall>q < p. state (tasks s ! q) \<noteq> TASK_FREE)"

lemma find_free_ok:
  assumes "length (tasks s) = 32" and "first_free s p"
  shows "find_free [0..<NR_TASKS] s = Inr (Some p, s)"
proof -
  have skip: "find_free (qs @ ps) s = find_free ps s" if "\<forall>q \<in> set qs. q < 32 \<and> state (tasks s ! q) \<noteq> TASK_FREE" for qs ps
    using that assms(1) by (induction qs) (simp_all add: kbind_apply get_task_ok)
  have split: "[0..<NR_TASKS] = [0..<p] @ p # [Suc p..<32]"
    using assms(2) upt_add_eq_append [of 0 p "32 - p"] by (simp add: first_free_def NR_TASKS_def upt_conv_Cons)
  show ?thesis unfolding split
    using skip [of "[0..<p]" "p # [Suc p..<32]"] assms by (simp add: first_free_def kbind_apply get_task_ok)
qed

text \<open>The number of the current task, or 0 if there is none.\<close>

definition parent_of :: "'a kernel_scheme \<Rightarrow> int" where
  "parent_of s = (case cpu_task (this_cpu s) of None \<Rightarrow> 0 | Some c \<Rightarrow> task_id (tasks s ! c))"

definition new_task :: "'a kernel_scheme \<Rightarrow> nat \<Rightarrow> nat \<Rightarrow> Task" where
  "new_task s p pg = (tasks s ! p)\<lparr>pgdir := Some pg, tf := user_tf, task_id := int p, parent_id := parent_of s,
     remind_ticks := TIME_QUANT, state := TASK_RUNNABLE\<rparr>"

definition create_ok :: "'a kernel_scheme \<Rightarrow> bool" where
  "create_ok s \<longleftrightarrow> length (tasks s) = 32 \<and> cpunum s < length (cpus s) \<and> lock_free (tasks_lock s) \<and> kern_ok s \<and>
     (\<forall>c. cpu_task (this_cpu s) = Some c \<longrightarrow> c < 32 \<and> state (tasks s ! c) \<noteq> TASK_FREE)"

lemma fill_task_ok:
  fixes s :: "'a kernel_scheme"
  assumes "length (tasks s) = 32" and "p < 32" and "cpunum s < length (cpus s)"
    and "\<And>c. cpu_task (this_cpu s) = Some c \<Longrightarrow> c < 32 \<and> c \<noteq> p"
  shows "fill_task p s = Inr ((), s\<lparr>tasks := (tasks s)[p := (tasks s ! p)\<lparr>tf := user_tf, task_id := int p, parent_id := parent_of s,
    remind_ticks := TIME_QUANT, state := TASK_RUNNABLE\<rparr>]\<rparr>)"
proof (cases "cpu_task (this_cpu s)")
  case None
  then show ?thesis
    using assms(1-3) by (simp add: fill_task_def kbind_apply upd_task_ok current_pid_def thiscpu_ok this_cpu_def parent_of_def)
next
  case (Some c)
  then show ?thesis
    using assms by (simp add: fill_task_def kbind_apply upd_task_ok get_task_ok current_pid_def thiscpu_ok this_cpu_def parent_of_def)
qed

lemma kern_view_cong:
  "lapic t = lapic s \<Longrightarrow> lapicaddr t = lapicaddr s \<Longrightarrow> npages t = npages s \<Longrightarrow> pages_va t = pages_va s \<Longrightarrow>
   percpu_kstacks t = percpu_kstacks s \<Longrightarrow> kern_view t = kern_view s"
  by (intro ext) (simp only: kern_view_def kstack_view_def)

lemma task_create_ok:
  fixes s :: "'a kernel_scheme"
  assumes "create_ok s" and "pages_inv s (pg # fl)" and "79 \<le> length fl" and "first_free s p"
  shows "\<exists>t k fs fl'. task_create s = Inr (int p, t) \<and>
    mem_frame (s\<lparr>tasks := (tasks s)[p := new_task s p pg], tasks_lock := k\<rparr>) t \<and> lock_free k \<and> pages_inv t fl' \<and> pt_wf all_tables t pg fl' \<and>
    pt_view all_tables (pmem t) pg = task_view s fs \<and>
    length fs = 10 \<and> distinct fs \<and> set fs \<subseteq> set fl \<and> set fl' \<subseteq> set fl - set fs \<and> fresh_space s (pg # fl) pg fs t"
proof -
  have c: "length (tasks s) = 32" "cpunum s < length (cpus s)" "kern_ok s"
    and cur: "\<And>c. cpu_task (this_cpu s) = Some c \<Longrightarrow> c < 32 \<and> state (tasks s ! c) \<noteq> TASK_FREE"
    using assms(1) by (auto simp: create_ok_def)
  obtain l where l: "lock_tasks s = Inr ((), s\<lparr>tasks_lock := l\<rparr>)" "holding s l"
    using tasks_lk.acquire_free [of s] assms(1) by (auto simp: create_ok_def lock_tasks_def)
  let ?s = "s\<lparr>tasks_lock := l\<rparr>"
  have p: "p < 32" "state (tasks s ! p) = TASK_FREE" using assms(4) by (simp_all add: first_free_def)
  have ff: "find_free [0..<NR_TASKS] ?s = Inr (Some p, ?s)" by (rule find_free_ok) (use c(1) assms(4) in \<open>simp_all add: first_free_def\<close>)
  have "kern_view ?s = kern_view s" by (rule kern_view_cong) simp_all
  then have i: "pages_inv ?s (pg # fl)" "kern_ok ?s" "task_view ?s fs = task_view s fs" for fs
    using assms(2) c(3) by (simp_all add: pages_inv_def kern_ok_def task_view_def)
  obtain u v fs fl' where u: "new_space p ?s = Inr (True, v)" "mem_frame ?s u"
    "mem_frame (u\<lparr>tasks := (tasks s)[p := (tasks s ! p)\<lparr>pgdir := Some pg\<rparr>]\<rparr>) v"
    and v: "pages_inv v fl'" "pt_wf all_tables v pg fl'" "length fs = 10" "distinct fs" "set fs \<subseteq> set fl" "set fl' \<subseteq> set fl - set fs"
    "pt_view all_tables (pmem v) pg = task_view s fs" "fresh_space ?s (pg # fl) pg fs v"
    using new_space_ok [OF i(1,2) assms(3), of p] c(1) p(1) unfolding i(3) by auto
  note f = mem_frame_kernel [OF u(2)] and g = mem_frame_kernel [OF u(3)]
  have vk: "tasks v = (tasks s)[p := (tasks s ! p)\<lparr>pgdir := Some pg\<rparr>]" "cpus v = cpus s" "cpunum v = cpunum s" "tasks_lock v = l"
    "cur_cpu v = cur_cpu s"
    using f g by (simp_all add: cpunum_def)
  have cpu: "this_cpu v = this_cpu s" "parent_of v = parent_of s"
    using vk cur p c(1) by (auto simp: this_cpu_def parent_of_def nth_list_update split: option.splits)
  have fill: "fill_task p v = Inr ((), v\<lparr>tasks := (tasks s)[p := new_task s p pg]\<rparr>)"
    using fill_task_ok [of v p] vk cpu cur p c by (auto simp: new_task_def)
  let ?w = "v\<lparr>tasks := (tasks s)[p := new_task s p pg]\<rparr>"
  have "holding ?w (tasks_lock ?w)" using l(2) vk by (simp add: holding_def)
  then obtain k where k: "unlock_tasks ?w = Inr ((), ?w\<lparr>tasks_lock := k\<rparr>)" "lock_free k"
    using tasks_lk.release_held unfolding unlock_tasks_def by blast
  have "task_create s = Inr (int p, ?w\<lparr>tasks_lock := k\<rparr>)"
    using l(1) ff u(1) fill k(1) by (simp add: task_create_def kbind_apply)
  moreover have "pages_inv (?w\<lparr>tasks_lock := k\<rparr>) fl'" "pt_wf all_tables (?w\<lparr>tasks_lock := k\<rparr>) pg fl'"
    using v(1,2) by (simp_all add: pages_inv_def pt_wf_def)
  moreover have "mem_frame (s\<lparr>tasks := (tasks s)[p := new_task s p pg], tasks_lock := k\<rparr>) (?w\<lparr>tasks_lock := k\<rparr>)"
    using u(2,3) by (cases s, cases u, cases v) (simp add: mem_frame_def)
  moreover have "fresh_space s (pg # fl) pg fs (?w\<lparr>tasks_lock := k\<rparr>)" using v(8) by (simp add: fresh_space_def)
  ultimately show ?thesis using v(3-7) k(2) by (intro exI [of _ "?w\<lparr>tasks_lock := k\<rparr>"] exI [of _ k] exI [of _ fs] exI [of _ fl']) simp
qed

text \<open>
  C8. \<^verbatim>\<open>task_create\<close> (\<^verbatim>\<open>kernel/task.c\<close>), with at least 80 free pages and an unused slot, returns the number of the first
  one. The task there is runnable with a full time slice, user segments and a stack pointer, the current task as its parent, and a
  page directory of its own, whose view is exactly the kernel's part of an address space and ten user-writable stack
  pages below \<^verbatim>\<open>USTACKTOP\<close> in ten different frames that were free. No other task and no processor's data change, and both locks
  are free again.
\<close>
theorem task_create_correct:
  fixes s :: "'a kernel_scheme"
  assumes "create_ok s" and "pages_inv s (pg # fl)" and "79 \<le> length fl" and "first_free s p"
  shows "\<exists>t fs fl'. task_create s = Inr (int p, t) \<and> tasks t = (tasks s)[p := new_task s p pg] \<and> cpus t = cpus s \<and>
    lock_free (tasks_lock t) \<and> pages_inv t fl' \<and> pt_wf all_tables t pg fl' \<and>
    pt_view all_tables (pmem t) pg = task_view s fs \<and>
    length fs = 10 \<and> distinct fs \<and> set fs \<subseteq> set fl \<and> set fl' \<subseteq> set fl - set fs"
proof -
  obtain t k fs fl' where t: "task_create s = Inr (int p, t)" "mem_frame (s\<lparr>tasks := (tasks s)[p := new_task s p pg], tasks_lock := k\<rparr>) t"
    "lock_free k" "pages_inv t fl'" "pt_wf all_tables t pg fl'" "pt_view all_tables (pmem t) pg = task_view s fs"
    "length fs = 10" "distinct fs" "set fs \<subseteq> set fl" "set fl' \<subseteq> set fl - set fs"
    using task_create_ok [OF assms] by blast
  then show ?thesis using mem_frame_kernel(1-3) [OF t(2)] by (intro exI [of _ t] exI [of _ fs] exI [of _ fl']) simp
qed

text \<open>The example machine with 120 frames, those from 8 on free.\<close>

definition create_mem :: kmem where
  "create_mem = kvm_mem\<lparr>npages := 120,
     pages := map (\<lambda>i. \<lparr>pp_link = if 8 \<le> i \<and> i < 119 then Some (Suc i) else None, pp_ref = 0\<rparr>) [0..<120],
     num_free_pages := 112\<rparr>"

definition demo_create :: kernel where
  "demo_create = demo_kernel_on create_mem"

lemma create_mem_inv: "pages_inv create_mem [8..<120]"
proof -
  have len: "length (pages create_mem) = 120" by (simp add: create_mem_def)
  have link: "pages create_mem ! i = \<lparr>pp_link = if 8 \<le> i \<and> i < 119 then Some (Suc i) else None, pp_ref = 0\<rparr>"
    if "i < 120" for i
    using that by (simp add: create_mem_def del: upt_rec_numeral upt_Suc)
  have "pplist (pages create_mem) (Some 8) [8..<120]"
    by (rule pplist_upt) (simp_all add: link len)
  then show ?thesis
    unfolding pages_inv_def using link len
    by (simp add: create_mem_def kvm_mem_def small_mem_def free_lock_def lock_free_def del: upt_rec_numeral upt_Suc)
qed

lemma demo_create_ok: "create_ok demo_create" "pages_inv demo_create (8 # [9..<120])" "first_free demo_create 3"
proof -
  have more: "page_free_list_lock demo_create = page_free_list_lock create_mem" "pages demo_create = pages create_mem"
    "npages demo_create = npages create_mem" "page_free_list demo_create = page_free_list create_mem"
    "num_free_pages demo_create = num_free_pages create_mem" "pages_va demo_create = pages_va create_mem"
    "percpu_kstacks demo_create = percpu_kstacks create_mem" "lapic demo_create = lapic create_mem" "cur_cpu demo_create = cur_cpu create_mem"
    by (simp_all add: demo_create_def demo_kernel_on_def kernel.defs kkbd.defs kgates.defs kmem.defs)
  have sel: "cpus demo_create = demo_cpus" "tasks demo_create =
      demo_task 0 TASK_RUNNING 1 # demo_task 1 TASK_SLEEP 2 # demo_task 2 TASK_RUNNABLE 100 # replicate 29 zero_task"
    "tasks_lock demo_create = free_lock"
    by (simp_all add: demo_create_def demo_kernel_on_def kernel.defs kkbd.defs kgates.defs kmem.defs)
  have u: "8 # [9..<120] = [8..<120]" by (simp add: upt_conv_Cons del: upt_rec_numeral)
  show "pages_inv demo_create (8 # [9..<120])"
    unfolding u using create_mem_inv unfolding pages_inv_def more .
  have c: "cpunum demo_create = 0" by (simp add: cpunum_def more create_mem_def kvm_mem_def small_mem_def)
  have k: "kern_ok demo_create"
    unfolding kern_ok_def more by (simp add: create_mem_def kvm_mem_def small_mem_def region_consts KERNBASE_def)
  show "create_ok demo_create"
    unfolding create_ok_def this_cpu_def c using k by (simp add: sel demo_cpus_def demo_task_def free_lock_def lock_free_def)
  show "first_free demo_create 3"
    by (auto simp: first_free_def sel nth_Cons' demo_task_def zero_task_def)
qed

theorem task_create_correct_witness:
  "\<exists>t. task_create demo_create = Inr (3, t) \<and> state (tasks t ! 3) = TASK_RUNNABLE \<and> pgdir (tasks t ! 3) = Some 8 \<and>
    (\<exists>fr. fr < 120 \<and> pt_view all_tables (pmem t) 8 0xEEBFD = Some (stack_entry fr))"
proof -
  obtain t fs where t: "task_create demo_create = Inr (3, t)" "tasks t = (tasks demo_create)[3 := new_task demo_create 3 8]"
    "pt_view all_tables (pmem t) 8 = task_view demo_create fs" "length fs = 10" "set fs \<subseteq> set [9..<120]"
    using task_create_correct [OF demo_create_ok(1,2) _ demo_create_ok(3)] by auto
  have len: "length (tasks demo_create) = 32" using demo_create_ok(1) by (simp add: create_ok_def)
  obtain f gs where f: "fs = f # gs" "length gs = 9" using t(4) by (cases fs) auto
  have v: "map PGNUM stack_vas = 0xEEBFD # map (\<lambda>k. 0xEEBFD - k) [1..<10]" unfolding stack_pages(1) by (simp add: upt_conv_Cons)
  have "(0xEEBFD :: nat) \<notin> set (map (\<lambda>k. 0xEEBFD - k) [1..<10])" by auto
  then have "task_view demo_create fs 0xEEBFD = Some (stack_entry f)"
    unfolding task_view_def v f(1) by (simp add: map_upds_apply_nontin del: set_map)
  moreover have "f < 120" using t(5) f(1) by auto
  ultimately show ?thesis using t(1-3) len by (auto simp: new_task_def)
qed

section \<open>The first task of a processor\<close>

text \<open>A part of the user program's image: at or above \<^verbatim>\<open>KERNBASE\<close>, from a page boundary on, not empty.\<close>

definition image_part :: "u32 \<Rightarrow> u32 \<Rightarrow> bool" where
  "image_part start sz \<longleftrightarrow> KERNBASE \<le> start \<and> page_aligned start \<and> sz \<noteq> 0 \<and> PGNUM start + (unat sz + 4095) div 4096 \<le> 1048576"

definition image_ok :: "'a kernel_scheme \<Rightarrow> bool" where
  "image_ok s \<longleftrightarrow> image_part (UTEXT_start s) (UTEXT_SZ s) \<and> image_part (UDATA_start s) (UDATA_SZ s) \<and>
     image_part (UBSS_start s) (UBSS_SZ s) \<and> image_part (URODATA_start s) (URODATA_SZ s)"

text \<open>The page tables after the part has been mapped, and after all four.\<close>

definition part_view :: "u32 \<Rightarrow> u32 \<Rightarrow> (nat \<Rightarrow> u32 option) \<Rightarrow> nat \<Rightarrow> u32 option" where
  "part_view start sz f = map_range f (PGNUM start) ((unat sz + 4095) div 4096) (region_entry (start - KERNBASE) (PTE_W OR PTE_U))"

definition image_view :: "'a kernel_scheme \<Rightarrow> (nat \<Rightarrow> u32 option) \<Rightarrow> nat \<Rightarrow> u32 option" where
  "image_view s f = part_view (URODATA_start s) (URODATA_SZ s) (part_view (UBSS_start s) (UBSS_SZ s)
     (part_view (UDATA_start s) (UDATA_SZ s) (part_view (UTEXT_start s) (UTEXT_SZ s) f)))"

definition window_mapped :: "(nat \<Rightarrow> u32 option) \<Rightarrow> bool" where
  "window_mapped f \<longleftrightarrow> (\<forall>v. 0xF0000 \<le> v \<and> v < 0x100000 \<longrightarrow> f v \<noteq> None)"

lemma setupvm_window:
  fixes s :: "'a kmem_scheme"
  assumes inv: "pages_inv s fl" and wf: "pt_wf all_tables s pg fl" and win: "window_mapped (pt_view all_tables (pmem s) pg)"
    and part: "image_part start sz"
  shows "\<exists>t. setupvm pg start sz s = Inr ((), t) \<and> pages_inv t fl \<and> pt_wf all_tables t pg fl \<and>
    window_mapped (pt_view all_tables (pmem t) pg) \<and> mem_frame s t \<and> grows s fl pg t \<and>
    pt_view all_tables (pmem t) pg = part_view start sz (pt_view all_tables (pmem s) pg)"
proof -
  let ?n = "(unat sz + 4095) div 4096" and ?v = "PGNUM start"
  have p: "KERNBASE \<le> start" "page_aligned start" "sz \<noteq> 0" "?v + ?n \<le> 1048576" using part by (simp_all add: image_part_def)
  have "unat KERNBASE \<le> unat start" using p(1) by (simp add: word_le_nat_alt)
  then have v: "0xF0000 \<le> ?v" by (simp add: PGNUM_div KERNBASE_def)
  have R: "range_tables ?v ?n \<subseteq> pt_tables all_tables (pmem s) pg"
  proof
    fix i assume "i \<in> range_tables ?v ?n"
    then obtain w where w: "i = w div 1024" "?v \<le> w" "w < ?v + ?n" by (auto simp: range_tables_def)
    then have "pt_view all_tables (pmem s) pg w \<noteq> None" using win v p(4) by (auto simp: window_mapped_def)
    then show "i \<in> pt_tables all_tables (pmem s) pg" using w(1) by (auto simp: pt_view_def pt_tables_def split: if_splits)
  qed
  then have R0: "range_tables ?v ?n - pt_tables all_tables (pmem s) pg = {}" "range_tables ?v ?n \<subseteq> all_tables"
    by (auto simp: pt_tables_def)
  obtain t where t: "setupvm pg start sz s = Inr ((), t)" "pt_extend all_tables pg s fl (range_tables ?v ?n) t"
    "pt_view all_tables (pmem t) pg = map_range (pt_view all_tables (pmem s) pg) ?v ?n (region_entry (start - KERNBASE) (PTE_W OR PTE_U))"
    using setupvm_ok [OF inv wf p(1-3) refl p(4) R0(2)] unfolding R0(1) by auto
  have "window_mapped (pt_view all_tables (pmem t) pg)" using win unfolding t(3) by (auto simp: window_mapped_def map_range_def)
  then show ?thesis using t(1,2) t(3) [folded part_view_def] unfolding pt_extend_def R0(1) grows_def by auto
qed

lemma mem_frame_image:
  fixes s t :: "'a kernel_scheme"
  assumes "mem_frame s t"
  shows "image_ok t = image_ok s" "bootcpu t = bootcpu s" "UTEXT_start t = UTEXT_start s" "UTEXT_SZ t = UTEXT_SZ s"
    "UDATA_start t = UDATA_start s" "UDATA_SZ t = UDATA_SZ s" "UBSS_start t = UBSS_start s" "UBSS_SZ t = UBSS_SZ s"
    "URODATA_start t = URODATA_start s" "URODATA_SZ t = URODATA_SZ s"
  using assms by (cases s, cases t, simp add: mem_frame_def image_ok_def)+

lemma map_user_image_ok:
  fixes s :: "'a kernel_scheme"
  assumes "pages_inv s fl" and "pt_wf all_tables s pg fl" and "window_mapped (pt_view all_tables (pmem s) pg)" and "image_ok s"
  shows "\<exists>t. map_user_image pg s = Inr ((), t) \<and> pages_inv t fl \<and> pt_wf all_tables t pg fl \<and> mem_frame s t \<and> grows s fl pg t \<and>
    pt_view all_tables (pmem t) pg = image_view s (pt_view all_tables (pmem s) pg)"
proof -
  have i: "image_part (UTEXT_start s) (UTEXT_SZ s)" "image_part (UDATA_start s) (UDATA_SZ s)"
    "image_part (UBSS_start s) (UBSS_SZ s)" "image_part (URODATA_start s) (URODATA_SZ s)"
    using assms(4) by (simp_all add: image_ok_def)
  obtain s1 where a: "setupvm pg (UTEXT_start s) (UTEXT_SZ s) s = Inr ((), s1)" "pages_inv s1 fl" "pt_wf all_tables s1 pg fl"
    "window_mapped (pt_view all_tables (pmem s1) pg)" "mem_frame s s1" "grows s fl pg s1"
    "pt_view all_tables (pmem s1) pg = part_view (UTEXT_start s) (UTEXT_SZ s) (pt_view all_tables (pmem s) pg)"
    using setupvm_window [OF assms(1-3) i(1)] by blast
  obtain s2 where b: "setupvm pg (UDATA_start s) (UDATA_SZ s) s1 = Inr ((), s2)" "pages_inv s2 fl" "pt_wf all_tables s2 pg fl"
    "window_mapped (pt_view all_tables (pmem s2) pg)" "mem_frame s1 s2" "grows s1 fl pg s2"
    "pt_view all_tables (pmem s2) pg = part_view (UDATA_start s) (UDATA_SZ s) (pt_view all_tables (pmem s1) pg)"
    using setupvm_window [OF a(2-4) i(2)] by blast
  obtain s3 where c: "setupvm pg (UBSS_start s) (UBSS_SZ s) s2 = Inr ((), s3)" "pages_inv s3 fl" "pt_wf all_tables s3 pg fl"
    "window_mapped (pt_view all_tables (pmem s3) pg)" "mem_frame s2 s3" "grows s2 fl pg s3"
    "pt_view all_tables (pmem s3) pg = part_view (UBSS_start s) (UBSS_SZ s) (pt_view all_tables (pmem s2) pg)"
    using setupvm_window [OF b(2-4) i(3)] by blast
  obtain s4 where d: "setupvm pg (URODATA_start s) (URODATA_SZ s) s3 = Inr ((), s4)" "pages_inv s4 fl" "pt_wf all_tables s4 pg fl"
    "mem_frame s3 s4" "grows s3 fl pg s4"
    "pt_view all_tables (pmem s4) pg = part_view (URODATA_start s) (URODATA_SZ s) (pt_view all_tables (pmem s3) pg)"
    using setupvm_window [OF c(2-4) i(4)] by blast
  have f2: "mem_frame s s2" by (rule mem_frame_trans [OF a(5) b(5)])
  have f3: "mem_frame s s3" by (rule mem_frame_trans [OF f2 c(5)])
  have "map_user_image pg s = Inr ((), s4)"
    using a(1) b(1) c(1) d(1) mem_frame_image [OF a(5)] mem_frame_image [OF f2] mem_frame_image [OF f3]
    by (simp add: map_user_image_def kbind_apply)
  moreover have "grows s fl pg s4"
    by (intro grows_trans [OF grows_trans [OF grows_trans [OF a(6) b(6)] c(6)] d(5)]) simp_all
  moreover have "pt_view all_tables (pmem s4) pg = image_view s (pt_view all_tables (pmem s) pg)"
    by (simp add: image_view_def d(6) c(7) b(7) a(7))
  ultimately show ?thesis using d(2,3) mem_frame_trans [OF f3 d(4)] by blast
qed

lemma task_view_window:
  assumes "kern_ok s" and "npages s \<le> 0x10000"
  shows "window_mapped (task_view s fs)"
  unfolding window_mapped_def
proof (intro allI impI)
  fix v :: nat
  assume v: "0xF0000 \<le> v \<and> v < 0x100000"
  have "PGNUM (lapic s) < 0xEFC00" using assms(1) by (simp add: kern_ok_def region_consts)
  then have "kern_view s v \<noteq> None" using v by (simp add: kern_view_def kstack_view_def Let_def)
  then have "v \<in> dom (task_view s fs)" unfolding task_view_def dom_map_upds by auto
  then show "task_view s fs v \<noteq> None" by blast
qed

lemma cpus_update_mem [simp]:
  "pages_inv (s\<lparr>cpus := cs\<rparr>) fl = pages_inv s fl" "pt_wf D (s\<lparr>cpus := cs\<rparr>) pg fl = pt_wf D s pg fl"
  "image_ok (s\<lparr>cpus := cs\<rparr>) = image_ok s" "pages_inv (s\<lparr>gdt := g\<rparr>) fl = pages_inv s fl" "image_ok (s\<lparr>gdt := g\<rparr>) = image_ok s"
  "image_ok (s\<lparr>tasks := ts, tasks_lock := k\<rparr>) = image_ok s"
  by (simp_all add: pages_inv_def pt_wf_def image_ok_def)

lemma cpunum_regs: "cpunum (s\<lparr>gdt_loaded := a, ldtr := b, tr := c\<rparr>) = cpunum s"
  by (simp add: cpunum_def)

lemma task_init_percpu_ok:
  fixes s :: "'a kernel_scheme"
  assumes ok: "create_ok s" and inv: "pages_inv s (pg # fl)" "79 \<le> length fl" and p: "first_free s p" and im: "image_ok s"
    and gd: "5 + unat (cpu_id (this_cpu s)) < length (gdt s)" and boot: "bootcpu s < length (cpus s)"
  shows "\<exists>t. task_init_percpu s = Inr ((), t) \<and> cpu_task (this_cpu t) = Some p \<and> state (tasks t ! p) = TASK_RUNNING"
proof -
  have c: "cpunum s < length (cpus s)" "kern_ok s" "length (tasks s) = 32" "p < 32" using ok p by (simp_all add: create_ok_def first_free_def)
  let ?c = "this_cpu s"
  define s2 where "s2 = s\<lparr>cpus := (cpus s)[cpunum s := ?c\<lparr>cpu_tss := initial_tss (percpu_kstacks s (unat (cpu_id ?c)))\<rparr>],
    gdt := (gdt s)[unat (GD_TSS0 div 8) + unat (cpu_id ?c) := (SEG16 STS_T32A (tss_addr s (cpunum s)) sizeof_tss 0)\<lparr>sd_s := 0\<rparr>]\<rparr>"
  have num: "cpunum s2 = cpunum s" by (simp add: s2_def cpunum_def)
  have this2: "cpu_task (this_cpu s2) = cpu_task ?c" unfolding this_cpu_def num using c(1) by (simp add: s2_def this_cpu_def)
  have ok2: "create_ok s2"
    using ok unfolding create_ok_def this2 num by (simp add: s2_def kern_ok_def)
  have inv2: "pages_inv s2 (pg # fl)" "first_free s2 p" "image_ok s2" using inv(1) p im by (simp_all add: s2_def first_free_def)
  obtain t k fs fl' where t: "task_create s2 = Inr (int p, t)" "mem_frame (s2\<lparr>tasks := (tasks s2)[p := new_task s2 p pg], tasks_lock := k\<rparr>) t"
    "pages_inv t fl'" "pt_wf all_tables t pg fl'" "pt_view all_tables (pmem t) pg = task_view s2 fs"
    using task_create_ok [OF ok2 inv2(1) inv(2) inv2(2)] by blast
  note f = mem_frame_kernel [OF t(2)] and g = mem_frame_image [OF t(2)]
  have tk: "tasks t = (tasks s)[p := new_task s2 p pg]" "length (cpus t) = length (cpus s)" "cpunum t = cpunum s" "image_ok t" "bootcpu t = bootcpu s"
    using f g inv2(3) num by (simp_all add: s2_def cpunum_def)
  let ?t = "t\<lparr>cpus := (cpus t)[cpunum t := (this_cpu t)\<lparr>cpu_task := Some p\<rparr>]\<rparr>"
  have "npages s \<le> 0x10000" using inv(1) by (simp add: pages_inv_def)
  then have win: "window_mapped (pt_view all_tables (pmem ?t) pg)"
    using task_view_window [of s2 fs] c(2) t(5) by (simp add: s2_def kern_ok_def)
  obtain u where u: "map_user_image pg ?t = Inr ((), u)" "mem_frame ?t u"
    using map_user_image_ok [of ?t fl' pg] t(3,4) win tk(4) by auto
  note h = mem_frame_kernel [OF u(2)] and h' = mem_frame_image(2) [OF u(2)]
  have uk: "length (tasks u) = 32" "length (cpus u) = length (cpus s)" "cpunum u = cpunum s" "bootcpu u = bootcpu s" "cpu_task (cpus u ! cpunum s) = Some p"
    using h h' tk c(1,3) by simp_all
  have i: "unat (GD_TSS0 div 8) = 5" by (simp add: GD_TSS0_def unat_div)
  have cr: "kbind (set_gdt (unat (GD_TSS0 div 8) + unat (cpu_id ?c)) ((SEG16 STS_T32A (tss_addr s (cpunum s)) sizeof_tss 0)\<lparr>sd_s := 0\<rparr>)) m
      (s\<lparr>cpus := (cpus s)[cpunum s := ?c\<lparr>cpu_tss := initial_tss (percpu_kstacks s (unat (cpu_id ?c)))\<rparr>]\<rparr>) = m () s2"
    for m :: "unit \<Rightarrow> ('a kernel_scheme, unit) kfun"
    using gd i by (simp add: set_gdt_def kbind_apply s2_def)
  show ?thesis
    using c tk uk u(1) boot t(1) cr
    by (simp add: task_init_percpu_def kbind_apply thiscpu_ok upd_thiscpu_ok get_task_ok upd_task_ok the_pgdir_def new_task_def get_cpu_def this_cpu_def
        cpunum_regs)
qed

lemma clear_tasks_ok:
  "n \<le> length (tasks s) \<Longrightarrow> kfor [0..<n] (\<lambda>i. upd_task (int i) (\<lambda>_. z)) s = Inr ((), s\<lparr>tasks := replicate n z @ drop n (tasks s)\<rparr>)"
proof (induction n)
  case (Suc n)
  then show ?case
    by (simp add: kfor_append kbind_apply upd_task_ok update_prefix [symmetric] del: replicate_Suc drop_Suc)
qed simp

definition image_linked :: "'a kernel_scheme \<Rightarrow> bool" where
  "image_linked s \<longleftrightarrow> image_part (UTEXT_start s) (UTEXT_end s - UTEXT_start s) \<and> image_part (UDATA_start s) (UDATA_end s - UDATA_start s) \<and>
     image_part (UBSS_start s) (UBSS_end s - UBSS_start s) \<and> image_part (URODATA_start s) (URODATA_end s - URODATA_start s)"

text \<open>
  C9. \<^verbatim>\<open>task_init\<close> (\<^verbatim>\<open>kernel/task.c\<close>) starts the scheduler: on a machine whose memory is set up with at least 80 free pages, whose
  processors have no tasks yet and whose user image the linker has placed on page boundaries above \<^verbatim>\<open>KERNBASE\<close>, it returns;
  then task 0 is the running task of this processor and the run queues are consistent.
\<close>
theorem task_init_correct:
  fixes s :: "'a kernel_scheme"
  assumes "boot_ok s" and "pages_inv s (pg # fl)" and "79 \<le> length fl" and "kern_ok s" and "image_linked s"
    and "5 + unat (cpu_id (this_cpu s)) < length (gdt s)" and "bootcpu s < NCPU"
  shows "\<exists>t. task_init s = Inr ((), t) \<and> kinv t \<and> cpu_task (this_cpu t) = Some 0 \<and> state (tasks t ! 0) = TASK_RUNNING"
proof -
  define s1 where "s1 = s\<lparr>UTEXT_SZ := UTEXT_end s - UTEXT_start s, UDATA_SZ := UDATA_end s - UDATA_start s, UBSS_SZ := UBSS_end s - UBSS_start s,
    URODATA_SZ := URODATA_end s - URODATA_start s, tasks_lock := spin_initlock ''&tasks_lock'' (tasks_lock s),
    cpus_lock := spin_initlock ''&cpus_lock'' (cpus_lock s)\<rparr>"
  define s3 where "s3 = s1\<lparr>tasks := replicate 32 (zero_task\<lparr>state := TASK_FREE\<rparr>)\<rparr>"
  have b: "length (tasks s) = 32" "length (cpus s) = 8" "cpunum s < 8" "cpu_task (this_cpu s) = None"
    using assms(1) by (auto simp: boot_ok_def boot_inv_def fresh_cpus_def cpunum_def this_cpu_def)
  have clear: "kfor [0..<NR_TASKS] (\<lambda>i. upd_task (int i) (\<lambda>_. zero_task\<lparr>state := TASK_FREE\<rparr>)) s1 = Inr ((), s3)"
    using clear_tasks_ok [of 32 s1 "zero_task\<lparr>state := TASK_FREE\<rparr>"] b(1) by (simp add: s3_def s1_def NR_TASKS_def del: upt_rec_numeral)
  have "cpunum s3 = cpunum s" by (simp add: s3_def s1_def cpunum_def)
  then have cpu: "this_cpu s3 = this_cpu s" "cpunum s3 < length (cpus s3)" using b by (simp_all add: this_cpu_def s3_def s1_def)
  have pre: "create_ok s3" "pages_inv s3 (pg # fl)" "first_free s3 0" "image_ok s3"
    using assms(2,4,5) cpu b(4)
    by (simp_all add: create_ok_def kern_ok_def first_free_def image_ok_def image_linked_def s3_def s1_def pages_inv_def spin_initlock_free)
  obtain t where t: "task_init_percpu s3 = Inr ((), t)" "cpu_task (this_cpu t) = Some 0" "state (tasks t ! 0) = TASK_RUNNING"
    using task_init_percpu_ok [OF pre(1,2) assms(3) pre(3,4)] assms(6,7) cpu b(2) by (auto simp: s3_def s1_def NCPU_def)
  have run: "task_init s = Inr ((), t)" using clear t(1) by (simp add: task_init_def kbind_apply s1_def)
  then have "kinv t" using task_init_view [OF assms(1)] by (simp add: started_def)
  then show ?thesis using run t(2,3) by blast
qed

definition demo_start :: kernel where
  "demo_start = demo_create\<lparr>cpus := map (\<lambda>i. \<lparr>cpu_id = of_nat i, cpu_status = CPU_UNUSED, cpu_task = None,
     cpu_rq = \<lparr>total = 0, current_index = 0, runQueue = replicate 32 0\<rparr>, cpu_tss = zero_tss\<rparr>) [0..<8]\<rparr>"

lemma demo_start_sel:
  "cur_cpu demo_start = 0" "ncpu demo_start = 2" "bootcpu demo_start = 0" "length (gdt demo_start) = 13" "length (tasks demo_start) = 32"
  "npages demo_start = 120" "image_linked demo_start"
  by (simp_all add: demo_start_def demo_create_def demo_kernel_on_def kernel.defs kkbd.defs kgates.defs kmem.defs create_mem_def
      kvm_mem_def small_mem_def gdt_init_def image_linked_def image_part_def KERNBASE_def PGNUM_div page_aligned_def PGOFF_def)

lemma demo_start_ok: "boot_ok demo_start" "pages_inv demo_start (8 # [9..<120])" "kern_ok demo_start" "this_cpu demo_start = cpus demo_start ! 0"
proof -
  have cpu: "cpus demo_start ! i = \<lparr>cpu_id = of_nat i, cpu_status = CPU_UNUSED, cpu_task = None,
     cpu_rq = \<lparr>total = 0, current_index = 0, runQueue = replicate 32 0\<rparr>, cpu_tss = zero_tss\<rparr>" if "i < 8" for i
    using that by (simp add: demo_start_def del: upt_rec_numeral)
  have "length (cpus demo_start) = 8" by (simp add: demo_start_def)
  then have "fresh_cpus (cpus demo_start)" by (simp add: fresh_cpus_def cpu rq_wf_def NR_TASKS_def)
  then show "boot_ok demo_start" by (simp add: boot_ok_def boot_inv_def demo_start_sel numbered_def cpu)
  show "pages_inv demo_start (8 # [9..<120])" using demo_create_ok(2) by (simp add: demo_start_def del: upt_rec_numeral)
  show "kern_ok demo_start" using demo_create_ok(1) by (simp add: create_ok_def kern_ok_def demo_start_def)
  show "this_cpu demo_start = cpus demo_start ! 0" by (simp add: this_cpu_def cpunum_def demo_start_sel)
qed

theorem task_init_correct_witness:
  "\<exists>t. task_init demo_start = Inr ((), t) \<and> kinv t \<and> cpu_task (this_cpu t) = Some 0"
proof -
  have "unat (cpu_id (this_cpu demo_start)) = 0" unfolding demo_start_ok(4) by (simp add: demo_start_def)
  then show ?thesis
    using task_init_correct [OF demo_start_ok(1,2) _ demo_start_ok(3) demo_start_sel(7)] by (auto simp: demo_start_sel NCPU_def)
qed

end
