(* ===== verification/Fork.thy ===== *)
theory Fork
  imports Create Calls
begin

text \<open>
  \<^verbatim>\<open>sys_fork\<close> (\<^verbatim>\<open>kernel/task.c\<close>) returns and makes a copy of its caller: \<^verbatim>\<open>task_create\<close> from \<open>Create\<close>, the copy of the stack
  page by page through both page tables, the mapping of the program's image, and the placing of the new
  task from \<open>Calls\<close>.
\<close>

section \<open>Address spaces and writes elsewhere\<close>

lemma space_cong:
  assumes "\<forall>fr \<in> insert pg (pt_frames all_tables m pg). m' fr = m fr"
  shows "pt_view all_tables m' pg = pt_view all_tables m pg" "pt_frames all_tables m' pg = pt_frames all_tables m pg"
    "pt_tables all_tables m' pg = pt_tables all_tables m pg" "m' pg = m pg"
proof -
  show d: "m' pg = m pg" using assms by simp
  have "m' (PGNUM (m pg i)) = m (PGNUM (m pg i))" if "i < 1024" "present (m pg i)" for i
    using that by (intro assms [rule_format]) (auto simp: pt_frames_def pt_tables_def)
  then show "pt_view all_tables m' pg = pt_view all_tables m pg" by (auto simp: pt_view_def d fun_eq_iff)
  show "pt_frames all_tables m' pg = pt_frames all_tables m pg" "pt_tables all_tables m' pg = pt_tables all_tables m pg"
    by (simp_all add: pt_frames_def pt_tables_def d)
qed

lemma pt_wf_keep:
  assumes "pt_wf all_tables s pg fl" and "npages t = npages s" and "set fl' \<subseteq> set fl"
    and "\<forall>fr \<in> insert pg (pt_frames all_tables (pmem s) pg). pmem t fr = pmem s fr"
  shows "pt_wf all_tables t pg fl'"
proof -
  note c = space_cong [OF assms(4)]
  show ?thesis using assms(1-3) c(4) unfolding pt_wf_def c(2,3) by auto
qed

section \<open>Copying the stack\<close>

text \<open>The pages at the addresses \<open>vas\<close> of the address space \<open>pd\<close> are the frames \<open>fs\<close>.\<close>

definition backed :: "'a kmem_scheme \<Rightarrow> nat \<Rightarrow> u32 list \<Rightarrow> nat list \<Rightarrow> bool" where
  "backed s pd vas fs \<longleftrightarrow>
     list_all2 (\<lambda>va f. f < npages s \<and> (\<exists>e. pt_view all_tables (pmem s) pd (PGNUM va) = Some e \<and> PGNUM e = f)) vas fs"

lemma backed_keep:
  assumes "backed s pd vas fs" and "npages t = npages s"
    and "\<forall>fr \<in> insert pd (pt_frames all_tables (pmem s) pd). pmem t fr = pmem s fr"
  shows "backed t pd vas fs"
  using assms(1) unfolding backed_def assms(2) space_cong(1) [OF assms(3)] .

lemma copy_page_ok:
  fixes s :: "'a kernel_scheme"
  assumes inv: "pages_inv s fl" and wf: "pt_wf all_tables s par fl" "pt_wf all_tables s chi fl"
    and e: "pt_view all_tables (pmem s) par (PGNUM va) = Some e" "PGNUM e < npages s"
    and d: "pt_view all_tables (pmem s) chi (PGNUM va) = Some d" "PGNUM d < npages s"
  shows "copy_page par chi va s = Inr ((), s\<lparr>pmem := (pmem s)(PGNUM d := pmem s (PGNUM e))\<rparr>)"
proof -
  have va: "PDX va \<in> all_tables" by simp
  note a = walk_view [OF inv wf(1) va e(1)] and b = walk_view [OF inv wf(2) va d(1)]
  show ?thesis
    using a(1) [of False] b(1) [of False] a(3) b(3) e(2) d(2) pages_inv_n(1) [OF inv]
    by (simp add: copy_page_def pte_page_def kread_def kbind_apply KADDR_frame_entry)
qed

lemma copy_stack_ok:
  fixes s :: "'a kernel_scheme"
  assumes "pages_inv s fl" and "pt_wf all_tables s par fl" and "pt_wf all_tables s chi fl"
    and "backed s par vas gs" and "backed s chi vas fs" and "distinct fs"
    and "set fs \<inter> (insert par (pt_frames all_tables (pmem s) par) \<union> insert chi (pt_frames all_tables (pmem s) chi) \<union> set gs) = {}"
  shows "\<exists>m. kfor vas (copy_page par chi) s = Inr ((), s\<lparr>pmem := m\<rparr>) \<and> (\<forall>fr. fr \<notin> set fs \<longrightarrow> m fr = pmem s fr) \<and>
    list_all2 (\<lambda>f g. m f = pmem s g) fs gs"
  using assms
proof (induction vas arbitrary: s fs gs)
  case Nil
  then show ?case by (intro exI [of _ "pmem s"]) (simp add: backed_def)
next
  case (Cons va vas)
  obtain g gs' f fs' where l: "gs = g # gs'" "fs = f # fs'"
    using Cons.prems(4,5) by (auto simp: backed_def list_all2_Cons1)
  obtain e d where ed: "pt_view all_tables (pmem s) par (PGNUM va) = Some e" "PGNUM e = g" "g < npages s"
    "pt_view all_tables (pmem s) chi (PGNUM va) = Some d" "PGNUM d = f" "f < npages s"
    and b: "backed s par vas gs'" "backed s chi vas fs'"
    using Cons.prems(4,5) unfolding l by (auto simp: backed_def)
  let ?s = "s\<lparr>pmem := (pmem s)(f := pmem s g)\<rparr>"
  have run: "copy_page par chi va s = Inr ((), ?s)" using copy_page_ok [OF Cons.prems(1-3) ed(1) _ ed(4)] ed by simp
  have par: "\<forall>fr \<in> insert par (pt_frames all_tables (pmem s) par). pmem ?s fr = pmem s fr"
    using Cons.prems(7) by (auto simp: l)
  have chi: "\<forall>fr \<in> insert chi (pt_frames all_tables (pmem s) chi). pmem ?s fr = pmem s fr"
    using Cons.prems(7) by (auto simp: l)
  note frames = space_cong(2) [OF par] space_cong(2) [OF chi]
  have "pages_inv ?s fl" using Cons.prems(1) by simp
  moreover have "pt_wf all_tables ?s par fl" by (rule pt_wf_keep [OF Cons.prems(2) _ _ par]) simp_all
  moreover have "pt_wf all_tables ?s chi fl" by (rule pt_wf_keep [OF Cons.prems(3) _ _ chi]) simp_all
  moreover have "backed ?s par vas gs'" by (rule backed_keep [OF b(1) _ par]) simp
  moreover have "backed ?s chi vas fs'" by (rule backed_keep [OF b(2) _ chi]) simp
  moreover have "distinct fs'" using Cons.prems(6) by (simp add: l)
  moreover have "set fs' \<inter> (insert par (pt_frames all_tables (pmem ?s) par) \<union> insert chi (pt_frames all_tables (pmem ?s) chi) \<union> set gs') = {}"
    using Cons.prems(7) unfolding frames l by auto
  ultimately obtain m where m: "kfor vas (copy_page par chi) ?s = Inr ((), ?s\<lparr>pmem := m\<rparr>)" "\<forall>fr. fr \<notin> set fs' \<longrightarrow> m fr = pmem ?s fr"
    "list_all2 (\<lambda>f g. m f = pmem ?s g) fs' gs'"
    using Cons.IH [of ?s gs' fs'] by blast
  have "m f = pmem s g" using m(2) Cons.prems(6) by (simp add: l)
  moreover have "list_all2 (\<lambda>f g. m f = pmem s g) fs' gs'"
    using m(3) Cons.prems(7) unfolding l by (elim list.rel_mono_strong) auto
  ultimately show ?case
    using run m(1,2) by (intro exI [of _ m]) (simp add: kbind_apply l)
qed

lemma map_upds_nth:
  "distinct xs \<Longrightarrow> length xs = length ys \<Longrightarrow> k < length xs \<Longrightarrow> (f(xs [\<mapsto>] ys)) (xs ! k) = Some (ys ! k)"
proof (induction xs ys arbitrary: f k rule: list_induct2')
  case (4 x xs y ys)
  then show ?case by (cases k) (auto simp: map_upds_apply_nontin dest: nth_mem)
qed simp_all

lemma PGNUM_stack_entry: "f < 65536 \<Longrightarrow> PGNUM (stack_entry f) = f"
  by (simp add: stack_entry_def PTE_W_def PTE_U_def PTE_P_def)

lemma backed_task_view:
  assumes "pt_view all_tables (pmem t) pg = task_view s fs" and "length fs = 10" and "\<forall>f \<in> set fs. f < npages t" and "npages t \<le> 65536"
  shows "backed t pg stack_vas fs"
  unfolding backed_def list_all2_conv_all_nth
proof (intro conjI allI impI)
  have len: "length stack_vas = 10" by (simp add: stack_vas_def USR_STACK_SIZE_def PGSIZE_def unat_div)
  then show "length stack_vas = length fs" using assms(2) by simp
  fix k assume k: "k < length stack_vas"
  then show "fs ! k < npages t" using assms(2,3) len by simp
  then have "PGNUM (stack_entry (fs ! k)) = fs ! k" using assms(4) by (intro PGNUM_stack_entry) simp
  moreover have "task_view s fs (PGNUM (stack_vas ! k)) = Some (stack_entry (fs ! k))"
    using map_upds_nth [OF distinct_stack, of "map stack_entry fs" k "kern_view s"] k len assms(2) by (simp add: task_view_def)
  ultimately show "\<exists>e. pt_view all_tables (pmem t) pg (PGNUM (stack_vas ! k)) = Some e \<and> PGNUM e = fs ! k"
    using assms(1) by auto
qed

section \<open>Copying a task\<close>

text \<open>What parent and child are after the copy.\<close>

definition forked :: "Task list \<Rightarrow> nat \<Rightarrow> nat \<Rightarrow> Task list" where
  "forked ts c p = ts[c := set_eax (of_nat p) (ts ! c), p := set_eax 0 ((ts ! p)\<lparr>tf := tf (ts ! c)\<rparr>)]"

lemma fork_copy_ok:
  fixes t :: "'a kernel_scheme"
  assumes inv: "pages_inv t fl" and wf: "pt_wf all_tables t pd fl" "pt_wf all_tables t pg fl"
    and stk: "backed t pd stack_vas gs" "backed t pg stack_vas fs" "distinct fs"
    and dis: "set fs \<inter> (insert pd (pt_frames all_tables (pmem t) pd) \<union> insert pg (pt_frames all_tables (pmem t) pg) \<union> set gs) = {}"
      "set fs \<inter> set fl = {}"
    and im: "window_mapped (pt_view all_tables (pmem t) pg)" "image_ok t"
    and ts: "length (tasks t) = 32" "c < 32" "p < 32" "c \<noteq> p" "pgdir (tasks t ! c) = Some pd" "pgdir (tasks t ! p) = Some pg"
  shows "\<exists>u. fork_copy c (int p) t = Inr ((), u) \<and> mem_frame (t\<lparr>tasks := forked (tasks t) c p\<rparr>) u \<and> pages_inv u fl \<and>
    pt_wf all_tables u pg fl \<and> pt_view all_tables (pmem u) pg = image_view t (pt_view all_tables (pmem t) pg) \<and>
    list_all2 (\<lambda>f g. pmem u f = pmem t g) fs gs \<and>
    (\<forall>fr. fr \<notin> set fs \<union> set fl \<union> insert pg (pt_frames all_tables (pmem t) pg) \<longrightarrow> pmem u fr = pmem t fr)"
proof -
  let ?ts = "(tasks t)[p := (tasks t ! p)\<lparr>tf := tf (tasks t ! c)\<rparr>]"
  let ?t = "t\<lparr>tasks := ?ts\<rparr>"
  have "pages_inv ?t fl" "pt_wf all_tables ?t pd fl" "pt_wf all_tables ?t pg fl" using inv wf by simp_all
  moreover have "backed ?t pd stack_vas gs" "backed ?t pg stack_vas fs" using stk by (simp_all add: backed_def)
  ultimately obtain m where m: "kfor stack_vas (copy_page pd pg) ?t = Inr ((), ?t\<lparr>pmem := m\<rparr>)" "\<forall>fr. fr \<notin> set fs \<longrightarrow> m fr = pmem t fr"
    "list_all2 (\<lambda>f g. m f = pmem t g) fs gs"
    using copy_stack_ok [of ?t fl pd pg stack_vas gs fs] stk(3) dis(1) by auto
  let ?m = "?t\<lparr>pmem := m\<rparr>"
  have same: "\<forall>fr \<in> insert pg (pt_frames all_tables (pmem t) pg). m fr = pmem t fr" using m(2) dis(1) by blast
  note sp = space_cong [OF same]
  have "pages_inv ?m fl" "image_ok ?m" using inv im(2) by (simp_all add: image_ok_def)
  moreover have "pt_wf all_tables ?m pg fl" by (rule pt_wf_keep [OF wf(2)]) (use same in simp_all)
  moreover have "window_mapped (pt_view all_tables (pmem ?m) pg)" using im(1) sp(1) by simp
  ultimately obtain u where u: "map_user_image pg ?m = Inr ((), u)" "pages_inv u fl" "pt_wf all_tables u pg fl" "mem_frame ?m u"
    "grows ?m fl pg u" "pt_view all_tables (pmem u) pg = image_view ?m (pt_view all_tables m pg)"
    using map_user_image_ok [of ?m fl pg] by auto
  note k = mem_frame_kernel(1) [OF u(4)]
  let ?u = "u\<lparr>tasks := forked (tasks t) c p\<rparr>"
  have "fork_copy c (int p) t = Inr ((), ?u)"
    using ts m(1) u(1) k by (simp add: fork_copy_def kbind_apply get_task_ok upd_task_ok the_pgdir_def forked_def list_update_swap)
  moreover have "mem_frame (t\<lparr>tasks := forked (tasks t) c p\<rparr>) ?u" using u(4) by (cases t, cases u) (simp add: mem_frame_def)
  moreover have "pages_inv ?u fl" "pt_wf all_tables ?u pg fl" using u(2,3) by simp_all
  moreover have "pt_view all_tables (pmem ?u) pg = image_view t (pt_view all_tables (pmem t) pg)"
    using u(6) sp(1) by (simp add: image_view_def)
  moreover have keep: "pmem ?u fr = m fr" if "fr \<notin> set fl \<union> insert pg (pt_frames all_tables (pmem t) pg)" for fr
    using that u(5) sp(2) by (simp add: grows_def)
  moreover have "list_all2 (\<lambda>f g. pmem ?u f = pmem t g) fs gs"
  proof -
    have "pmem ?u f = m f" if "f \<in> set fs" for f using that dis by (intro keep) blast
    then show ?thesis using m(3) by (elim list.rel_mono_strong) simp
  qed
  ultimately show ?thesis using m(2) by (intro exI [of _ ?u]) auto
qed

lemma mem_frame_cpus:
  fixes s t :: "'a kernel_scheme"
  assumes "mem_frame s t"
  shows "cpus_lock t = cpus_lock s" "ncpu t = ncpu s"
  using assms by (cases s, cases t, simp add: mem_frame_def)+

lemma load_below:
  assumes k: "kinv s" and p: "p < 32" "state (tasks s ! p) = TASK_FREE"
  shows "load_of s 0 < 32"
proof -
  have q: "queues_ok (map tview (tasks s)) (cpus s)" using k by (simp add: kinv_def)
  have w: "rq_wf (cpu_rq (cpus s ! 0))" "distinct (queue_of (cpus s) 0)" by (rule queues_okD [OF q]; simp)+
  have "x \<in> {0..<32} - {int p}" if "x \<in> set (queue_of (cpus s) 0)" for x
    using rq_list_bounds [OF w(1) that] kinv_member(2) [OF k, of 0 p] that p(2) by auto
  then have "set (queue_of (cpus s) 0) \<subseteq> {0..<32} - {int p}" by blast
  then have "card (set (queue_of (cpus s) 0)) \<le> card ({0..<32} - {int p})" by (rule card_mono [rotated]) simp
  then have "length (queue_of (cpus s) 0) \<le> 31" using w(2) p(1) by (simp add: distinct_card)
  then show ?thesis using w(1) by (simp add: load_of_def rq_list_def rq_wf_def NR_TASKS_def)
qed

text \<open>The state in which task \<open>c\<close> forks: its address space is \<open>pd\<close>, its stack lies in the frames \<open>gs\<close>, the frames of \<open>fl\<close> are free.\<close>

definition fork_ready :: "'a kernel_scheme \<Rightarrow> nat \<Rightarrow> nat \<Rightarrow> nat list \<Rightarrow> nat list \<Rightarrow> bool" where
  "fork_ready s c pd gs fl \<longleftrightarrow> kinv s \<and> kern_ok s \<and> pages_inv s fl \<and> image_ok s \<and> lock_free (tasks_lock s) \<and> lock_free (cpus_lock s) \<and>
     0 < ncpu s \<and> ncpu s \<le> 8 \<and> cpu_task (this_cpu s) = Some c \<and> pgdir (tasks s ! c) = Some pd \<and> pt_wf all_tables s pd fl \<and>
     backed s pd stack_vas gs \<and> set gs \<inter> set fl = {}"

lemma fork_readyD:
  assumes "fork_ready s c pd gs fl" and "first_free s p"
  shows "create_ok s" "c < 32" "p < 32" "c \<noteq> p"
proof -
  have k: "kinv s" "cpu_task (this_cpu s) = Some c" using assms(1) by (simp_all add: fork_ready_def)
  note len = kinv_len [OF k(1)]
  have c: "c < 32" "state (tasks s ! c) \<noteq> TASK_FREE"
    using kinv_member(1,2) [OF k(1) len(3) kinv_current [OF k(1) len(3)]] k(2) by (simp_all add: this_cpu_def)
  then show "create_ok s" "c < 32" using assms(1) len by (simp_all add: create_ok_def fork_ready_def)
  show "p < 32" "c \<noteq> p" using c assms(2) by (auto simp: first_free_def)
qed

text \<open>After \<^verbatim>\<open>task_create\<close> the caller's address space and stack are as before, and apart from the new task's.\<close>

lemma fork_create_ok:
  fixes s :: "'a kernel_scheme"
  assumes rdy: "fork_ready s c pd gs (pg # fl)" and mem: "79 \<le> length fl" and p: "first_free s p"
  shows "\<exists>t k fs fl'. task_create s = Inr (int p, t) \<and>
    mem_frame (s\<lparr>tasks := (tasks s)[p := new_task s p pg], tasks_lock := k\<rparr>) t \<and> lock_free k \<and> pages_inv t fl' \<and> pt_wf all_tables t pg fl' \<and>
    pt_wf all_tables t pd fl' \<and> pt_view all_tables (pmem t) pg = task_view s fs \<and> backed t pd stack_vas gs \<and> backed t pg stack_vas fs \<and>
    distinct fs \<and> set fs \<subseteq> set fl \<and> set fl' \<subseteq> set fl - set fs \<and> fresh_space s (pg # fl) pg fs t \<and>
    set fs \<inter> (insert pd (pt_frames all_tables (pmem t) pd) \<union> insert pg (pt_frames all_tables (pmem t) pg) \<union> set gs) = {}"
proof -
  have r: "pages_inv s (pg # fl)" "pt_wf all_tables s pd (pg # fl)" "backed s pd stack_vas gs" "set gs \<inter> set (pg # fl) = {}"
    using rdy by (simp_all add: fork_ready_def)
  from task_create_ok [OF fork_readyD(1) [OF rdy p] r(1) mem p] obtain t k fs fl' where t: "task_create s = Inr (int p, t)"
    "mem_frame (s\<lparr>tasks := (tasks s)[p := new_task s p pg], tasks_lock := k\<rparr>) t" "lock_free k" "pages_inv t fl'" "pt_wf all_tables t pg fl'"
    "pt_view all_tables (pmem t) pg = task_view s fs" "length fs = 10" "distinct fs" "set fs \<subseteq> set fl" "set fl' \<subseteq> set fl - set fs"
    "fresh_space s (pg # fl) pg fs t" by blast
  have par: "\<forall>fr \<in> insert pd (pt_frames all_tables (pmem s) pd). pmem t fr = pmem s fr"
    using t(11) r(2) by (auto simp: fresh_space_def pt_wf_def)
  have np: "npages t = npages s" "npages t \<le> 65536" using mem_frame_kernel [OF t(2)] pages_inv_n(1) [OF r(1)] by simp_all
  have "pt_wf all_tables t pd fl'" by (rule pt_wf_keep [OF r(2) _ _ par]) (use np t(10) in auto)
  moreover have "backed t pd stack_vas gs" by (rule backed_keep [OF r(3) _ par]) (simp add: np)
  moreover have "backed t pg stack_vas fs"
    using pages_inv_bound [OF r(1)] t(9) np by (intro backed_task_view [OF t(6,7)]) auto
  moreover have "set fs \<inter> (insert pd (pt_frames all_tables (pmem t) pd) \<union> insert pg (pt_frames all_tables (pmem t) pg) \<union> set gs) = {}"
    using t(9,11) r(2,4) unfolding space_cong(2) [OF par] by (auto simp: fresh_space_def pt_wf_def)
  ultimately show ?thesis using t by blast
qed

lemma fork_space_ok:
  fixes s :: "'a kernel_scheme"
  assumes rdy: "fork_ready s c pd gs (pg # fl)" and mem: "79 \<le> length fl" and p: "first_free s p"
  shows "\<exists>t u fs. task_create s = Inr (int p, t) \<and> cpus t = cpus s \<and> cpunum t = cpunum s \<and> fork_copy c (int p) t = Inr ((), u) \<and>
    tasks u = (tasks s)[c := set_eax (of_nat p) (tasks s ! c), p := set_eax 0 ((new_task s p pg)\<lparr>tf := tf (tasks s ! c)\<rparr>)] \<and>
    cpus u = cpus s \<and> ncpu u = ncpu s \<and> cpus_lock u = cpus_lock s \<and> lock_free (tasks_lock u) \<and>
    pt_view all_tables (pmem u) pg = image_view s (task_view s fs) \<and>
    distinct fs \<and> set fs \<subseteq> set fl \<and> list_all2 (\<lambda>f g. pmem u f = pmem s g) fs gs \<and>
    (\<forall>fr. fr \<notin> set (pg # fl) \<longrightarrow> pmem u fr = pmem s fr)"
proof -
  obtain t k fs fl' where t: "task_create s = Inr (int p, t)"
    "mem_frame (s\<lparr>tasks := (tasks s)[p := new_task s p pg], tasks_lock := k\<rparr>) t" "lock_free k" "pages_inv t fl'" "pt_wf all_tables t pg fl'"
    "pt_wf all_tables t pd fl'" "pt_view all_tables (pmem t) pg = task_view s fs" "backed t pd stack_vas gs" "backed t pg stack_vas fs"
    "distinct fs" "set fs \<subseteq> set fl" "set fl' \<subseteq> set fl - set fs" "fresh_space s (pg # fl) pg fs t"
    "set fs \<inter> (insert pd (pt_frames all_tables (pmem t) pd) \<union> insert pg (pt_frames all_tables (pmem t) pg) \<union> set gs) = {}"
    using fork_create_ok [OF assms] by blast
  note f = mem_frame_kernel [OF t(2)] mem_frame_cpus [OF t(2)] mem_frame_image [OF t(2)] and c = fork_readyD [OF rdy p]
  have r: "kern_ok s" "image_ok s" "npages s \<le> 65536" "pgdir (tasks s ! c) = Some pd" "set gs \<inter> set (pg # fl) = {}" "length (tasks s) = 32"
    using rdy kinv_len(1) [of s] by (simp_all add: fork_ready_def pages_inv_def)
  have win: "window_mapped (pt_view all_tables (pmem t) pg)" unfolding t(7) by (intro task_view_window r(1)) (use r(3) in simp)
  have im: "image_ok t" and ts: "tasks t = (tasks s)[p := new_task s p pg]" using f r(2) by simp_all
  obtain u where u: "fork_copy c (int p) t = Inr ((), u)" "mem_frame (t\<lparr>tasks := forked (tasks t) c p\<rparr>) u"
    "pt_view all_tables (pmem u) pg = image_view t (task_view s fs)" "list_all2 (\<lambda>f g. pmem u f = pmem t g) fs gs"
    "\<forall>fr. fr \<notin> set fs \<union> set fl' \<union> insert pg (pt_frames all_tables (pmem t) pg) \<longrightarrow> pmem u fr = pmem t fr"
    using fork_copy_ok [OF t(4,6,5,8,9,10,14) _ win im, of c p] t(12) ts r(4,6) c unfolding t(7) by (auto simp: new_task_def)
  note g = mem_frame_kernel [OF u(2)] mem_frame_cpus [OF u(2)]
  have "tasks u = (tasks s)[c := set_eax (of_nat p) (tasks s ! c), p := set_eax 0 ((new_task s p pg)\<lparr>tf := tf (tasks s ! c)\<rparr>)]"
    using g r(6) c by (simp add: forked_def ts list_update_swap [of p c])
  moreover have "lock_free (tasks_lock u)" using g f t(3) by simp
  moreover have "pmem u fr = pmem s fr" if "fr \<notin> set (pg # fl)" for fr
  proof -
    have "fr \<notin> set fs \<union> set fl' \<union> insert pg (pt_frames all_tables (pmem t) pg)" using that t(11-13) by (auto simp: fresh_space_def)
    then show ?thesis using that u(5) t(13) by (simp add: fresh_space_def)
  qed
  moreover have "list_all2 (\<lambda>f g. pmem u f = pmem s g) fs gs"
    using u(4) t(13) r(5) by (elim list.rel_mono_strong) (auto simp: fresh_space_def)
  moreover have "image_view t = (image_view s :: (nat \<Rightarrow> u32 option) \<Rightarrow> _)" using f by (simp add: image_view_def fun_eq_iff)
  moreover have "cpus t = cpus s" "cpunum t = cpunum s" "cpus u = cpus s" "ncpu u = ncpu s" "cpus_lock u = cpus_lock s"
    using f g by (simp_all add: cpunum_def)
  ultimately show ?thesis using t(1,10,11) u(1,3) by (intro exI [of _ t] exI [of _ u] exI [of _ fs]) simp
qed

text \<open>
  C7. \<^verbatim>\<open>sys_fork\<close> (\<^verbatim>\<open>kernel/task.c\<close>), called by task \<open>c\<close> with at least 80 free pages and an unused slot, the first of them
  \<open>p\<close>, returns \<open>p\<close>. Then the task in that slot is a runnable copy of the caller: its registers are the caller's,
  except that its \<^verbatim>\<open>eax\<close> is 0 and the caller's is \<open>p\<close>; its page tables map exactly the kernel's part, the user program's image and ten
  stack pages; these lie in ten different frames that were free and have the contents of the caller's stack. It is the
  last in the run queue of the first processor with the fewest tasks. No frame that was in use is written, no
  other task and no other queue changes, and both locks are free.
\<close>
theorem sys_fork_correct:
  fixes s :: "'a kernel_scheme"
  assumes rdy: "fork_ready s c pd gs (pg # fl)" and mem: "79 \<le> length fl" and p: "first_free s p"
  shows "\<exists>t fs i q. sys_fork s = Inr (int p, t) \<and>
    tasks t = (tasks s)[c := set_eax (of_nat p) (tasks s ! c), p := set_eax 0 ((new_task s p pg)\<lparr>tf := tf (tasks s ! c)\<rparr>)] \<and>
    pt_view all_tables (pmem t) pg = image_view s (task_view s fs) \<and>
    distinct fs \<and> set fs \<subseteq> set fl \<and> list_all2 (\<lambda>f g. pmem t f = pmem s g) fs gs \<and>
    (\<forall>fr. fr \<notin> set (pg # fl) \<longrightarrow> pmem t fr = pmem s fr) \<and>
    least_loaded s (nat (ncpu s)) i \<and> cpus t = (cpus s)[i := (cpus s ! i)\<lparr>cpu_rq := q\<rparr>] \<and>
    rq_list q = rq_list (cpu_rq (cpus s ! i)) @ [int p] \<and> current_index q = current_index (cpu_rq (cpus s ! i)) \<and>
    lock_free (tasks_lock t) \<and> lock_free (cpus_lock t)"
proof -
  have r: "kinv s" "lock_free (cpus_lock s)" "0 < ncpu s" "ncpu s \<le> 8" "cpu_task (this_cpu s) = Some c" using rdy by (simp_all add: fork_ready_def)
  note len = kinv_len [OF r(1)]
  obtain t u fs where t: "task_create s = Inr (int p, t)" "cpus t = cpus s" "cpunum t = cpunum s" "fork_copy c (int p) t = Inr ((), u)"
    and ts: "tasks u = (tasks s)[c := set_eax (of_nat p) (tasks s ! c), p := set_eax 0 ((new_task s p pg)\<lparr>tf := tf (tasks s ! c)\<rparr>)]"
    and u: "cpus u = cpus s" "ncpu u = ncpu s" "cpus_lock u = cpus_lock s" "lock_free (tasks_lock u)"
    and m: "pt_view all_tables (pmem u) pg = image_view s (task_view s fs)" "distinct fs" "set fs \<subseteq> set fl"
      "list_all2 (\<lambda>f g. pmem u f = pmem s g) fs gs" "\<forall>fr. fr \<notin> set (pg # fl) \<longrightarrow> pmem u fr = pmem s fr"
    using fork_space_ok [OF assms] by blast
  have load: "load_of u = load_of s" "least_loaded u = least_loaded s" by (simp_all add: fun_eq_iff load_of_def least_loaded_def u(1))
  have n: "nat (ncpu s) \<le> 8" using r(4) by simp
  have "load_of s 0 < 32" using p by (intro load_below [OF r(1), of p]) (simp_all add: first_free_def)
  moreover have "\<forall>i < length (cpus u). rq_wf (cpu_rq (cpus u ! i))"
    using r(1) u(1) len(2) by (auto simp: kinv_def dest: queues_okD)
  ultimately obtain i q k where e: "enqueue (int p) u = Inr ((), u\<lparr>cpus := (cpus s)[i := (cpus s ! i)\<lparr>cpu_rq := q\<rparr>], cpus_lock := k\<rparr>)"
    "least_loaded s (nat (ncpu s)) i" "rq_list q = rq_list (cpu_rq (cpus s ! i)) @ [int p]"
    "current_index q = current_index (cpu_rq (cpus s ! i))" "lock_free k"
    using enqueue_runs [of u "int p"] r(2,3) n u(1-3) load len(2) by auto
  have "sys_fork s = Inr (int p, u\<lparr>cpus := (cpus s)[i := (cpus s ! i)\<lparr>cpu_rq := q\<rparr>], cpus_lock := k\<rparr>)"
    using t e(1) r(5) len by (simp add: sys_fork_def kbind_apply thiscpu_ok this_cpu_def)
  then show ?thesis
    using ts u(4) m e(2-5) by (intro exI [of _ "u\<lparr>cpus := (cpus s)[i := (cpus s ! i)\<lparr>cpu_rq := q\<rparr>], cpus_lock := k\<rparr>"] exI [of _ fs] exI [of _ i] exI [of _ q]) simp
qed

text \<open>
  The example machine with 120 pages, of which those from 20 on are free. Task 0 has its page directory in frame 1, a page table
  in frame 2 and its stack in the frames 3 to 12.
\<close>

definition fork_mem :: kmem where
  "fork_mem = create_mem\<lparr>pages := map (\<lambda>i. \<lparr>pp_link = if 20 \<le> i \<and> i < 119 then Some (Suc i) else None, pp_ref = 0\<rparr>) [0..<120],
     page_free_list := Some 20, num_free_pages := 100,
     pmem := (\<lambda>fr i. if fr = 1 then if i = 0x3BA then page2pa 2 OR 7 else 0
        else if fr = 2 then if 0x3F4 \<le> i \<and> i \<le> 0x3FD then stack_entry (0x400 - i) else 0 else of_nat fr)\<rparr>"

definition demo_fork :: kernel where
  "demo_fork = demo_kernel_on fork_mem"

lemma fork_mem_inv: "pages_inv fork_mem [20..<120]"
proof -
  have len: "length (pages fork_mem) = 120" by (simp add: fork_mem_def)
  have link: "pages fork_mem ! i = \<lparr>pp_link = if 20 \<le> i \<and> i < 119 then Some (Suc i) else None, pp_ref = 0\<rparr>"
    if "i < 120" for i
    using that by (simp add: fork_mem_def del: upt_rec_numeral upt_Suc)
  have "pplist (pages fork_mem) (Some 20) [20..<120]"
    by (rule pplist_upt) (simp_all add: link len)
  then show ?thesis
    unfolding pages_inv_def using link len
    by (simp add: fork_mem_def create_mem_def kvm_mem_def small_mem_def free_lock_def lock_free_def del: upt_rec_numeral upt_Suc)
qed

lemma fork_mem_space:
  "present (page2pa 2 OR 7)" "PGNUM (page2pa 2 OR 7) = 2" "pt_tables all_tables (pmem fork_mem) 1 = {0x3BA}"
  "pt_frames all_tables (pmem fork_mem) 1 = {2}"
  "k < 10 \<Longrightarrow> pt_view all_tables (pmem fork_mem) 1 (0xEEBFD - k) = Some (stack_entry (3 + k))"
proof -
  show e: "present (page2pa 2 OR 7)" "PGNUM (page2pa 2 OR 7) = 2" by (simp_all add: PGNUM_or PGNUM_div present_def PTE_P_def page2pa_def PGSHIFT_def)
  show t: "pt_tables all_tables (pmem fork_mem) 1 = {0x3BA}" using e by (auto simp: pt_tables_def fork_mem_def present_def split: if_splits)
  show "pt_frames all_tables (pmem fork_mem) 1 = {2}" using e unfolding pt_frames_def t by (simp add: fork_mem_def)
  show "pt_view all_tables (pmem fork_mem) 1 (0xEEBFD - k) = Some (stack_entry (3 + k))" if k: "k < 10"
  proof -
    have d: "(0xEEBFD - k) div 1024 = 0x3BA" using k by simp
    have r: "(0xEEBFD - k) mod 1024 = 0x3FD - k" using minus_div_mult_eq_mod [of "0xEEBFD - k" 1024] d by simp
    have "present (stack_entry f)" for f by (simp add: stack_entry_def)
    then show ?thesis unfolding pt_view_def d r using e k by (simp add: fork_mem_def)
  qed
qed

lemma demo_fork_sel:
  "page_free_list_lock demo_fork = page_free_list_lock fork_mem" "pages demo_fork = pages fork_mem" "npages demo_fork = npages fork_mem"
  "page_free_list demo_fork = page_free_list fork_mem" "num_free_pages demo_fork = num_free_pages fork_mem"
  "pages_va demo_fork = pages_va fork_mem" "percpu_kstacks demo_fork = percpu_kstacks fork_mem" "lapic demo_fork = lapic fork_mem"
  "cur_cpu demo_fork = cur_cpu fork_mem" "pmem demo_fork = pmem fork_mem"
  "cpus demo_fork = cpus demo_kernel" "tasks demo_fork = tasks demo_kernel" "tasks_lock demo_fork = free_lock"
  "cpus_lock demo_fork = free_lock" "ncpu demo_fork = 2" "image_ok demo_fork"
  by (simp_all add: demo_fork_def demo_kernel_def demo_kernel_on_def kernel.defs kkbd.defs kgates.defs kmem.defs
      image_ok_def image_part_def KERNBASE_def PGNUM_div page_aligned_def PGOFF_def)

lemma demo_fork_ready: "fork_ready demo_fork 0 1 [3..<13] (20 # [21..<120])" "first_free demo_fork 3"
proof -
  have n: "npages fork_mem = 120" "cpunum demo_fork = 0"
    by (simp_all add: cpunum_def demo_fork_sel fork_mem_def create_mem_def kvm_mem_def small_mem_def)
  have k: "kinv demo_fork" using demo_kernel_kinv n by (simp add: kinv_def demo_fork_sel)
  have u: "20 # [21..<120] = [20..<120]" by (simp add: upt_conv_Cons del: upt_rec_numeral)
  have inv: "pages_inv demo_fork (20 # [21..<120])" unfolding u using fork_mem_inv unfolding pages_inv_def demo_fork_sel .
  have ok: "kern_ok demo_fork"
    unfolding kern_ok_def demo_fork_sel by (simp add: fork_mem_def create_mem_def kvm_mem_def small_mem_def region_consts KERNBASE_def)
  have wf: "pt_wf all_tables demo_fork 1 (20 # [21..<120])"
    unfolding pt_wf_def demo_fork_sel fork_mem_space n by (simp del: upt_rec_numeral)
  have len: "length stack_vas = 10" by (simp add: stack_vas_def USR_STACK_SIZE_def PGSIZE_def unat_div)
  have "backed demo_fork 1 stack_vas [3..<13]"
    unfolding backed_def list_all2_conv_all_nth demo_fork_sel n
  proof (intro conjI allI impI)
    fix i assume i: "i < length stack_vas"
    have "PGNUM (stack_vas ! i) = 0xEEBFD - i"
      using arg_cong [OF stack_pages(1), of "\<lambda>xs. xs ! i"] i len by (simp del: upt_rec_numeral)
    then show "\<exists>e. pt_view all_tables (pmem fork_mem) 1 (PGNUM (stack_vas ! i)) = Some e \<and> PGNUM e = [3..<13] ! i" "[3..<13] ! i < 120"
      using fork_mem_space(5) [of i] i len by (simp_all add: PGNUM_stack_entry del: upt_rec_numeral)
  qed (simp add: len)
  then show "fork_ready demo_fork 0 1 [3..<13] (20 # [21..<120])"
    unfolding fork_ready_def this_cpu_def n using k ok inv wf
    by (simp add: demo_fork_sel demo_kernel_sel demo_cpus_def demo_task_def free_lock_def lock_free_def del: upt_rec_numeral)
  show "first_free demo_fork 3"
    by (auto simp: first_free_def demo_fork_sel demo_kernel_sel nth_Cons' demo_task_def zero_task_def)
qed

theorem sys_fork_correct_witness:
  "\<exists>t f. sys_fork demo_fork = Inr (3, t) \<and> reg_eax (tf_regs (tf (tasks t ! 0))) = 3 \<and> reg_eax (tf_regs (tf (tasks t ! 3))) = 0 \<and>
    queue_of (cpus t) 1 = [3] \<and> 21 \<le> f \<and> f < 120 \<and> pmem t f = (\<lambda>_. 3)"
proof -
  obtain t fs i q where t: "sys_fork demo_fork = Inr (3, t)"
    "tasks t = (tasks demo_fork)[0 := set_eax 3 (tasks demo_fork ! 0), 3 := set_eax 0 ((new_task demo_fork 3 20)\<lparr>tf := tf (tasks demo_fork ! 0)\<rparr>)]"
    "set fs \<subseteq> set [21..<120]" "list_all2 (\<lambda>f g. pmem t f = pmem demo_fork g) fs [3..<13]"
    "least_loaded demo_fork 2 i" "cpus t = (cpus demo_fork)[i := (cpus demo_fork ! i)\<lparr>cpu_rq := q\<rparr>]"
    "rq_list q = rq_list (cpu_rq (cpus demo_fork ! i)) @ [3]"
    using sys_fork_correct [OF demo_fork_ready(1) _ demo_fork_ready(2)] by (auto simp: demo_fork_sel(15))
  have l: "load_of demo_fork 0 = 3" "load_of demo_fork 1 = 0" by (simp_all add: load_of_def demo_fork_sel demo_kernel_sel demo_cpus_def)
  then have "i = 1" using t(5) by (auto simp: least_loaded_def less_Suc_eq numeral_2_eq_2)
  then have "queue_of (cpus t) 1 = [3]" using t(6,7) by (simp add: demo_fork_sel demo_kernel_sel demo_cpus_def rq_list_def)
  moreover have fs: "pmem t (fs ! 0) = pmem demo_fork 3" "length fs = 10"
    using list_all2_nthD2 [OF t(4), of 0] list_all2_lengthD [OF t(4)] by (simp_all del: upt_rec_numeral)
  moreover have "fs ! 0 \<in> set [21..<120]" using t(3) fs(2) by (intro subsetD [OF t(3)] nth_mem) simp
  moreover have "pmem demo_fork 3 = (\<lambda>_. 3)" by (simp add: demo_fork_sel fork_mem_def fun_eq_iff)
  moreover have "length (tasks demo_fork) = 32" by (simp add: demo_fork_sel demo_kernel_sel)
  ultimately show ?thesis using t(1,2) by (intro exI [of _ t] exI [of _ "fs ! 0"]) (auto simp: set_eax_def)
qed

end
