(* ===== verification/Boot.thy ===== *)
theory Boot
  imports Strings Ports
begin

text \<open>
  The boot loader \<^verbatim>\<open>boot/main.c\<close>. It runs without paging on physical memory, here a function from
  addresses to bytes. The disk is a parameter, a function from sector numbers to the bytes of
  a sector: a read transfers the sector whose number the loader has written to the ports. \<open>disk_polls\<close>
  is how often the status port still shows a busy disk.
\<close>

section \<open>State\<close>

record loader = kio +
  lmem :: "u32 \<Rightarrow> u8"
  disk_polls :: nat

type_synonym disk = "u32 \<Rightarrow> nat \<Rightarrow> u8"

definition SECTSIZE :: u32 where "SECTSIZE = 512"
definition ELFHDR :: u32 where "ELFHDR = 0x10000"
definition ELF_MAGIC :: u32 where "ELF_MAGIC = 0x464C457F"

definition port_byte :: "nat \<Rightarrow> 'a loader_scheme \<Rightarrow> u32" where
  "port_byte p s = (case last_out p s of None \<Rightarrow> 0 | Some b \<Rightarrow> ucast b)"

text \<open>The 28-bit sector number in the disk's registers.\<close>

definition lba :: "'a loader_scheme \<Rightarrow> u32" where
  "lba s = port_byte 0x1F3 s OR push_bit 8 (port_byte 0x1F4 s) OR push_bit 16 (port_byte 0x1F5 s) OR
     push_bit 24 (port_byte 0x1F6 s AND 0xF)"

section \<open>Reading the disk\<close>

definition waitdisk :: "('a loader_scheme, unit) kfun" where
  "waitdisk = kbind (kgets disk_polls) (\<lambda>n.
     kfor [0..<n] (\<lambda>_. kmodify (\<lambda>s. s\<lparr>disk_polls := disk_polls s - 1\<rparr>)))"

definition insl :: "disk \<Rightarrow> u32 \<Rightarrow> nat \<Rightarrow> ('a loader_scheme, unit) kfun" where
  "insl d addr cnt = kmodify (\<lambda>s. s\<lparr>lmem := (\<lambda>a.
     if unat (a - addr) < 4 * cnt then d (lba s) (unat (a - addr)) else lmem s a)\<rparr>)"

definition readsect :: "disk \<Rightarrow> u32 \<Rightarrow> u32 \<Rightarrow> ('a loader_scheme, unit) kfun" where
  "readsect d dst off =
     kbind waitdisk (\<lambda>_.
     kbind (outb 0x1F2 1) (\<lambda>_.
     kbind (outb 0x1F3 (ucast off)) (\<lambda>_.
     kbind (outb 0x1F4 (ucast (drop_bit 8 off))) (\<lambda>_.
     kbind (outb 0x1F5 (ucast (drop_bit 16 off))) (\<lambda>_.
     kbind (outb 0x1F6 (ucast (drop_bit 24 off OR 0xE0))) (\<lambda>_.
     kbind (outb 0x1F7 0x20) (\<lambda>_.
     kbind waitdisk (\<lambda>_.
     insl d dst (unat (SECTSIZE div 4))))))))))"

text \<open>
  The loop of \<^verbatim>\<open>readseg\<close>. The address space has \<open>2 ^ 23\<close> sectors: a loop that has not ended after so
  many rounds is back where it started and never ends.
\<close>

fun readseg_loop :: "nat \<Rightarrow> disk \<Rightarrow> u32 \<Rightarrow> u32 \<Rightarrow> u32 \<Rightarrow> ('a loader_scheme, unit) kfun" where
  "readseg_loop 0 d pa end_pa off = (if pa < end_pa then kfail Hang else kreturn ())"
| "readseg_loop (Suc n) d pa end_pa off =
     (if pa < end_pa then
        kbind (readsect d pa off) (\<lambda>_. readseg_loop n d (pa + SECTSIZE) end_pa (off + 1))
      else kreturn ())"

definition readseg :: "disk \<Rightarrow> u32 \<Rightarrow> u32 \<Rightarrow> u32 \<Rightarrow> ('a loader_scheme, unit) kfun" where
  "readseg d pa count off =
     readseg_loop (2 ^ 23) d (pa AND NOT (SECTSIZE - 1)) (pa + count) (off div SECTSIZE + 1)"

section \<open>Loading the kernel\<close>

definition lload16 :: "u32 \<Rightarrow> ('a loader_scheme, u16) kfun" where
  "lload16 a = kgets (\<lambda>s. push_bit 8 (ucast (lmem s (a + 1))) OR ucast (lmem s a))"

definition lload32 :: "u32 \<Rightarrow> ('a loader_scheme, u32) kfun" where
  "lload32 a = kgets (\<lambda>s. push_bit 24 (ucast (lmem s (a + 3))) OR push_bit 16 (ucast (lmem s (a + 2))) OR
     push_bit 8 (ucast (lmem s (a + 1))) OR ucast (lmem s a))"

definition e_magic :: "('a loader_scheme, u32) kfun" where "e_magic = lload32 ELFHDR"
definition e_entry :: "('a loader_scheme, u32) kfun" where "e_entry = lload32 (ELFHDR + 24)"
definition e_phoff :: "('a loader_scheme, u32) kfun" where "e_phoff = lload32 (ELFHDR + 28)"
definition e_phnum :: "('a loader_scheme, u16) kfun" where "e_phnum = lload16 (ELFHDR + 44)"

definition p_offset :: "u32 \<Rightarrow> ('a loader_scheme, u32) kfun" where "p_offset ph = lload32 (ph + 4)"
definition p_pa :: "u32 \<Rightarrow> ('a loader_scheme, u32) kfun" where "p_pa ph = lload32 (ph + 12)"
definition p_filesz :: "u32 \<Rightarrow> ('a loader_scheme, u32) kfun" where "p_filesz ph = lload32 (ph + 16)"
definition sizeof_Proghdr :: u32 where "sizeof_Proghdr = 32"

definition load_segment :: "disk \<Rightarrow> u32 \<Rightarrow> ('a loader_scheme, unit) kfun" where
  "load_segment d ph =
     kbind (p_pa ph) (\<lambda>pa. kbind (p_filesz ph) (\<lambda>sz. kbind (p_offset ph) (\<lambda>off. readseg d pa sz off)))"

text \<open>
  The result is the address jumped to. On a bad header the loader writes to a debugging port
  and loops. The header table is walked by address: one that wraps around is empty.
\<close>

definition bootmain :: "disk \<Rightarrow> ('a loader_scheme, u32) kfun" where
  "bootmain d =
     kbind (readseg d ELFHDR (SECTSIZE * 8) 0) (\<lambda>_.
     kbind e_magic (\<lambda>m.
     if m \<noteq> ELF_MAGIC then kfail Hang
     else
       kbind e_phoff (\<lambda>phoff.
       kbind e_phnum (\<lambda>phnum.
       let ph = ELFHDR + phoff; eph = ph + ucast phnum * sizeof_Proghdr in
       kbind (kfor [0..<(if ph < eph then unat phnum else 0)] (\<lambda>k.
         load_segment d (ph + of_nat k * sizeof_Proghdr))) (\<lambda>_.
       e_entry)))))"

section \<open>What the loader reads\<close>

lemma waitdisk_ok: "waitdisk s = Inr ((), s\<lparr>disk_polls := 0\<rparr>)"
proof -
  have "kfor [0..<n] (\<lambda>_. kmodify (\<lambda>s. s\<lparr>disk_polls := disk_polls s - 1\<rparr>)) s = Inr ((), s\<lparr>disk_polls := disk_polls s - n\<rparr>)"
    for n and s :: "'a loader_scheme"
    by (induction n) (simp_all add: kfor_append kbind_apply)
  then show ?thesis by (simp add: waitdisk_def kbind_apply)
qed

lemma sector_number:
  fixes off :: u32
  assumes "unat off < 2 ^ 28"
  shows "ucast (ucast off :: u8) OR push_bit 8 (ucast (ucast (drop_bit 8 off) :: u8)) OR
    push_bit 16 (ucast (ucast (drop_bit 16 off) :: u8)) OR
    push_bit 24 (ucast (ucast (drop_bit 24 off OR 0xE0) :: u8) AND 0xF) = off" (is "?l = _")
proof (rule bit_eqI)
  fix n
  assume "possible_bit TYPE(u32) n"
  then have "n < 32" by simp
  have m: "(0xF :: u32) = mask 4" by (simp add: mask_eq_exp_minus_1)
  have "take_bit 28 off = off"
    using assms by (simp add: word_eq_iff_unsigned unsigned_take_bit_eq take_bit_nat_eq_self_iff word_unat_eq_iff)
  then have hi: "bit off n \<Longrightarrow> n < 28" using bit_take_bit_iff [of 28 off n] by simp
  have e: "\<not> bit (0xE0 :: u32) k" if "k < 4" for k
    using that by (auto simp: less_Suc_eq numeral_eq_Suc)
  consider "n < 8" | "8 \<le> n" "n < 16" | "16 \<le> n" "n < 24" | "24 \<le> n" "n < 28" | "28 \<le> n" by linarith
  then show "bit ?l n = bit off n"
    using \<open>n < 32\<close> hi e [of "n - 24"] unfolding m by cases (auto simp: bit_simps)
qed

lemma readsect_ok:
  assumes "unat off < 2 ^ 28"
  shows "\<exists>t. readsect d dst off s = Inr ((), t) \<and>
    lmem t = (\<lambda>a. if unat (a - dst) < 512 then d off (unat (a - dst)) else lmem s a)"
proof -
  let ?u = "s\<lparr>port_log := port_log s @ [(0x1F2, 1), (0x1F3, ucast off), (0x1F4, ucast (drop_bit 8 off)),
    (0x1F5, ucast (drop_bit 16 off)), (0x1F6, ucast (drop_bit 24 off OR 0xE0)), (0x1F7, 0x20)], disk_polls := 0\<rparr>"
  have "lba ?u = off" unfolding lba_def port_byte_def last_out_def using sector_number [OF assms] by simp
  then show ?thesis
    by (simp add: readsect_def kbind_apply waitdisk_ok insl_def SECTSIZE_def fun_eq_iff)
qed

text \<open>Loading \<open>k\<close> sectors.\<close>

lemma readseg_loop_ok:
  assumes "unat end_pa \<le> 2 ^ 32 - 512" and "k \<le> n" and "unat off + k \<le> 2 ^ 28"
    and "k = (unat end_pa + 511 - unat pa) div 512"
  shows "\<exists>t. readseg_loop n d pa end_pa off s = Inr ((), t) \<and>
    lmem t = (\<lambda>a. if unat pa \<le> unat a \<and> unat a < unat pa + 512 * k
      then d (off + of_nat ((unat a - unat pa) div 512)) ((unat a - unat pa) mod 512) else lmem s a)"
  using assms
proof (induction k arbitrary: n pa off s)
  case 0
  then have "\<not> pa < end_pa" by (simp add: word_less_nat_alt div_eq_0_iff)
  then show ?case by (cases n) (auto simp: fun_eq_iff)
next
  case (Suc k)
  then obtain m where n: "n = Suc m" by (cases n) auto
  have k: "512 + 512 * k \<le> unat end_pa + 511 - unat pa" using Suc.prems(4) by linarith
  then have lt: "unat pa < unat end_pa" by linarith
  have pa: "unat (pa + SECTSIZE) = unat pa + 512"
    using lt Suc.prems(1) by (simp add: SECTSIZE_def unat_word_ariths)
  have off: "unat (off + 1) = unat off + 1" "unat off < 2 ^ 28" using Suc.prems(3) by (simp_all add: unat_word_ariths)
  obtain t where t: "readsect d pa off s = Inr ((), t)"
    "lmem t = (\<lambda>a. if unat (a - pa) < 512 then d off (unat (a - pa)) else lmem s a)"
    using readsect_ok [OF off(2)] by blast
  have kk: "k = (unat end_pa + 511 - unat (pa + SECTSIZE)) div 512" using Suc.prems(4) k pa by linarith
  have b: "k \<le> m" "unat (off + 1) + k \<le> 2 ^ 28" using Suc.prems(2,3) n off(1) by simp_all
  obtain u where u: "readseg_loop m d (pa + SECTSIZE) end_pa (off + 1) t = Inr ((), u)"
    "lmem u = (\<lambda>a. if unat pa + 512 \<le> unat a \<and> unat a < unat pa + 512 + 512 * k
      then d (off + 1 + of_nat ((unat a - (unat pa + 512)) div 512)) ((unat a - (unat pa + 512)) mod 512) else lmem t a)"
    using Suc.IH [OF Suc.prems(1) b kk, of t] unfolding pa by blast
  have sub: "unat (a - pa) < 512 \<longleftrightarrow> unat pa \<le> unat a \<and> unat a < unat pa + 512" for a
    using lt Suc.prems(1) by (simp add: unat_sub_if' word_le_nat_alt) linarith
  have sub': "unat (a - pa) = unat a - unat pa" if "unat pa \<le> unat a" for a
    using that by (simp add: unat_sub word_le_nat_alt)
  have far: "(x - p) div 512 = Suc ((x - (p + 512)) div 512)" "(x - p) mod 512 = (x - (p + 512)) mod 512"
    if "p + 512 \<le> x" for x p :: nat
    using that by (simp_all add: le_div_geq le_mod_geq)
  have "lmem u = (\<lambda>a. if unat pa \<le> unat a \<and> unat a < unat pa + 512 * Suc k
      then d (off + of_nat ((unat a - unat pa) div 512)) ((unat a - unat pa) mod 512) else lmem s a)"
  proof (rule ext)
    fix a
    show "lmem u a = (if unat pa \<le> unat a \<and> unat a < unat pa + 512 * Suc k
      then d (off + of_nat ((unat a - unat pa) div 512)) ((unat a - unat pa) mod 512) else lmem s a)"
      by (cases "unat pa + 512 \<le> unat a") (auto simp: u(2) t(2) sub sub' far ac_simps)
  qed
  then show ?case using t(1) u(1) n lt by (simp add: kbind_apply word_less_nat_alt)
qed


text \<open>
  The kernel file starts at sector 1. \<open>seg_start\<close> and \<open>seg_end\<close> are the bounds of the sectors a segment touches.
\<close>

definition file_byte :: "disk \<Rightarrow> nat \<Rightarrow> u8" where
  "file_byte d k = d (of_nat (k div 512) + 1) (k mod 512)"

definition seg_start :: "u32 \<Rightarrow> nat" where
  "seg_start pa = 512 * (unat pa div 512)"

definition seg_end :: "u32 \<Rightarrow> u32 \<Rightarrow> nat" where
  "seg_end pa count = 512 * ((unat pa + unat count + 511) div 512)"

lemma round_sector: "unat (pa AND NOT (SECTSIZE - 1)) = seg_start pa"
proof -
  have "pa AND NOT (SECTSIZE - 1) = push_bit 9 (drop_bit 9 pa)"
    by (rule bit_eqI) (auto simp: bit_simps SECTSIZE_def mask_eq_exp_minus_1 [of 9, where 'a = u32, simplified, symmetric])
  also have "unat \<dots> = push_bit 9 (unat pa div 512)"
  proof -
    have "take_bit 32 (unat pa) = unat pa" "take_bit 23 (unat pa div 512) = unat pa div 512"
      by (simp_all add: take_bit_nat_eq_self_iff less_mult_imp_div_less)
    then show ?thesis
      by (simp add: unsigned_push_bit_eq unsigned_drop_bit_eq take_bit_push_bit drop_bit_eq_div unat_div)
  qed
  finally show ?thesis by (simp add: seg_start_def push_bit_eq_mult)
qed

lemma div_round:
  fixes a c :: nat
  shows "512 * (a div 512) + 512 * ((a + c - 512 * (a div 512)) div 512) = 512 * ((a + c) div 512)"
proof -
  define q r where "q = a div 512" and "r = a mod 512"
  have a: "a = 512 * q + r" by (simp add: q_def r_def)
  have "a + c - 512 * q = r + c" unfolding a by simp
  moreover have "(a + c) div 512 = q + (r + c) div 512" unfolding a add.assoc by simp
  ultimately show ?thesis unfolding q_def [symmetric] by (simp only: distrib_left)
qed

lemma readseg_ok:
  assumes "unat pa + unat count \<le> 2 ^ 32 - 512" and "unat off mod 512 = unat pa mod 512"
  shows "\<exists>t. readseg d pa count off s = Inr ((), t) \<and>
    (\<forall>i < unat count. lmem t (pa + of_nat i) = file_byte d (unat off + i)) \<and>
    (\<forall>a. unat a < seg_start pa \<or> seg_end pa count \<le> unat a \<longrightarrow> lmem t a = lmem s a)"
proof -
  let ?p = "pa AND NOT (SECTSIZE - 1)" and ?o = "off div SECTSIZE + 1"
  let ?k = "(unat (pa + count) + 511 - unat ?p) div 512"
  note p = round_sector [of pa]
  have e: "unat (pa + count) = unat pa + unat count" using assms(1) by (simp add: unat_word_ariths)
  have od: "unat (off div SECTSIZE) = unat off div 512" by (simp add: SECTSIZE_def unat_div)
  moreover have "unat off div 512 < 2 ^ 23" using unat_u32_less [of off] by (simp add: less_mult_imp_div_less)
  ultimately have o: "unat ?o = unat off div 512 + 1" "unat ?o \<le> 2 ^ 23" by (simp_all add: unat_word_ariths)
  have "?k \<le> 8388608" using assms(1) [simplified] e by linarith
  then have k: "?k \<le> 2 ^ 23" "unat ?o + ?k \<le> 2 ^ 28" using o(2) by simp_all
  have ends: "unat ?p + 512 * ?k = seg_end pa count"
    using div_round [of "unat pa" "unat count + 511"] unfolding p e seg_end_def seg_start_def add.assoc .
  have eb: "unat (pa + count) \<le> 2 ^ 32 - 512" using assms(1) e by simp
  obtain t where t: "readseg d pa count off s = Inr ((), t)"
    "lmem t = (\<lambda>a. if seg_start pa \<le> unat a \<and> unat a < seg_end pa count
      then d (?o + of_nat ((unat a - seg_start pa) div 512)) ((unat a - seg_start pa) mod 512) else lmem s a)"
    using readseg_loop_ok [OF eb k refl, of d s] unfolding readseg_def ends unfolding p by blast
  have "lmem t (pa + of_nat i) = file_byte d (unat off + i)" if i: "i < unat count" for i
  proof -
    have a: "unat (pa + of_nat i) = unat pa + i" using i assms(1) by (simp add: unat_word_ariths unat_of_nat)
    have m: "unat pa = seg_start pa + unat pa mod 512" "unat off = 512 * (unat off div 512) + unat pa mod 512"
      using mult_div_mod_eq [of 512 "unat off"] assms(2) by (simp_all add: seg_start_def)
    have "unat pa + unat count \<le> seg_end pa count" unfolding seg_end_def by linarith
    then have r: "seg_start pa \<le> unat pa + i" "unat pa + i < seg_end pa count" using i m(1) by linarith+
    define x where "x = i + unat pa - seg_start pa"
    have "x = unat pa mod 512 + i" unfolding x_def using m(1) by linarith
    then have o: "unat off + i = x + 512 * (unat off div 512)" using m(2) by linarith
    have "(of_nat (unat off div 512) :: u32) = off div SECTSIZE" by (simp add: od [symmetric])
    then show ?thesis using r unfolding file_byte_def o by (simp add: t(2) a x_def [symmetric] ac_simps)
  qed
  then show ?thesis using t by auto
qed


section \<open>The kernel file\<close>

text \<open>The words of the file, and the program headers: load address, size in the file and offset.\<close>

definition word16 :: "(nat \<Rightarrow> u8) \<Rightarrow> nat \<Rightarrow> u16" where
  "word16 f k = push_bit 8 (ucast (f (k + 1))) OR ucast (f k)"

definition word32 :: "(nat \<Rightarrow> u8) \<Rightarrow> nat \<Rightarrow> u32" where
  "word32 f k = push_bit 24 (ucast (f (k + 3))) OR push_bit 16 (ucast (f (k + 2))) OR push_bit 8 (ucast (f (k + 1))) OR
     ucast (f k)"

definition ph_num :: "disk \<Rightarrow> nat" where "ph_num d = unat (word16 (file_byte d) 44)"
definition ph_at :: "disk \<Rightarrow> nat \<Rightarrow> nat" where "ph_at d j = unat (word32 (file_byte d) 28) + 32 * j"
definition ph_pa :: "disk \<Rightarrow> nat \<Rightarrow> u32" where "ph_pa d j = word32 (file_byte d) (ph_at d j + 12)"
definition ph_filesz :: "disk \<Rightarrow> nat \<Rightarrow> u32" where "ph_filesz d j = word32 (file_byte d) (ph_at d j + 16)"
definition ph_offset :: "disk \<Rightarrow> nat \<Rightarrow> u32" where "ph_offset d j = word32 (file_byte d) (ph_at d j + 4)"

text \<open>
  What the loader relies on: the headers lie in the first page of the file, a segment has the same offset
  into a sector in memory and in the file and does not reach the end of the address space, and its sectors
  overlap neither the page of the headers nor a segment loaded before.
\<close>

definition elf_ok :: "disk \<Rightarrow> bool" where
  "elf_ok d \<longleftrightarrow> word32 (file_byte d) 0 = ELF_MAGIC \<and> ph_at d (ph_num d) \<le> 4096 \<and>
     (\<forall>j < ph_num d. unat (ph_pa d j) + unat (ph_filesz d j) \<le> 2 ^ 32 - 512 \<and>
        unat (ph_offset d j) mod 512 = unat (ph_pa d j) mod 512 \<and>
        (seg_end (ph_pa d j) (ph_filesz d j) \<le> 0x10000 \<or> 0x11000 \<le> seg_start (ph_pa d j)) \<and>
        (\<forall>i < j. unat (ph_pa d i) + unat (ph_filesz d i) \<le> seg_start (ph_pa d j) \<or>
           seg_end (ph_pa d j) (ph_filesz d j) \<le> unat (ph_pa d i)))"

text \<open>The headers are in memory, and the segments before \<open>j\<close>.\<close>

definition loaded :: "disk \<Rightarrow> u32 \<Rightarrow> nat \<Rightarrow> nat \<Rightarrow> 'a loader_scheme \<Rightarrow> bool" where
  "loaded d pa n off s \<longleftrightarrow> (\<forall>i < n. lmem s (pa + of_nat i) = file_byte d (off + i))"

definition segments :: "disk \<Rightarrow> nat \<Rightarrow> 'a loader_scheme \<Rightarrow> bool" where
  "segments d j s \<longleftrightarrow> loaded d ELFHDR 4096 0 s \<and>
     (\<forall>i < j. loaded d (ph_pa d i) (unat (ph_filesz d i)) (unat (ph_offset d i)) s)"

lemma header_word:
  assumes "loaded d ELFHDR 4096 0 s"
  shows "k + 4 \<le> 4096 \<Longrightarrow> lload32 (ELFHDR + of_nat k) s = Inr (word32 (file_byte d) k, s)"
    "k + 2 \<le> 4096 \<Longrightarrow> lload16 (ELFHDR + of_nat k) s = Inr (word16 (file_byte d) k, s)"
proof -
  have b: "lmem s (ELFHDR + of_nat k + of_nat i) = file_byte d (k + i)" if "k + i < 4096" for i
    using assms that unfolding loaded_def by (simp add: add.assoc flip: of_nat_add)
  show "k + 4 \<le> 4096 \<Longrightarrow> lload32 (ELFHDR + of_nat k) s = Inr (word32 (file_byte d) k, s)"
    using b [of 0] b [of 1] b [of 2] b [of 3] by (simp add: lload32_def word32_def)
  show "k + 2 \<le> 4096 \<Longrightarrow> lload16 (ELFHDR + of_nat k) s = Inr (word16 (file_byte d) k, s)"
    using b [of 0] b [of 1] by (simp add: lload16_def word16_def)
qed

lemma loaded_other:
  assumes "loaded d pa n off s" and "unat pa + n \<le> 2 ^ 32 - 512"
    and "\<And>a. unat a < lo \<or> hi \<le> unat a \<Longrightarrow> lmem t a = lmem s a" and "unat pa + n \<le> lo \<or> hi \<le> unat pa"
  shows "loaded d pa n off t"
proof -
  have "lmem t (pa + of_nat i) = lmem s (pa + of_nat i)" if "i < n" for i
  proof (rule assms(3))
    have "unat (pa + of_nat i) = unat pa + i" using that assms(2) by (simp add: unat_word_ariths unat_of_nat)
    then show "unat (pa + of_nat i) < lo \<or> hi \<le> unat (pa + of_nat i)" using that assms(4) by auto
  qed
  then show ?thesis using assms(1) by (simp add: loaded_def)
qed

lemma load_segment_ok:
  assumes elf: "elf_ok d" and j: "j < ph_num d" and s: "segments d j s"
  shows "\<exists>t. load_segment d (ELFHDR + of_nat (ph_at d j)) s = Inr ((), t) \<and> segments d (Suc j) t"
proof -
  let ?pa = "ph_pa d j" and ?n = "ph_filesz d j" and ?o = "ph_offset d j"
  have e: "unat ?pa + unat ?n \<le> 2 ^ 32 - 512" "unat ?o mod 512 = unat ?pa mod 512"
    "seg_end ?pa ?n \<le> 0x10000 \<or> 0x11000 \<le> seg_start ?pa"
    "\<And>i. i < j \<Longrightarrow> unat (ph_pa d i) + unat (ph_filesz d i) \<le> seg_start ?pa \<or> seg_end ?pa ?n \<le> unat (ph_pa d i)"
    "\<And>i. i < j \<Longrightarrow> unat (ph_pa d i) + unat (ph_filesz d i) \<le> 2 ^ 32 - 512"
    using elf j by (auto simp: elf_ok_def)
  have h: "loaded d ELFHDR 4096 0 s" using s by (simp add: segments_def)
  have "ph_at d j + 32 \<le> ph_at d (ph_num d)" using j by (simp add: ph_at_def)
  then have at: "ph_at d j + 32 \<le> 4096" using elf by (simp add: elf_ok_def)
  have w: "lload32 (ELFHDR + of_nat (ph_at d j) + c) s = Inr (word32 (file_byte d) (ph_at d j + unat c), s)" if "unat c \<le> 28" for c
    using header_word(1) [OF h, of "ph_at d j + unat c"] that at by (simp add: add.assoc)
  obtain t where t: "readseg d ?pa ?n ?o s = Inr ((), t)" "loaded d ?pa (unat ?n) (unat ?o) t"
    "\<And>a. unat a < seg_start ?pa \<or> seg_end ?pa ?n \<le> unat a \<Longrightarrow> lmem t a = lmem s a"
    using readseg_ok [OF e(1,2), of d s] unfolding loaded_def by blast
  have "load_segment d (ELFHDR + of_nat (ph_at d j)) s = Inr ((), t)"
    using w [of 4] w [of 12] w [of 16] t(1)
    by (simp add: load_segment_def p_pa_def p_filesz_def p_offset_def kbind_apply ph_pa_def ph_filesz_def ph_offset_def)
  moreover have "loaded d ELFHDR 4096 0 t"
    by (rule loaded_other [OF h _ t(3)]) (use e(3) in \<open>auto simp: ELFHDR_def\<close>)
  moreover have "loaded d (ph_pa d i) (unat (ph_filesz d i)) (unat (ph_offset d i)) t" if "i < j" for i
    by (rule loaded_other [OF _ e(5) [OF that] t(3) e(4) [OF that]]) (use s that in \<open>simp_all add: segments_def\<close>)
  ultimately show ?thesis using t(2) by (auto simp: segments_def less_Suc_eq)
qed


lemma load_segments_ok:
  assumes "elf_ok d" and "n \<le> ph_num d" and "segments d 0 s"
  shows "\<exists>t. kfor [0..<n] (\<lambda>j. load_segment d (ELFHDR + of_nat (ph_at d j))) s = Inr ((), t) \<and> segments d n t"
  using assms(2)
proof (induction n)
  case (Suc n)
  then obtain t where "kfor [0..<n] (\<lambda>j. load_segment d (ELFHDR + of_nat (ph_at d j))) s = Inr ((), t)" "segments d n t"
    by auto
  moreover from this(2) Suc.prems obtain u where
    "load_segment d (ELFHDR + of_nat (ph_at d n)) t = Inr ((), u)" "segments d (Suc n) u"
    using load_segment_ok [OF assms(1)] by (meson Suc_le_eq)
  ultimately show ?case by (simp add: kfor_append kbind_apply)
qed (use assms(3) in simp)

lemma header_loaded: "\<exists>t. readseg d ELFHDR (SECTSIZE * 8) 0 s = Inr ((), t) \<and> segments d 0 t"
  using readseg_ok [of ELFHDR "SECTSIZE * 8" 0 d s] by (auto simp: ELFHDR_def SECTSIZE_def segments_def loaded_def)

lemma header_table:
  assumes "elf_ok d"
  shows "ELFHDR + word32 (file_byte d) 28 + of_nat j * sizeof_Proghdr = ELFHDR + of_nat (ph_at d j)"
    "(if ELFHDR + word32 (file_byte d) 28 < ELFHDR + word32 (file_byte d) 28 + ucast (word16 (file_byte d) 44) * sizeof_Proghdr
      then unat (word16 (file_byte d) 44) else 0) = ph_num d"
proof -
  show t: "ELFHDR + word32 (file_byte d) 28 + of_nat j * sizeof_Proghdr = ELFHDR + of_nat (ph_at d j)" for j
    by (simp add: ph_at_def sizeof_Proghdr_def)
  have n: "(ucast (word16 (file_byte d) 44) :: u32) = of_nat (ph_num d)" by (simp add: ph_num_def)
  have u: "unat (ELFHDR + of_nat (ph_at d j)) = 0x10000 + ph_at d j" if "j \<le> ph_num d" for j
  proof -
    have "ph_at d j \<le> ph_at d (ph_num d)" using that by (simp add: ph_at_def)
    then have "ph_at d j \<le> 4096" using assms by (simp add: elf_ok_def)
    then show ?thesis by (simp add: ELFHDR_def unat_word_ariths unat_of_nat)
  qed
  have "ELFHDR + word32 (file_byte d) 28 = ELFHDR + of_nat (ph_at d 0)" using t [of 0] by simp
  then show "(if ELFHDR + word32 (file_byte d) 28 < ELFHDR + word32 (file_byte d) 28 + ucast (word16 (file_byte d) 44) * sizeof_Proghdr
      then unat (word16 (file_byte d) 44) else 0) = ph_num d"
    unfolding n t using u [of 0] u [of "ph_num d"] by (auto simp: word_less_nat_alt ph_at_def ph_num_def)
qed

section \<open>An example\<close>

text \<open>A disk with a kernel of one segment: eight bytes from offset 4096, loaded at one megabyte.\<close>

definition demo_disk :: disk where
  "demo_disk sec i =
     (if sec = 1 then
        if i = 0 then 0x7F else if i = 1 then 0x45 else if i = 2 then 0x4C else if i = 3 then 0x46
        else if i = 26 \<or> i = 66 \<or> i = 57 then 0x10 else if i = 28 then 52 else if i = 44 then 1
        else if i = 68 then 8 else 0
      else if sec = 9 then of_nat (i + 1) else 0)"

lemma demo_disk_header:
  "word32 (file_byte demo_disk) 0 = ELF_MAGIC" "ph_num demo_disk = 1" "ph_at demo_disk j = 52 + 32 * j"
  "ph_pa demo_disk 0 = 0x100000" "ph_filesz demo_disk 0 = 8" "ph_offset demo_disk 0 = 0x1000"
  "word32 (file_byte demo_disk) 24 = 0x100000"
  by (simp_all add: word32_def word16_def ph_num_def ph_at_def ph_pa_def ph_filesz_def ph_offset_def file_byte_def demo_disk_def ELF_MAGIC_def)

lemma demo_disk_ok: "elf_ok demo_disk"
  by (simp add: elf_ok_def demo_disk_header seg_start_def seg_end_def)

section \<open>Properties\<close>

text \<open>
  C19. The boot loader loads the kernel: from a disk whose kernel file is in order, \<^verbatim>\<open>bootmain\<close> (\<^verbatim>\<open>boot/main.c\<close>) gets to its
  jump, to the entry address of the file's header, and there every byte of every program segment is in memory at
  the segment's physical address.
\<close>
theorem bootmain_correct:
  assumes "elf_ok d"
  shows "\<exists>t. bootmain d s = Inr (word32 (file_byte d) 24, t) \<and>
    (\<forall>j < ph_num d. \<forall>i < unat (ph_filesz d j). lmem t (ph_pa d j + of_nat i) = file_byte d (unat (ph_offset d j) + i))"
proof -
  obtain h where h: "readseg d ELFHDR (SECTSIZE * 8) 0 s = Inr ((), h)" "segments d 0 h" using header_loaded by blast
  note w = header_word [of d h] and e = assms [unfolded elf_ok_def, THEN conjunct1]
  obtain t where t: "kfor [0..<ph_num d] (\<lambda>j. load_segment d (ELFHDR + of_nat (ph_at d j))) h = Inr ((), t)"
    "segments d (ph_num d) t"
    using load_segments_ok [OF assms order_refl h(2)] by blast
  have l: "loaded d ELFHDR 4096 0 h" "loaded d ELFHDR 4096 0 t" using h(2) t(2) by (simp_all add: segments_def)
  have "bootmain d s = Inr (word32 (file_byte d) 24, t)"
    using h(1) t(1) header_word(1) [OF l(1), of 0] header_word(1) [OF l(1), of 28] header_word(2) [OF l(1), of 44]
      header_word(1) [OF l(2), of 24] e
    by (simp add: bootmain_def kbind_apply e_magic_def e_phoff_def e_phnum_def e_entry_def header_table [OF assms] Let_def)
  then show ?thesis using t(2) by (auto simp: segments_def loaded_def)
qed

theorem bootmain_correct_witness:
  "\<forall>s :: loader. \<exists>t. bootmain demo_disk s = Inr (0x100000, t) \<and> lmem t 0x100003 = 4"
proof
  fix s :: loader
  obtain t where t: "bootmain demo_disk s = Inr (0x100000, t)"
    "\<forall>i < unat (ph_filesz demo_disk 0). lmem t (ph_pa demo_disk 0 + of_nat i) = file_byte demo_disk (unat (ph_offset demo_disk 0) + i)"
    using bootmain_correct [OF demo_disk_ok, of s] unfolding demo_disk_header(2,7) by blast
  show "\<exists>t. bootmain demo_disk s = Inr (0x100000, t) \<and> lmem t 0x100003 = 4"
    using t(1) t(2) [rule_format, of 3] by (simp add: demo_disk_header file_byte_def demo_disk_def)
qed

end
