(* ===== verification/Shell.thy ===== *)
theory Shell
  imports Ulib
begin

text \<open>
  The user program: the shell and its commands (\<^verbatim>\<open>user/shell.c\<close>) and the entry points of user mode
  (\<^verbatim>\<open>user/main.c\<close>). A loop without end takes a bound on its rounds and is \<open>Hang\<close> when they are used up.
\<close>

section \<open>Commands\<close>

definition mem_stat :: "'w os \<Rightarrow> ('w ustate, int) kfun" where
  "mem_stat os =
     kbind (out os (''%-10s MEM_STAT %10s'' @ nl) [cstr ''--------'', cstr ''--------'']) (\<lambda>_.
     kbind (get_num_used_page os) (\<lambda>u.
     kbind (out os (''Used: %18d pages'' @ nl) [VW (of_int u)]) (\<lambda>_.
     kbind (get_num_free_page os) (\<lambda>f.
     kbind (out os (''Free: %18d pages'' @ nl) [VW (of_int f)]) (\<lambda>_.
     kreturn 0)))))"

definition mon_help :: "'w os \<Rightarrow> ('w ustate, int) kfun" where
  "mon_help os =
     kbind (kfor [0..<NCOMMANDS] (\<lambda>i.
       out os (''%s - %s'' @ nl) [cstr (fst (commands ! i)), cstr (snd (commands ! i))])) (\<lambda>_.
     kreturn 0)"

definition print_tick :: "'w os \<Rightarrow> ('w ustate, int) kfun" where
  "print_tick os =
     kbind (get_ticks os) (\<lambda>t.
     kbind (out os (''Now tick = %d'' @ nl) [VW t]) (\<lambda>_. kreturn 0))"

definition chgcolor :: "'w os \<Rightarrow> ptr list \<Rightarrow> ('w ustate, int) kfun" where
  "chgcolor os argv =
     (if length argv > 1 then
        kbind (in_umem (load (argv ! 1))) (\<lambda>c.
        let fore = c - 0x30 in
        kbind (settextcolor os fore 0) (\<lambda>_.
        kbind (out os (''Change color %d!'' @ nl) [VW (of_int (sint fore))]) (\<lambda>_. kreturn 0)))
      else kbind (out os (''No input text color!'' @ nl) []) (\<lambda>_. kreturn 0))"

definition task_job :: "'w os \<Rightarrow> ('w ustate, unit) kfun" where
  "task_job os =
     kbind (getpid os) (\<lambda>pid.
     kbind (getcid os) (\<lambda>cid.
     kfor [0..<10] (\<lambda>i :: nat.
       kbind (out os (''Pid=%d, Cid=%d, now=%d'' @ nl) [VW (of_int pid), VW (of_int cid), VW (of_nat i)]) (\<lambda>_.
       sleep os 100))))"

definition forktest :: "'w os \<Rightarrow> ('w ustate, int) kfun" where
  "forktest os =
     kbind (fork os) (\<lambda>r.
     kbind (kwhen (r = 0)
       (kbind (task_job os) (\<lambda>_.
        kbind (fork os) (\<lambda>r.
        kbind (if r \<noteq> 0 then task_job os
               else kbind (fork os) (\<lambda>r.
                 if r \<noteq> 0 then task_job os
                 else kbind (fork os) (\<lambda>r.
                   if r \<noteq> 0 then task_job os else task_job os))) (\<lambda>_.
        kill_self os))))) (\<lambda>_.
     kreturn 0))"

definition spinlocktest :: "'w os \<Rightarrow> ('w ustate, int) kfun" where
  "spinlocktest os =
     kbind (fork os) (\<lambda>r.
     kbind (kwhen (r = 0)
       (kbind (fork os) (\<lambda>_.
        kbind (fork os) (\<lambda>_.
        kbind (fork os) (\<lambda>_.
        kbind (sleep os 500) (\<lambda>_.
        kbind (getpid os) (\<lambda>pid.
        kbind (getcid os) (\<lambda>cid.
        kbind (out os (''Pid=%d, Cid=%d'' @ nl) [VW (of_int pid), VW (of_int cid)]) (\<lambda>_.
        kill_self os))))))))) (\<lambda>_.
     kreturn 0))"

definition run_command :: "'w os \<Rightarrow> nat \<Rightarrow> ptr list \<Rightarrow> ('w ustate, int) kfun" where
  "run_command os i argv =
     (if i = 0 then mon_help os else if i = 1 then mem_stat os else if i = 2 then print_tick os
      else if i = 3 then chgcolor os argv else if i = 4 then forktest os else spinlocktest os)"

section \<open>Parsing a line\<close>

definition MAXARGS :: nat where "MAXARGS = 16"

definition is_space :: "u8 \<Rightarrow> ('w ustate, bool) kfun" where
  "is_space c = kbind (in_umem (strchr WHITESPACE c)) (\<lambda>r. kreturn (r \<noteq> None))"

text \<open>
  The loops walk over one object; the first argument is at least the number of its bytes left, so
  that the access after the last byte comes before the bound is used up.
\<close>

fun gobble :: "nat \<Rightarrow> ptr \<Rightarrow> ('w ustate, ptr) kfun" where
  "gobble 0 p = kfail BadIndex"
| "gobble (Suc n) p =
     kbind (in_umem (load p)) (\<lambda>c.
     if c = 0 then kreturn p
     else kbind (is_space c) (\<lambda>sp.
       if sp then kbind (in_umem (store p 0)) (\<lambda>_. gobble n (padd p 1)) else kreturn p))"

fun scan_arg :: "nat \<Rightarrow> ptr \<Rightarrow> ('w ustate, ptr) kfun" where
  "scan_arg 0 p = kfail BadIndex"
| "scan_arg (Suc n) p =
     kbind (in_umem (load p)) (\<lambda>c.
     if c = 0 then kreturn p
     else kbind (is_space c) (\<lambda>sp. if sp then kreturn p else scan_arg n (padd p 1)))"

text \<open>\<open>None\<close> when there are too many arguments.\<close>

fun parse_args :: "nat \<Rightarrow> nat \<Rightarrow> ptr \<Rightarrow> ptr list \<Rightarrow> ('w ustate, ptr list option) kfun" where
  "parse_args 0 n p argv = kfail BadIndex"
| "parse_args (Suc k) n p argv =
     kbind (gobble n p) (\<lambda>p.
     kbind (in_umem (load p)) (\<lambda>c.
     if c = 0 then kreturn (Some argv)
     else if length argv = MAXARGS - 1 then kreturn None
     else kbind (scan_arg n p) (\<lambda>q. parse_args k n q (argv @ [p]))))"

definition get_cstr :: "ptr \<Rightarrow> ('w ustate, u8 list) kfun" where
  "get_cstr p = (\<lambda>s.
     let bs = drop (snd p) (blk (umem s) (fst p)) in
     if 0 \<in> set bs then Inr (takeWhile (\<lambda>b. b \<noteq> 0) bs, s) else Inl BadIndex)"

fun lookup_command :: "'w os \<Rightarrow> nat list \<Rightarrow> ptr list \<Rightarrow> ('w ustate, int) kfun" where
  "lookup_command os [] argv =
     kbind (get_cstr (argv ! 0)) (\<lambda>a.
     kbind (out os (''Unknown command '' @ quoted ''%s'' @ nl) [VS (Some a)]) (\<lambda>_. kreturn 0))"
| "lookup_command os (i # is) argv =
     kbind (in_umem (strcmp (argv ! 0) (name_at i))) (\<lambda>r.
     if r = 0 then run_command os i argv else lookup_command os is argv)"

definition runcmd :: "'w os \<Rightarrow> ptr \<Rightarrow> ('w ustate, int) kfun" where
  "runcmd os buf =
     kbind (kgets (\<lambda>s. Suc (length (blk (umem s) (fst buf))))) (\<lambda>n.
     kbind (parse_args n n buf []) (\<lambda>r.
     case r of
       None \<Rightarrow> kbind (out os (''Too many arguments (max %d)'' @ nl) [VW (of_nat MAXARGS)]) (\<lambda>_. kreturn 0)
     | Some argv \<Rightarrow> if argv = [] then kreturn 0 else lookup_command os [0..<NCOMMANDS] argv))"

section \<open>The shell\<close>

definition remember :: "ptr \<Rightarrow> ('w ustate, unit) kfun" where
  "remember buf =
     kbind (kgets hist_tail) (\<lambda>t.
     kbind (in_umem (strcpy (hist_at t 0) buf)) (\<lambda>_.
     kbind (kmodify (\<lambda>s. s\<lparr>hist_tail := (hist_tail s + 1) mod int SHELL_HIST_MAX\<rparr>)) (\<lambda>_.
     kbind (kgets (\<lambda>s. hist_head s = hist_tail s)) (\<lambda>full.
     kbind (kwhen full
       (kbind (kmodify (\<lambda>s. s\<lparr>hist_head := (hist_head s + 1) mod int SHELL_HIST_MAX\<rparr>)) (\<lambda>_.
        kbind (kgets hist_tail) (\<lambda>t. in_umem (store (hist_at t 0) 0))))) (\<lambda>_.
     kmodify (\<lambda>s. s\<lparr>hist_curr := hist_tail s\<rparr>))))))"

fun shell_loop :: "nat \<Rightarrow> 'w os \<Rightarrow> ('w ustate, unit) kfun" where
  "shell_loop 0 os = kfail Hang"
| "shell_loop (Suc n) os =
     kbind (readline (Suc n) os (Some (str ''OSDI> ''))) (\<lambda>r.
     case r of
       None \<Rightarrow> shell_loop n os
     | Some buf \<Rightarrow>
         kbind (remember buf) (\<lambda>_.
         kbind (runcmd os buf) (\<lambda>v. if v < 0 then kreturn () else shell_loop n os)))"

definition shell :: "nat \<Rightarrow> 'w os \<Rightarrow> ('w ustate, unit) kfun" where
  "shell n os =
     kbind (kmodify (\<lambda>s. s\<lparr>hist_head := 0, hist_tail := 0, hist_curr := 0\<rparr>)) (\<lambda>_.
     kbind (out os (''Welcome to the OSDI course!'' @ nl) []) (\<lambda>_.
     kbind (out os (''Type '' @ quoted ''help'' @ '' for a list of commands.'' @ nl) []) (\<lambda>_.
     shell_loop n os)))"

definition user_main :: "nat \<Rightarrow> 'w os \<Rightarrow> ('w ustate, unit) kfun" where
  "user_main n os =
     kbind (out os (''Welcome to User Land, cheers!'' @ nl) []) (\<lambda>_.
     kbind (shell n os) (\<lambda>_. kfail Hang))"

definition idle_main :: "('w ustate, unit) kfun" where
  "idle_main = kfail Hang"

end
