(* ===== verification/Spec2Isabelle.thy ===== *)
theory Spec2Isabelle
  imports Lines Fork Boot Shell
begin

text \<open>
  \<^bold>\<open>A verification development for the NCTU-OSDI teaching kernel\<close>

  The program is the last stage of the course's operating system, \<^verbatim>\<open>src/lab6/nctuos\<close>: a boot loader, a
  multiprocessor 32-bit x86 kernel with paging, pre-emptive round-robin scheduling, spin locks and a dozen system
  calls, and one user program, a shell. All file names below are relative to that directory.

  \<^bold>\<open>The parts and how they interact.\<close> The loader (\<^verbatim>\<open>boot/main.c\<close>) reads the kernel's file from the disk and jumps to
  it. \<^verbatim>\<open>kernel_main\<close> (\<^verbatim>\<open>kernel/main.c\<close>) clears the screen, sets up physical memory and page tables (\<^verbatim>\<open>kernel/mem.c\<close>), finds the
  processors (\<^verbatim>\<open>kernel/mpconfig.c\<close>), sets up the local interrupt controller (\<^verbatim>\<open>kernel/lapic.c\<close>), gives each processor a first
  task (\<^verbatim>\<open>kernel/task.c\<close>), fills the trap tables (\<^verbatim>\<open>kernel/trap.c\<close>), starts the devices and the other processors and enters user
  mode. From then on the kernel runs only on traps: \<^verbatim>\<open>default_trap_handler\<close> saves the user's registers in the current
  task and calls the handler of the keyboard (\<^verbatim>\<open>kernel/kbd.c\<close>), the timer (\<^verbatim>\<open>kernel/timer.c\<close>), the page fault or the system call
  (\<^verbatim>\<open>kernel/syscall.c\<close>). The timer and some calls end in \<^verbatim>\<open>sched_yield\<close> (\<^verbatim>\<open>kernel/sched.c\<close>), which loads another task. User code
  reaches the kernel by the stubs of \<^verbatim>\<open>lib/syscall.c\<close>; \<^verbatim>\<open>lib/string.c\<close> and \<^verbatim>\<open>lib/printfmt.c\<close> are linked into both sides.

  \<^bold>\<open>Conventions\<close> (\<open>Prelude\<close>). A C function is a function on states, \<open>'s \<Rightarrow> kfault + ('a \<times> 's)\<close>, written with \<open>kbind\<close>, \<open>kfor\<close>
  and the other combinators in the order of its statements. \<open>Inl\<close> is a run that goes wrong: a failed assertion or
  \<^verbatim>\<open>panic\<close> (\<open>Panic\<close>), an access outside an array or object (\<open>BadIndex\<close>), a null pointer, a division by zero, a wait for a lock that
  is held (\<open>SpinForever\<close>), or a loop that never ends (\<open>Hang\<close>). A panic's own message is not printed.
  Machine integers are words of their widths; a C \<^verbatim>\<open>int\<close> whose range is not in question is an \<open>int\<close>. The global variables are
  the fields of one record, built up in the order of the files: \<open>kctx\<close> (the running processor), \<open>kio\<close> (ports), \<open>kscreen\<close>,
  \<open>kmem\<close>, \<open>kgates\<close>, \<open>kkbd\<close>, \<open>kernel\<close>; an operation is stated for every extension of the part it needs, so that
  the lemmas on it hold on the whole kernel. Static variables are fields as well. Devices that are only
  written are logs of the writes; what is read from outside (clock memory, disk, firmware tables, scan codes, the
  linker's addresses) is an argument or a part of the state about which nothing is assumed.

  \<^bold>\<open>The theories.\<close>

  \<^item> \<open>Layout\<close>: \<^verbatim>\<open>inc/mmu.h\<close>, \<^verbatim>\<open>inc/memlayout.h\<close>, \<^verbatim>\<open>inc/types.h\<close>: page numbers, table indices, rounding, and their arithmetic.
  \<^item> \<open>Spinlock\<close>: \<^verbatim>\<open>kernel/spinlock.c\<close> twice. As functions on a lock, with the locale \<open>lock_field\<close> for a lock inside a state;
    and as a step relation of many processors, one memory access a step, with mutual exclusion and the
    refinement of an abstract lock.
  \<^item> \<open>Ports\<close>: \<^verbatim>\<open>kernel/picirq.c\<close>, \<^verbatim>\<open>kernel/kclock.c\<close>, \<^verbatim>\<open>set_timer\<close>. The controllers' masks agree with the kernel's copy.
  \<^item> \<open>Strings\<close>: \<^verbatim>\<open>lib/string.c\<close> on memory made of byte objects; the assembly and the portable version of \<^verbatim>\<open>memmove\<close> agree and
    copy correctly for overlapping ranges, the bounded copies stay within bounds.
  \<^item> \<open>Screen\<close>: \<^verbatim>\<open>kernel/screen.c\<close> refines a terminal of 25 rows.
  \<^item> \<open>Printfmt\<close>: \<^verbatim>\<open>lib/printfmt.c\<close>, \<^verbatim>\<open>lib/printf.c\<close>, \<^verbatim>\<open>kernel/printf.c\<close>, \<^verbatim>\<open>_warn\<close>. The formatter's output depends on its arguments only
    (\<open>emits\<close>), so every printer is the same text on a different sink; numbers read back by \<^verbatim>\<open>strtol\<close>.
  \<^item> \<open>PageAlloc\<close>: detection, \<^verbatim>\<open>boot_alloc\<close>, \<^verbatim>\<open>page_init\<close>, \<^verbatim>\<open>page_alloc\<close>, \<^verbatim>\<open>page_free\<close>; the free list as an abstract list (\<open>pages_inv\<close>) and
    the locale \<open>page_allocator\<close>.
  \<^item> \<open>PageTable\<close>: \<^verbatim>\<open>pgdir_walk\<close> to \<^verbatim>\<open>setupkvm\<close>; the bits in memory refine a partial map from pages to frames (\<open>pt_view\<close>), and the
    user can reach nothing of the kernel.
  \<^item> \<open>MemCheck\<close>, \<open>Start\<close>: the self-checks of \<^verbatim>\<open>kernel/mem.c\<close>, which read and write through the page tables, \<^verbatim>\<open>mem_init\<close>,
    \<^verbatim>\<open>kernel_main\<close>, \<^verbatim>\<open>boot_aps\<close>, \<^verbatim>\<open>mp_main\<close>, the first page directory.
  \<^item> \<open>Gates\<close>: segment and gate descriptors, \<^verbatim>\<open>register_handler\<close>, \<^verbatim>\<open>trap_init\<close>.
  \<^item> \<open>Kbd\<close>: \<^verbatim>\<open>kernel/kbd.c\<close>; the console buffer is a bounded queue (locale \<open>bounded_fifo\<close>), the interrupt returns.
  \<^item> \<open>Cpu\<close>, \<open>Mp\<close>: tasks, processors and the local interrupt controller; the search for the processors.
  \<^item> \<open>Sched\<close>, \<open>Trap\<close>: tasks and the scheduler; timer, system calls and dispatch. An operation that may switch to another
    task returns a \<open>flow\<close>: \<open>Ret\<close>, or \<open>Switch\<close> for the part behind \<^verbatim>\<open>env_pop_tf\<close>, which does not return.
  \<^item> \<open>Frames\<close>, \<open>Queues\<close>, \<open>Machine\<close>, \<open>Timer\<close>, \<open>Reach\<close>: the proofs about the running kernel. \<open>Frames\<close> shows what code leaves alone,
    \<open>Queues\<close> has the invariant of the run queues (\<open>kinv\<close>), \<open>Machine\<close> that every handler keeps it, \<open>Timer\<close> what an
    interrupt does to the tasks, \<open>Reach\<close> that start-up establishes the invariant and that it holds in every state of the relation
    \<open>machine_step\<close>: a trap on any processor, or user code.
  \<^item> \<open>Create\<close>, \<open>Fork\<close>: \<^verbatim>\<open>task_create\<close>, \<^verbatim>\<open>task_init\<close> and \<^verbatim>\<open>sys_fork\<close> return, with the address space of the new task given exactly; the
    child of a fork is a copy of its parent, and no memory in use is written.
  \<^item> \<open>Ulib\<close>, \<open>Shell\<close>: user library, line editor and shell. The operating system is a parameter.
  \<^item> \<open>Calls\<close>, \<open>Lines\<close>: the two sides together. System calls from stub to handler and back, the gates open to
    user mode, the placing of new tasks; the line editor on the kernel, by the locale \<open>console\<close>.
  \<^item> \<open>Boot\<close>: the boot loader brings every segment of the kernel's file to its place.

  \<^bold>\<open>What is shown.\<close> \<open>machine_invariant\<close> is about the whole machine: the run queues stay consistent while the traps of
  its processors come one after the other. Start-up gets there: \<open>task_init_correct\<close> for the first processor, whose code
  also returns, and \<open>kernel_main_establishes_invariant\<close> (a lemma of \<open>Reach\<close>) for every run of \<^verbatim>\<open>kernel_main\<close> that
  reaches user mode. \<open>timer_trap_outcome\<close> says that a timer trap in a reachable state runs to its end, with one exception
  that is an error of the code. The scheduler is round robin and fair, a sleeping task wakes after the ticks it asked
  for, a fork yields a copy. For memory: allocation and freeing on the free
  list, insertion, removal and mapping on the abstract map, the address spaces of tasks and that user mode
  cannot reach the kernel. The lock excludes at the level of single memory accesses. For devices and libraries: refinement of
  terminal and queue, round trips of numbers, bounds of buffers. Several properties show what the code does where it errs:
  a page freed twice, a removal through an uninitialised variable, a stale translation, a reservation that wraps
  around, a full console buffer, a sleep that does not sleep, a trap without a current task.

  \<^bold>\<open>Bounds.\<close> C loops are recursion on lists or numbers where they are bounded. Where not, a function takes a bound on its rounds
  and gives \<open>Hang\<close> beyond it, and the bound is one that a loop exceeds only if it never ends: the number of waiting
  scan codes plus one for \<^verbatim>\<open>cons_intr\<close> (a round without a code ends the loop; \<open>kbd_intr_returns\<close>), the number of page structures for walks of
  the free list (a longer walk is a cycle), \<open>2 ^ 23\<close> sectors for \<^verbatim>\<open>readseg\<close> (the address space has no more; \<open>bootmain_correct\<close>
  returns), one level of nested \<^verbatim>\<open>printfmt\<close> calls (only error numbers nest, and their formats have none). \<^verbatim>\<open>getchar\<close> and \<^verbatim>\<open>readline\<close> wait
  for a person; their bound is an argument, and \<open>readline_reads_line\<close> says which values are enough. \<^verbatim>\<open>waitdisk\<close> polls as often as the
  disk needs, a number of the disk's state: a disk that never gets ready is not represented.

  \<^bold>\<open>Integers.\<close> Machine words are words; a C \<^verbatim>\<open>int\<close> is a word read with its sign or, where the code stays far from its bounds (array
  positions, and the widths and counts of \<^verbatim>\<open>vprintfmt\<close>), an integer. \<^verbatim>\<open>strtol\<close> computes with a signed \<^verbatim>\<open>long\<close> of 32 bits (\<open>clong\<close>).

  \<^bold>\<open>Interleaving.\<close> The lock is modelled at the level of single memory accesses. Elsewhere a trap is one step: interrupts are off in
  the kernel, but two processors can be in it at once, so that races on data the code does not lock (the
  run queue in \<^verbatim>\<open>sys_kill\<close>) are outside \<open>machine_step\<close>. While a processor is being started the one that starts it
  only waits, so their code runs in turn.

  \<^bold>\<open>Not modelled.\<close> The assembly sources (\<^verbatim>\<open>boot/boot.S\<close>, \<^verbatim>\<open>kernel/entry.S\<close>, \<^verbatim>\<open>kernel/mpentry.S\<close>, \<^verbatim>\<open>kernel/trap_entry.S\<close>): their effect on C, the
  pushed frame and the entry state, is where the model starts. \<^verbatim>\<open>kernel/shell.c\<close> and \<^verbatim>\<open>lib/readelf.c\<close> are not built. Execution
  of user instructions: between traps user code may change its own registers and memory. \<^verbatim>\<open>sys_fork\<close> as
  the shell sees it is the value it returns; one process is followed. Timing of devices, and the contents of
  physical memory the kernel does not look at. The earlier stages \<^verbatim>\<open>src/lab3\<close> to \<^verbatim>\<open>src/lab5\<close> are previous versions of these files,
  \<^verbatim>\<open>src/lab1\<close> and \<^verbatim>\<open>src/lab2\<close> build third-party systems.
\<close>

end
